(* ===== verification/Prelude.thy ===== *)
theory Prelude
  imports Main "HOL-Library.Word" "HOL-Library.List_Lexorder" "HOL-Library.FSet"
begin

text \<open>
  Shared vocabulary of the development: bytes and byte strings, the machine integers of the
  program, results of fallible computations, the loops that thread such results, and the
  handful of Rust string operations the sources use. A Rust string is its UTF-8 byte sequence, so
  \<open>str::len\<close>, \<open>starts_with\<close>, \<open>split('/')\<close> and the ordering of paths are
  operations on byte lists; ordering is lexicographic on unsigned bytes (\<open>List_Lexorder\<close>).
\<close>

section \<open>Bytes, strings and machine integers\<close>

type_synonym byte = "8 word"
type_synonym str = "byte list"
type_synonym u32 = "32 word"
type_synonym u64 = "64 word"

text \<open>A Rust \<open>i64\<close> is its 64-bit pattern; \<open>sint\<close> reads it. The sources only compare and copy it.\<close>

type_synonym i64 = "64 word"

text \<open>\<open>[u8; 32]\<close> and \<open>[u8; 16]\<close> as words; their bytes are the big-endian ones.\<close>

type_synonym hash = "256 word"
type_synonym ident = "128 word"

definition ascii :: "string \<Rightarrow> str" where
  "ascii s = map of_char s"

lemma ascii_Nil [simp]: "ascii [] = []"
  by (simp add: ascii_def)

lemma length_ascii [simp]: "length (ascii s) = length s"
  by (simp add: ascii_def)

section \<open>Results\<close>

text \<open>\<open>bindR\<close> is Rust's \<open>?\<close>: an error leaves the function, a value is passed on.\<close>

fun bindR :: "'e + 'a \<Rightarrow> ('a \<Rightarrow> 'e + 'b) \<Rightarrow> 'e + 'b" where
  "bindR (Inl e) f = Inl e"
| "bindR (Inr x) f = f x"

named_theorems result_simps \<open>rewriting of results: when a composed result is a value or an error\<close>

lemma bindR_eq_Inr [result_simps]: "bindR m f = Inr y \<longleftrightarrow> (\<exists>x. m = Inr x \<and> f x = Inr y)"
  by (cases m) auto

lemma Inr_eq_bindR [result_simps]: "Inr y = bindR m f \<longleftrightarrow> (\<exists>x. m = Inr x \<and> f x = Inr y)"
  by (cases m) auto

lemma bindR_eq_Inl [result_simps]:
  "bindR m f = Inl e \<longleftrightarrow> m = Inl e \<or> (\<exists>x. m = Inr x \<and> f x = Inl e)"
  by (cases m) auto

lemma bindR_cong [fundef_cong]:
  "m = m' \<Longrightarrow> (\<And>x. m' = Inr x \<Longrightarrow> f x = f' x) \<Longrightarrow> bindR m f = bindR m' f'"
  by (cases m') auto

lemma bindR_assoc: "bindR (bindR m f) g = bindR m (\<lambda>x. bindR (f x) g)"
  by (cases m) auto

lemma if_Inl_eq_Inr [result_simps]: "(if b then Inl e else m) = Inr x \<longleftrightarrow> \<not> b \<and> m = Inr x"
  by auto

lemma if_Inr_eq_Inl [result_simps]: "(if b then Inr x else m) = Inl e \<longleftrightarrow> \<not> b \<and> m = Inl e"
  by auto

text \<open>A \<open>for\<close> loop whose body may leave with an error, threading an accumulator.\<close>

fun foldR :: "('a \<Rightarrow> 's \<Rightarrow> 'e + 's) \<Rightarrow> 'a list \<Rightarrow> 's \<Rightarrow> 'e + 's" where
  "foldR f [] s = Inr s"
| "foldR f (x # xs) s = bindR (f x s) (foldR f xs)"

lemma foldR_append: "foldR f (xs @ ys) s = bindR (foldR f xs s) (foldR f ys)"
proof (induction xs arbitrary: s)
  case (Cons x xs)
  then show ?case by (cases "f x s") auto
qed simp

text \<open>An invariant of the body is an invariant of the loop; the list is split at the current element.\<close>

lemma foldR_induct:
  assumes "foldR f xs s = Inr t" and "P [] s"
    and step: "\<And>ys x zs u v. xs = ys @ x # zs \<Longrightarrow> P ys u \<Longrightarrow> f x u = Inr v \<Longrightarrow> P (ys @ [x]) v"
  shows "P xs t"
proof -
  have "P (ys @ zs) t" if "foldR f zs u = Inr t" "P ys u" "xs = ys @ zs" for ys zs u
    using that
  proof (induction zs arbitrary: ys u)
    case Nil
    then show ?case by simp
  next
    case (Cons z zs)
    then obtain v where v: "f z u = Inr v" "foldR f zs v = Inr t"
      by (auto simp: result_simps)
    have "P (ys @ [z]) v"
      using step [OF Cons.prems(3,2) v(1)] .
    from Cons.IH [OF v(2) this] Cons.prems(3) show ?case by simp
  qed
  from this [of xs s "[]"] assms(1,2) show ?thesis by simp
qed

text \<open>Collecting the results of a fallible map, as \<open>iter().map(..).collect::<Result<_>>()\<close>.\<close>

fun mapR :: "('a \<Rightarrow> 'e + 'b) \<Rightarrow> 'a list \<Rightarrow> 'e + 'b list" where
  "mapR f [] = Inr []"
| "mapR f (x # xs) = bindR (f x) (\<lambda>y. bindR (mapR f xs) (\<lambda>ys. Inr (y # ys)))"

lemma mapR_eq_Inr:
  "mapR f xs = Inr ys \<longleftrightarrow> length ys = length xs \<and> (\<forall>i < length xs. f (xs ! i) = Inr (ys ! i))"
proof (induction xs arbitrary: ys)
  case Nil
  then show ?case by auto
next
  case (Cons x xs)
  show ?case
  proof (cases ys)
    case Nil
    then show ?thesis by (simp add: result_simps)
  next
    case (Cons z zs)
    then show ?thesis
      using Cons.IH [of zs] by (auto simp: result_simps less_Suc_eq_0_disj)
  qed
qed

lemma mapR_Inr: "(\<And>x. x \<in> set xs \<Longrightarrow> f x = Inr (g x)) \<Longrightarrow> mapR f xs = Inr (map g xs)"
  by (induction xs) auto

section \<open>Rust string operations\<close>

text \<open>\<open>str::split(c)\<close>: always at least one component; the empty string has one empty component.\<close>

fun split_on :: "'a \<Rightarrow> 'a list \<Rightarrow> 'a list list" where
  "split_on c [] = [[]]"
| "split_on c (x # xs) =
     (if x = c then [] # split_on c xs
      else (case split_on c xs of [] \<Rightarrow> [[x]] | p # ps \<Rightarrow> (x # p) # ps))"

fun join_with :: "'a \<Rightarrow> 'a list list \<Rightarrow> 'a list" where
  "join_with c [] = []"
| "join_with c [p] = p"
| "join_with c (p # ps) = p @ c # join_with c ps"

definition strip_prefix :: "'a list \<Rightarrow> 'a list \<Rightarrow> 'a list option" where
  "strip_prefix p xs = (if take (length p) xs = p then Some (drop (length p) xs) else None)"

definition starts_with :: "'a list \<Rightarrow> 'a list \<Rightarrow> bool" where
  "starts_with p xs \<longleftrightarrow> take (length p) xs = p"

text \<open>\<open>str::rsplit_once(c)\<close>: the text before and after the last \<open>c\<close>.\<close>

definition rsplit_once :: "'a \<Rightarrow> 'a list \<Rightarrow> ('a list \<times> 'a list) option" where
  "rsplit_once c xs =
     (case dropWhile (\<lambda>x. x \<noteq> c) (rev xs) of
        [] \<Rightarrow> None
      | _ # before \<Rightarrow> Some (rev before, rev (takeWhile (\<lambda>x. x \<noteq> c) (rev xs))))"

text \<open>\<open>str::split_once(c)\<close>: the text before and after the first \<open>c\<close>.\<close>

definition split_once :: "'a \<Rightarrow> 'a list \<Rightarrow> ('a list \<times> 'a list) option" where
  "split_once c xs =
     (case dropWhile (\<lambda>x. x \<noteq> c) xs of
        [] \<Rightarrow> None
      | _ # after \<Rightarrow> Some (takeWhile (\<lambda>x. x \<noteq> c) xs, after))"

lemma split_on_not_Nil [simp]: "split_on c xs \<noteq> []"
  by (induction xs) (auto split: list.splits)

lemma split_on_Cons_ne: "x \<noteq> c \<Longrightarrow> split_on c (x # xs) = (x # hd (split_on c xs)) # tl (split_on c xs)"
  by (simp split: list.splits)

lemma split_on_free: "c \<notin> set xs \<Longrightarrow> split_on c xs = [xs]"
  by (induction xs) auto

lemma split_on_append_sep: "split_on c (xs @ c # ys) = split_on c xs @ split_on c ys"
  by (induction xs) (auto split: list.splits)

lemma join_with_Cons: "ps \<noteq> [] \<Longrightarrow> join_with c (p # ps) = p @ c # join_with c ps"
  by (cases ps) auto

lemma join_split [simp]: "join_with c (split_on c xs) = xs"
proof (induction xs)
  case Nil
  then show ?case by simp
next
  case (Cons x xs)
  obtain p ps where p: "split_on c xs = p # ps"
    by (cases "split_on c xs") auto
  with Cons show ?case by (cases ps) auto
qed

lemma split_on_components: "p \<in> set (split_on c xs) \<Longrightarrow> c \<notin> set p"
proof (induction xs arbitrary: p)
  case Nil
  then show ?case by simp
next
  case (Cons x xs)
  obtain q qs where q: "split_on c xs = q # qs"
    by (cases "split_on c xs") auto
  with Cons show ?case by (auto split: if_splits)
qed

lemma set_component: "p \<in> set (split_on c xs) \<Longrightarrow> set p \<subseteq> set xs"
proof (induction xs arbitrary: p)
  case (Cons x xs)
  show ?case
  proof (cases "x = c")
    case False
    then have "p \<in> set ((x # hd (split_on c xs)) # tl (split_on c xs))"
      using Cons.prems split_on_Cons_ne [of x c xs] by metis
    then consider "p = x # hd (split_on c xs)" | "p \<in> set (split_on c xs)"
      by (cases "split_on c xs") auto
    then show ?thesis
    proof cases
      case 1
      then show ?thesis using Cons.IH [of "hd (split_on c xs)"] by auto
    qed (use Cons.IH in auto)
  qed (use Cons in auto)
qed simp

lemma length_split_on: "length (split_on c xs) = Suc (count_list xs c)"
  by (induction xs) (auto split: list.splits)

lemma split_on_inj: "split_on c xs = split_on c ys \<longleftrightarrow> xs = ys"
  by (metis join_split)

lemma strip_prefix_Some: "strip_prefix p xs = Some ys \<longleftrightarrow> xs = p @ ys"
proof
  assume "strip_prefix p xs = Some ys"
  then have "take (length p) xs = p" and "drop (length p) xs = ys"
    by (auto simp: strip_prefix_def split: if_splits)
  then show "xs = p @ ys" by (metis append_take_drop_id)
qed (simp add: strip_prefix_def)

lemma starts_with_iff: "starts_with p xs \<longleftrightarrow> (\<exists>ys. xs = p @ ys)"
  by (metis append_eq_conv_conj append_take_drop_id starts_with_def)

lemma rsplit_once_Some:
  "rsplit_once c xs = Some (a, b) \<longleftrightarrow> xs = a @ c # b \<and> c \<notin> set b"
proof
  assume "rsplit_once c xs = Some (a, b)"
  then obtain h where h: "dropWhile (\<lambda>x. x \<noteq> c) (rev xs) = h # rev a"
    and b: "rev b = takeWhile (\<lambda>x. x \<noteq> c) (rev xs)"
    by (auto simp: rsplit_once_def split: list.splits)
  have "h = c"
    using hd_dropWhile [of "\<lambda>x. x \<noteq> c" "rev xs"] h by simp
  have "rev xs = rev b @ h # rev a"
    by (simp add: b flip: h)
  then have "xs = rev (rev b @ h # rev a)" by (metis rev_rev_ident)
  then have eq: "xs = a @ c # b" using \<open>h = c\<close> by simp
  have "c \<notin> set (rev b)"
    unfolding b by (auto dest: set_takeWhileD)
  with eq show "xs = a @ c # b \<and> c \<notin> set b" by simp
next
  assume *: "xs = a @ c # b \<and> c \<notin> set b"
  then have ne: "\<And>x. x \<in> set (rev b) \<Longrightarrow> x \<noteq> c" by auto
  have "dropWhile (\<lambda>x. x \<noteq> c) (rev b @ c # rev a) = c # rev a"
    and "takeWhile (\<lambda>x. x \<noteq> c) (rev b @ c # rev a) = rev b"
    using dropWhile_append2 [of "rev b" "\<lambda>x. x \<noteq> c", OF ne]
      takeWhile_append2 [of "rev b" "\<lambda>x. x \<noteq> c", OF ne] by simp_all
  with * show "rsplit_once c xs = Some (a, b)"
    by (simp add: rsplit_once_def)
qed

lemma rsplit_once_None: "rsplit_once c xs = None \<longleftrightarrow> c \<notin> set xs"
proof -
  have "rsplit_once c xs = None \<longleftrightarrow> dropWhile (\<lambda>x. x \<noteq> c) (rev xs) = []"
    by (cases "dropWhile (\<lambda>x. x \<noteq> c) (rev xs)")
      (simp_all only: rsplit_once_def list.case, simp_all)
  also have "\<dots> \<longleftrightarrow> c \<notin> set xs"
    unfolding dropWhile_eq_Nil_conv by auto
  finally show ?thesis .
qed

lemma split_once_Some:
  "split_once c xs = Some (a, b) \<longleftrightarrow> xs = a @ c # b \<and> c \<notin> set a"
proof
  assume "split_once c xs = Some (a, b)"
  then obtain h where h: "dropWhile (\<lambda>x. x \<noteq> c) xs = h # b" and a: "a = takeWhile (\<lambda>x. x \<noteq> c) xs"
    by (auto simp: split_once_def split: list.splits)
  have "h = c" using hd_dropWhile [of "\<lambda>x. x \<noteq> c" xs] h by simp
  moreover have "xs = a @ h # b" by (simp add: a flip: h)
  moreover have "c \<notin> set a" unfolding a by (auto dest: set_takeWhileD)
  ultimately show "xs = a @ c # b \<and> c \<notin> set a" by simp
next
  assume *: "xs = a @ c # b \<and> c \<notin> set a"
  then have ne: "\<And>x. x \<in> set a \<Longrightarrow> x \<noteq> c" by auto
  have "dropWhile (\<lambda>x. x \<noteq> c) (a @ c # b) = c # b" and "takeWhile (\<lambda>x. x \<noteq> c) (a @ c # b) = a"
    using dropWhile_append2 [of a "\<lambda>x. x \<noteq> c", OF ne] takeWhile_append2 [of a "\<lambda>x. x \<noteq> c", OF ne]
    by simp_all
  with * show "split_once c xs = Some (a, b)" by (simp add: split_once_def)
qed

section \<open>Decimal numerals in messages\<close>

text \<open>\<open>Display\<close> for unsigned integers.\<close>

fun decimal :: "nat \<Rightarrow> str" where
  "decimal n = (if n < 10 then [word_of_nat (48 + n)]
                else decimal (n div 10) @ [word_of_nat (48 + n mod 10)])"

declare decimal.simps [simp del]

lemma upt_split: "[a..<n] = ys @ i # zs \<Longrightarrow> i = a + length ys \<and> i < n"
proof -
  assume eq: "[a..<n] = ys @ i # zs"
  then have "length ys < n - a" by (metis length_append length_upt less_add_same_cancel1 list.size(4) zero_less_Suc add_Suc_right)
  moreover have "[a..<n] ! length ys = i" by (simp add: eq)
  ultimately show ?thesis by (auto simp: nth_upt)
qed

section \<open>State machines with an invariant\<close>

text \<open>
  The contract between a state machine and the claims about all of its histories: the invariant holds
  at the start, and every step keeps it.
\<close>

locale machine =
  fixes move :: "'s \<Rightarrow> 's \<Rightarrow> bool" and start :: 's and inv :: "'s \<Rightarrow> bool"
  assumes start_inv: "inv start" and move_inv: "move s t \<Longrightarrow> inv s \<Longrightarrow> inv t"
begin

lemma moves_inv: "move\<^sup>*\<^sup>* s t \<Longrightarrow> inv s \<Longrightarrow> inv t"
  by (induction rule: rtranclp_induct) (auto intro: move_inv)

lemma reach_inv: "move\<^sup>*\<^sup>* start s \<Longrightarrow> inv s"
  using moves_inv start_inv by blast

end

end
