(* ===== verification/Failure.thy ===== *)
theory Failure
  imports Prelude
begin

text \<open>
  The error type of the crate (\<open>src/lib.rs\<close>) and UTF-8, which the text of an error and every
  string read from the wire must satisfy. \<open>std::io::Error\<close> is represented by its kind; the kinds
  that the sources distinguish have a constructor of their own. The \<open>Display\<close> text of an
  \<open>io::Error\<close> belongs to the standard library's platform layer and is the parameter
  \<open>io_text\<close> of the functions that print one.

  A Rust panic (an index out of range, \<open>unwrap\<close> of an error) is not an \<open>Error\<close>. Functions that
  could panic return a \<open>failure\<close>, which is either an error of the crate or \<open>Panics\<close>. A loop
  that outlasts the bound given to it has the result \<open>Diverges\<close>.
\<close>

section \<open>The error type\<close>

datatype io_kind = NotFound | AlreadyExists | UnexpectedEof | OtherIo str

datatype error =
    Io io_kind
  | InvalidPath str
  | Protocol str
  | PermissionDenied
  | Changed str
  | HashMismatch str
  | Transport str
  | Connection str
  | Busy
  | Remote byte str
  | Config str

type_synonym 'a res = "error + 'a"

datatype failure = Fails error | Panics | Diverges

type_synonym 'a outcome = "failure + 'a"

text \<open>An error of a pure function leaving a function that may also panic, and \<open>Result::unwrap\<close>.\<close>

definition may :: "'a res \<Rightarrow> 'a outcome" where
  "may r = (case r of Inl e \<Rightarrow> Inl (Fails e) | Inr x \<Rightarrow> Inr x)"

definition unwrap :: "'a res \<Rightarrow> 'a outcome" where
  "unwrap r = (case r of Inl e \<Rightarrow> Inl Panics | Inr x \<Rightarrow> Inr x)"

lemma may_simps [simp]: "may (Inl e) = Inl (Fails e)" "may (Inr x) = Inr x"
  by (simp_all add: may_def)

lemma unwrap_simps [simp]: "unwrap (Inl e) = Inl Panics" "unwrap (Inr x) = Inr x"
  by (simp_all add: unwrap_def)

lemma may_eq_Inr [simp]: "may r = Inr x \<longleftrightarrow> r = Inr x"
  by (cases r) auto

lemma may_not_panics [simp]: "may r \<noteq> Inl Panics"
  by (cases r) auto

lemma unwrap_eq_Inr [simp]: "unwrap r = Inr x \<longleftrightarrow> r = Inr x"
  by (cases r) auto

text \<open>The \<open>#[error(..)]\<close> attributes: what \<open>to_string\<close> gives.\<close>

fun error_text :: "(io_kind \<Rightarrow> str) \<Rightarrow> error \<Rightarrow> str" where
  "error_text io_text (Io k) = ascii ''filesystem: '' @ io_text k"
| "error_text io_text (InvalidPath p) = ascii ''invalid path: '' @ p"
| "error_text io_text (Protocol t) = ascii ''protocol: '' @ t"
| "error_text io_text PermissionDenied = ascii ''permission denied''"
| "error_text io_text (Changed p) =
     ascii ''source or destination changed: '' @ p @ ascii ''; run synchronization again''"
| "error_text io_text (HashMismatch p) = ascii ''hash mismatch: '' @ p"
| "error_text io_text (Transport t) = ascii ''transport: '' @ t"
| "error_text io_text (Connection t) = ascii ''connection: '' @ t"
| "error_text io_text Busy = ascii ''server export is busy''"
| "error_text io_text (Remote code t) =
     ascii ''remote error '' @ decimal (unat code) @ ascii '': '' @ t"
| "error_text io_text (Config t) = ascii ''configuration: '' @ t"

section \<open>UTF-8\<close>

text \<open>
  \<open>String::from_utf8\<close> accepts exactly the well-formed byte sequences of the Unicode standard
  (its table 3-7): no overlong form, no surrogate, nothing above U+10FFFF. \<open>scalar_len bs\<close> is the
  length of the scalar value at the head of \<open>bs\<close>, and 0 when there is none.
\<close>

definition continuation :: "byte \<Rightarrow> bool" where
  "continuation b \<longleftrightarrow> 0x80 \<le> b \<and> b \<le> 0xBF"

definition lead_len :: "byte \<Rightarrow> nat" where
  "lead_len b =
     (if b < 0x80 then 1
      else if 0xC2 \<le> b \<and> b \<le> 0xDF then 2
      else if 0xE0 \<le> b \<and> b \<le> 0xEF then 3
      else if 0xF0 \<le> b \<and> b \<le> 0xF4 then 4
      else 0)"

definition second_ok :: "byte \<Rightarrow> byte \<Rightarrow> bool" where
  "second_ok b0 b1 \<longleftrightarrow>
     (if b0 = 0xE0 then 0xA0 \<le> b1 \<and> b1 \<le> 0xBF
      else if b0 = 0xED then 0x80 \<le> b1 \<and> b1 \<le> 0x9F
      else if b0 = 0xF0 then 0x90 \<le> b1 \<and> b1 \<le> 0xBF
      else if b0 = 0xF4 then 0x80 \<le> b1 \<and> b1 \<le> 0x8F
      else continuation b1)"

definition tail_ok :: "byte \<Rightarrow> byte list \<Rightarrow> bool" where
  "tail_ok b0 cs \<longleftrightarrow>
     (case cs of [] \<Rightarrow> True | b1 # more \<Rightarrow> second_ok b0 b1 \<and> list_all continuation more)"

definition scalar_len :: "byte list \<Rightarrow> nat" where
  "scalar_len bs =
     (case bs of
        [] \<Rightarrow> 0
      | b0 # rest \<Rightarrow>
          if length bs < lead_len b0 \<or> \<not> tail_ok b0 (take (lead_len b0 - 1) rest) then 0
          else lead_len b0)"

function valid_utf8 :: "byte list \<Rightarrow> bool" where
  "valid_utf8 bs =
     (if bs = [] then True
      else if scalar_len bs = 0 then False
      else valid_utf8 (drop (scalar_len bs) bs))"
  by pat_completeness auto
termination
  by (relation "measure length") auto

declare valid_utf8.simps [simp del]

text \<open>\<open>chars().take(n)\<close>: the first \<open>n\<close> scalar values.\<close>

fun take_chars :: "nat \<Rightarrow> byte list \<Rightarrow> byte list" where
  "take_chars 0 bs = []"
| "take_chars (Suc n) bs = take (scalar_len bs) bs @ take_chars n (drop (scalar_len bs) bs)"

lemma lead_len_le4: "lead_len b \<le> 4"
  by (simp add: lead_len_def)

lemma scalar_len_le4: "scalar_len bs \<le> 4"
  by (simp add: scalar_len_def lead_len_le4 split: list.split)

lemma scalar_len_le: "scalar_len bs \<le> length bs"
  by (auto simp: scalar_len_def split: list.split)

lemma scalar_len_append2: "scalar_len bs \<noteq> 0 \<Longrightarrow> scalar_len (bs @ xs) = scalar_len bs"
  by (cases bs) (auto simp: scalar_len_def split: if_splits)

lemma scalar_len_take: "scalar_len bs \<noteq> 0 \<Longrightarrow> scalar_len (take (scalar_len bs) bs) = scalar_len bs"
  by (cases bs) (auto simp: scalar_len_def take_Cons' split: if_splits)

lemma valid_utf8_Nil [simp]: "valid_utf8 []"
  by (simp add: valid_utf8.simps)

lemma valid_utf8_append: "valid_utf8 as \<Longrightarrow> valid_utf8 bs \<Longrightarrow> valid_utf8 (as @ bs)"
proof (induction as rule: valid_utf8.induct)
  case (1 as)
  show ?case
  proof (cases "as = []")
    case False
    with "1.prems"(1) have n: "scalar_len as \<noteq> 0" and tl: "valid_utf8 (drop (scalar_len as) as)"
      by (auto simp: valid_utf8.simps [of as] split: if_splits)
    have "valid_utf8 (drop (scalar_len as) as @ bs)"
      using "1.IH" False n tl "1.prems"(2) by blast
    then show ?thesis
      using n scalar_len_le [of as]
      by (subst valid_utf8.simps) (simp add: scalar_len_append2)
  qed (use "1.prems" in simp)
qed

lemma valid_utf8_singleton: "b < 0x80 \<Longrightarrow> valid_utf8 [b]"
  by (simp add: valid_utf8.simps scalar_len_def lead_len_def tail_ok_def)

lemma valid_utf8_ascii_bytes: "(\<And>b. b \<in> set bs \<Longrightarrow> b < 0x80) \<Longrightarrow> valid_utf8 bs"
proof (induction bs)
  case (Cons b bs)
  then show ?case
    using valid_utf8_append [OF valid_utf8_singleton [of b], of bs] by simp
qed simp

lemma length_take_chars: "length (take_chars n bs) \<le> 4 * n"
proof (induction n arbitrary: bs)
  case (Suc n)
  have "length (take (scalar_len bs) bs) \<le> 4"
    using scalar_len_le4 [of bs] by simp
  with Suc [of "drop (scalar_len bs) bs"] show ?case by simp
qed simp

lemma valid_utf8_take_chars: "valid_utf8 bs \<Longrightarrow> valid_utf8 (take_chars n bs)"
proof (induction n arbitrary: bs)
  case (Suc n)
  show ?case
  proof (cases "bs = []")
    case True
    with Suc.IH [of "[]"] show ?thesis by simp
  next
    case False
    let ?k = "scalar_len bs"
    from False Suc.prems have k: "?k \<noteq> 0" and tl: "valid_utf8 (drop ?k bs)"
      by (auto simp: valid_utf8.simps [of bs] split: if_splits)
    have "valid_utf8 (take ?k bs)"
      using scalar_len_take [OF k] k scalar_len_le [of bs]
      by (subst valid_utf8.simps) simp
    from valid_utf8_append [OF this Suc.IH [OF tl]] show ?thesis by simp
  qed
qed simp

lemma valid_utf8_decimal: "valid_utf8 (decimal n)"
proof (induction n rule: decimal.induct)
  case (1 n)
  have digit: "valid_utf8 [word_of_nat (48 + d) :: byte]" if "d < 10" for d :: nat
    by (rule valid_utf8_singleton)
      (use that in \<open>simp add: word_less_nat_alt unat_of_nat del: of_nat_add\<close>)
  show ?case
  proof (cases "n < 10")
    case True
    then show ?thesis using digit [of n] by (subst decimal.simps) simp
  next
    case False
    then show ?thesis
      using "1.IH" digit [of "n mod 10"]
      by (subst decimal.simps) (auto intro: valid_utf8_append)
  qed
qed

text \<open>Text made of seven-bit characters is UTF-8, whatever is in it.\<close>

lemma of_char_ascii: "of_char c < (128 :: nat) \<Longrightarrow> (of_char c :: byte) < 0x80"
proof -
  assume c: "of_char c < (128 :: nat)"
  have "(of_char c :: byte) = of_nat (of_char c)"
    by (simp add: of_char_def)
  with c show ?thesis by (simp add: word_less_nat_alt unat_of_nat)
qed

lemma valid_utf8_ascii: "(\<And>c. c \<in> set s \<Longrightarrow> of_char c < (128 :: nat)) \<Longrightarrow> valid_utf8 (ascii s)"
  by (rule valid_utf8_ascii_bytes) (auto simp: ascii_def intro: of_char_ascii)

end
