(* ===== verification/Io.thy ===== *)
theory Io
  imports Failure
begin

text \<open>
  Computations on the world outside the program. A computation takes the world, gives a result or a
  failure, and the world after it; a failure skips what follows, as \<open>?\<close> does, and keeps what the world
  has become. The second half is the calculus the component proofs use: which computations keep a
  view of the world (\<open>keeps\<close>), which never panic (\<open>safe\<close>) or run on (\<open>total\<close>), and postconditions (\<open>ensures\<close>), each
  with one rule per connective.
\<close>

section \<open>Computations\<close>

type_synonym ('w, 'a) io = "'w \<Rightarrow> 'a outcome \<times> 'w"

definition returnI :: "'a \<Rightarrow> ('w, 'a) io" where
  "returnI x w = (Inr x, w)"

definition failI :: "error \<Rightarrow> ('w, 'a) io" where
  "failI e w = (Inl (Fails e), w)"

definition panicI :: "('w, 'a) io" where
  "panicI w = (Inl Panics, w)"

definition divergeI :: "('w, 'a) io" where
  "divergeI w = (Inl Diverges, w)"

definition bindI :: "('w, 'a) io \<Rightarrow> ('a \<Rightarrow> ('w, 'b) io) \<Rightarrow> ('w, 'b) io" where
  "bindI m f w = (case m w of (Inl e, w') \<Rightarrow> (Inl e, w') | (Inr x, w') \<Rightarrow> f x w')"

text \<open>Pure results, and \<open>match\<close> on a result instead of \<open>?\<close>; a panic is not a result.\<close>

definition pureI :: "'a outcome \<Rightarrow> ('w, 'a) io" where
  "pureI r w = (r, w)"

definition resultI :: "('w, 'a) io \<Rightarrow> ('w, 'a res) io" where
  "resultI m w =
     (case m w of
        (Inr x, w') \<Rightarrow> (Inr (Inr x), w')
      | (Inl (Fails e), w') \<Rightarrow> (Inr (Inl e), w')
      | (Inl Panics, w') \<Rightarrow> (Inl Panics, w')
      | (Inl Diverges, w') \<Rightarrow> (Inl Diverges, w'))"

abbreviation liftI :: "'a res \<Rightarrow> ('w, 'a) io" where
  "liftI r \<equiv> pureI (may r)"

text \<open>A cleanup that runs when the computation fails, and one that runs in any case (\<open>Drop\<close>).\<close>

definition on_failI :: "('w, 'a) io \<Rightarrow> ('w \<Rightarrow> 'w) \<Rightarrow> ('w, 'a) io" where
  "on_failI m c w = (case m w of (Inl e, w') \<Rightarrow> (Inl e, c w') | (Inr x, w') \<Rightarrow> (Inr x, w'))"

definition finallyI :: "('w, 'a) io \<Rightarrow> ('w \<Rightarrow> 'w) \<Rightarrow> ('w, 'a) io" where
  "finallyI m c w = (case m w of (r, w') \<Rightarrow> (r, c w'))"

fun foldI :: "('x \<Rightarrow> 's \<Rightarrow> ('w, 's) io) \<Rightarrow> 'x list \<Rightarrow> 's \<Rightarrow> ('w, 's) io" where
  "foldI f [] s = returnI s"
| "foldI f (x # xs) s = bindI (f x s) (foldI f xs)"

definition eachI :: "('x \<Rightarrow> ('w, unit) io) \<Rightarrow> 'x list \<Rightarrow> ('w, unit) io" where
  "eachI f xs = foldI (\<lambda>x _. f x) xs ()"

text \<open>\<open>v[i]\<close>, which panics out of range, and \<open>map[key]\<close>, which panics on a missing key.\<close>

definition indexI :: "'x list \<Rightarrow> nat \<Rightarrow> ('w, 'x) io" where
  "indexI xs i = (if i < length xs then returnI (xs ! i) else panicI)"

definition presentI :: "'x option \<Rightarrow> ('w, 'x) io" where
  "presentI v = (case v of Some x \<Rightarrow> returnI x | None \<Rightarrow> panicI)"

lemma eachI_simps [simp]:
  "eachI f [] = returnI ()" "eachI f (x # xs) = bindI (f x) (\<lambda>_. eachI f xs)"
  by (auto simp: eachI_def fun_eq_iff)

text \<open>What a computation that neither panics nor runs on ends in.\<close>

lemma outcome_cases:
  fixes x :: "'a outcome"
  assumes "x \<noteq> Inl Diverges" "x \<noteq> Inl Panics"
  shows "(\<exists>y. x = Inr y) \<or> (\<exists>e. x = Inl (Fails e))"
proof (cases x)
  case (Inl f)
  with assms show ?thesis by (cases f) auto
qed simp

section \<open>Evaluation\<close>

lemma run_io [simp]:
  "returnI x w = (Inr x, w)" "failI e w = (Inl (Fails e), w)" "panicI w = (Inl Panics, w)"
  "divergeI w = (Inl Diverges, w)" "pureI r w = (r, w)"
  by (simp_all add: returnI_def failI_def panicI_def divergeI_def pureI_def)

lemma bindI_Inr: "bindI m f w = (Inr y, w2) \<longleftrightarrow> (\<exists>x w1. m w = (Inr x, w1) \<and> f x w1 = (Inr y, w2))"
  by (auto simp: bindI_def split: prod.splits sum.splits)

lemma bindI_Inl:
  "bindI m f w = (Inl e, w2) \<longleftrightarrow> m w = (Inl e, w2) \<or> (\<exists>x w1. m w = (Inr x, w1) \<and> f x w1 = (Inl e, w2))"
  by (auto simp: bindI_def split: prod.splits sum.splits)

lemma bindI_return [simp]: "bindI (returnI x) f = f x"
  by (simp add: bindI_def fun_eq_iff)

lemma bindI_fail [simp]: "bindI (failI e) f = failI e" "bindI panicI f = panicI" "bindI divergeI f = divergeI"
  by (simp_all add: bindI_def fun_eq_iff)

lemma bindI_return_right [simp]: "bindI m returnI = m"
  by (simp add: bindI_def fun_eq_iff split: prod.split sum.split)

lemma bindI_assoc: "bindI (bindI m f) g = bindI m (\<lambda>x. bindI (f x) g)"
  by (simp add: bindI_def fun_eq_iff split: prod.split sum.split)

lemma pureI_simps [simp]:
  "pureI (Inr x) = returnI x" "pureI (Inl (Fails e)) = failI e" "pureI (Inl Panics) = panicI"
  by (simp_all add: fun_eq_iff)

lemma foldI_append: "foldI f (xs @ ys) s = bindI (foldI f xs s) (foldI f ys)"
proof (induction xs arbitrary: s)
  case (Cons x xs)
  have "foldI f (xs @ ys) = (\<lambda>s. bindI (foldI f xs s) (foldI f ys))"
    by (rule ext) (rule Cons.IH)
  then show ?case by (simp add: bindI_assoc)
qed simp

text \<open>Rewriting of what is known about a successful computation.\<close>

named_theorems io_simps \<open>when a composed computation succeeds\<close>

lemmas [io_simps] = bindI_Inr

lemma resultI_Inr [io_simps]:
  "resultI m w = (Inr r, w') \<longleftrightarrow>
     (\<exists>x. r = Inr x \<and> m w = (Inr x, w')) \<or> (\<exists>e. r = Inl e \<and> m w = (Inl (Fails e), w'))"
  by (auto simp: resultI_def split: prod.splits sum.splits failure.splits)

lemma finallyI_Inr [io_simps]: "finallyI m c w = (Inr x, w') \<longleftrightarrow> (\<exists>w1. m w = (Inr x, w1) \<and> w' = c w1)"
  by (auto simp: finallyI_def split: prod.splits)

lemma on_failI_Inr [io_simps]: "on_failI m c w = (Inr x, w') \<longleftrightarrow> m w = (Inr x, w')"
  by (auto simp: on_failI_def split: prod.splits sum.splits)

lemma indexI_Inr [io_simps]: "indexI xs i w = (Inr x, w') \<longleftrightarrow> i < length xs \<and> x = xs ! i \<and> w' = w"
  by (auto simp: indexI_def)

lemma presentI_Inr [io_simps]: "presentI v w = (Inr x, w') \<longleftrightarrow> v = Some x \<and> w' = w"
  by (auto simp: presentI_def split: option.split)

lemma if_fail_Inr [io_simps]: "(if b then failI e else m) w = (Inr x, w') \<longleftrightarrow> \<not> b \<and> m w = (Inr x, w')"
  by simp

section \<open>Computations that keep a view of the world\<close>

definition keeps :: "('w \<Rightarrow> 'v) \<Rightarrow> ('w, 'a) io \<Rightarrow> bool" where
  "keeps view m \<longleftrightarrow> (\<forall>w. view (snd (m w)) = view w)"

named_theorems keeps_rules \<open>computations that keep a view\<close>

lemma keeps_return [keeps_rules]: "keeps view (returnI x)" "keeps view (failI e)" "keeps view panicI"
    "keeps view divergeI" "keeps view (pureI r)" "keeps view (Pair x')"
  by (simp_all add: keeps_def)

lemma keeps_bind [keeps_rules]: "keeps view m \<Longrightarrow> (\<And>x. keeps view (f x)) \<Longrightarrow> keeps view (bindI m f)"
  unfolding keeps_def bindI_def by (auto split: prod.splits sum.splits) (metis snd_conv)+

lemma keeps_result [keeps_rules]: "keeps view m \<Longrightarrow> keeps view (resultI m)"
  unfolding keeps_def resultI_def
  by (auto split: prod.splits sum.splits failure.splits) (metis snd_conv)+

lemma keeps_fold [keeps_rules]: "(\<And>x s. keeps view (f x s)) \<Longrightarrow> keeps view (foldI f xs s)"
  by (induction xs arbitrary: s) (auto intro: keeps_rules)

lemma keeps_each [keeps_rules]: "(\<And>x. keeps view (f x)) \<Longrightarrow> keeps view (eachI f xs)"
  by (simp add: eachI_def keeps_fold)

lemma keeps_index [keeps_rules]: "keeps view (indexI xs i)" "keeps view (presentI v)"
  by (auto simp: indexI_def presentI_def intro: keeps_rules split: option.split)

lemma keeps_if [keeps_rules]: "(b \<Longrightarrow> keeps view m) \<Longrightarrow> (\<not> b \<Longrightarrow> keeps view n) \<Longrightarrow> keeps view (if b then m else n)"
  by simp

lemma keeps_case [keeps_rules]:
  "keeps view m \<Longrightarrow> (\<And>x. keeps view (f x)) \<Longrightarrow> keeps view (case v of None \<Rightarrow> m | Some x \<Rightarrow> f x)"
  "(\<And>e. keeps view (g e)) \<Longrightarrow> (\<And>x. keeps view (f' x)) \<Longrightarrow> keeps view (case r of Inl e \<Rightarrow> g e | Inr x \<Rightarrow> f' x)"
  "(\<And>a b. keeps view (h a b)) \<Longrightarrow> keeps view (case p of (a, b) \<Rightarrow> h a b)"
  by (simp_all split: option.split sum.split prod.split)

lemma keeps_world: "keeps view m \<Longrightarrow> m w = (r, w') \<Longrightarrow> view w' = view w"
  by (metis keeps_def snd_conv)

section \<open>Computations that do not panic and do not run on\<close>

text \<open>\<open>never f m\<close>: no run of \<open>m\<close> ends in the failure \<open>f\<close>. It is used for \<open>Panics\<close> and \<open>Diverges\<close>.\<close>

definition never :: "failure \<Rightarrow> ('w, 'a) io \<Rightarrow> bool" where
  "never f m \<longleftrightarrow> (\<forall>w. fst (m w) \<noteq> Inl f)"

abbreviation safe :: "('w, 'a) io \<Rightarrow> bool" where
  "safe \<equiv> never Panics"

abbreviation total :: "('w, 'a) io \<Rightarrow> bool" where
  "total \<equiv> never Diverges"

definition ensures :: "('w, 'a) io \<Rightarrow> ('a \<Rightarrow> bool) \<Rightarrow> bool" where
  "ensures m Q \<longleftrightarrow> (\<forall>w x w'. m w = (Inr x, w') \<longrightarrow> Q x)"

named_theorems never_rules \<open>computations that never end in a given failure\<close>

fun fault :: "failure \<Rightarrow> bool" where
  "fault (Fails _) = False"
| "fault Panics = True"
| "fault Diverges = True"

lemma never_return [never_rules]:
  "never f (returnI x)" "fault f \<Longrightarrow> never f (failI e)" "f \<noteq> Panics \<Longrightarrow> never f panicI"
  "f \<noteq> Diverges \<Longrightarrow> never f divergeI" "fault f \<Longrightarrow> never f (liftI r)"
  by (auto simp: never_def may_def split: sum.splits)

lemma never_bind: "never f m \<Longrightarrow> ensures m Q \<Longrightarrow> (\<And>x. Q x \<Longrightarrow> never f (g x)) \<Longrightarrow> never f (bindI m g)"
  unfolding never_def ensures_def bindI_def
  by (auto split: prod.splits sum.splits) (metis fst_conv)+

lemma ensures_True [simp]: "ensures m (\<lambda>_. True)"
  by (simp add: ensures_def)

lemma never_seq [never_rules]: "never f m \<Longrightarrow> (\<And>x. never f (g x)) \<Longrightarrow> never f (bindI m g)"
  by (rule never_bind [where Q = "\<lambda>_. True"]) simp_all

lemma never_result [never_rules]: "never f m \<Longrightarrow> never f (resultI m)"
  unfolding never_def resultI_def by (auto split: prod.splits sum.splits failure.splits) (metis fst_conv)+

lemma never_fold [never_rules]: "(\<And>x s. x \<in> set xs \<Longrightarrow> never f (g x s)) \<Longrightarrow> never f (foldI g xs s)"
  by (induction xs arbitrary: s) (auto intro!: never_rules)

lemma never_each [never_rules]: "(\<And>x. x \<in> set xs \<Longrightarrow> never f (g x)) \<Longrightarrow> never f (eachI g xs)"
  by (simp add: eachI_def never_fold)

lemma never_finally [never_rules]: "never f m \<Longrightarrow> never f (finallyI m c)" "never f m \<Longrightarrow> never f (on_failI m c)"
  unfolding never_def finallyI_def on_failI_def
  by (auto split: prod.splits sum.splits) (metis fst_conv)+

lemma never_index [never_rules]:
  "i < length xs \<or> f \<noteq> Panics \<Longrightarrow> never f (indexI xs i)" "v \<noteq> None \<or> f \<noteq> Panics \<Longrightarrow> never f (presentI v)"
  by (auto simp: indexI_def presentI_def intro: never_rules split: option.split)

lemma never_if [never_rules]: "(b \<Longrightarrow> never f m) \<Longrightarrow> (\<not> b \<Longrightarrow> never f n) \<Longrightarrow> never f (if b then m else n)"
  by simp

lemma never_case [never_rules]:
  "(v = None \<Longrightarrow> never f m) \<Longrightarrow> (\<And>x. v = Some x \<Longrightarrow> never f (g x)) \<Longrightarrow> never f (case v of None \<Rightarrow> m | Some x \<Rightarrow> g x)"
  "(\<And>e. r = Inl e \<Longrightarrow> never f (h e)) \<Longrightarrow> (\<And>x. r = Inr x \<Longrightarrow> never f (g' x)) \<Longrightarrow> never f (case r of Inl e \<Rightarrow> h e | Inr x \<Rightarrow> g' x)"
  "(\<And>a b. p = (a, b) \<Longrightarrow> never f (k a b)) \<Longrightarrow> never f (case p of (a, b) \<Rightarrow> k a b)"
  by (simp_all split: option.split sum.split prod.split)

lemma may_fault [simp]: "fault f \<Longrightarrow> may r \<noteq> Inl f"
  by (cases r) auto

lemma never_pure [never_rules]: "r \<noteq> Inl f \<Longrightarrow> never f (pureI r)"
  by (simp add: never_def)

lemma never_fold_inv:
  assumes "P [] s"
    and "\<And>ys x zs u. xs = ys @ x # zs \<Longrightarrow> P ys u \<Longrightarrow> never f (g x u) \<and> ensures (g x u) (P (ys @ [x]))"
  shows "never f (foldI g xs s)"
proof -
  have "never f (foldI g zs u)" if "xs = ys @ zs" "P ys u" for ys zs u
    using that
  proof (induction zs arbitrary: ys u)
    case (Cons z zs)
    from assms(2) [OF Cons.prems] have z: "never f (g z u)" "ensures (g z u) (P (ys @ [z]))" by simp_all
    show ?case by (simp, rule never_bind [OF z], rule Cons.IH) (use Cons.prems(1) in auto)
  qed (simp add: never_rules)
  from this [of "[]" xs s] assms(1) show ?thesis by simp
qed

lemma neverD: "never f m \<Longrightarrow> m w = (r, w') \<Longrightarrow> r \<noteq> Inl f"
  by (metis fst_conv never_def)

lemma keeps_bind_ensures:
  "keeps view m \<Longrightarrow> ensures m Q \<Longrightarrow> (\<And>x. Q x \<Longrightarrow> keeps view (f x)) \<Longrightarrow> keeps view (bindI m f)"
  unfolding keeps_def ensures_def bindI_def
  by (auto split: prod.splits sum.splits) (metis snd_conv)+

lemma ensuresD: "ensures m Q \<Longrightarrow> m w = (Inr x, w') \<Longrightarrow> Q x"
  by (auto simp: ensures_def)

text \<open>An invariant of a loop that succeeds, with the part of the list already done.\<close>

lemma foldI_world:
  assumes "foldI f xs s w = (Inr t, w')" "P [] s w"
    and step: "\<And>ys x zs u v w1 w2. xs = ys @ x # zs \<Longrightarrow> P ys u w1 \<Longrightarrow> f x u w1 = (Inr v, w2) \<Longrightarrow> P (ys @ [x]) v w2"
  shows "P xs t w'"
proof -
  have "P (ys @ zs) t w'" if "foldI f zs u w = (Inr t, w')" "P ys u w" "xs = ys @ zs" for ys zs u w
    using that
  proof (induction zs arbitrary: ys u w)
    case (Cons z zs)
    then obtain v w1 where v: "f z u w = (Inr v, w1)" "foldI f zs v w1 = (Inr t, w')"
      by (auto simp: bindI_Inr)
    from Cons.IH [OF v(2) step [OF Cons.prems(3,2) v(1)]] Cons.prems(3) show ?case by simp
  qed simp
  from this [of xs s w "[]"] assms(1,2) show ?thesis by simp
qed

lemma foldI_invariant:
  assumes "foldI f xs s w = (Inr t, w')" "P [] s"
    and "\<And>ys x zs u v w1 w2. xs = ys @ x # zs \<Longrightarrow> P ys u \<Longrightarrow> f x u w1 = (Inr v, w2) \<Longrightarrow> P (ys @ [x]) v"
  shows "P xs t"
  using assms(1,2) by (rule foldI_world [where P = "\<lambda>ys s _. P ys s"]) (rule assms(3))

lemma eachI_world:
  assumes "eachI f xs w = (Inr u, w')" "P [] w"
    and "\<And>ys x zs w1 w2. xs = ys @ x # zs \<Longrightarrow> P ys w1 \<Longrightarrow> f x w1 = (Inr (), w2) \<Longrightarrow> P (ys @ [x]) w2"
  shows "P xs w'"
  using assms(1) unfolding eachI_def
  by (rule foldI_world [where P = "\<lambda>ys _ w. P ys w"]) (use assms(2,3) in auto)

section \<open>Computations that move the world along a relation\<close>

text \<open>\<open>steps R m\<close>: every run of \<open>m\<close>, successful or not, leads along \<open>R\<close>, any number of times.\<close>

definition steps :: "('w \<Rightarrow> 'w \<Rightarrow> bool) \<Rightarrow> ('w, 'a) io \<Rightarrow> bool" where
  "steps R m \<longleftrightarrow> (\<forall>w. R\<^sup>*\<^sup>* w (snd (m w)))"

named_theorems steps_rules \<open>computations that move along a relation\<close>

lemma steps_return [steps_rules]: "steps R (returnI x)" "steps R (failI e)" "steps R panicI"
    "steps R divergeI" "steps R (pureI r)"
  by (simp_all add: steps_def)

lemma steps_bind [steps_rules]: "steps R m \<Longrightarrow> (\<And>x. steps R (f x)) \<Longrightarrow> steps R (bindI m f)"
  unfolding steps_def bindI_def
  by (auto split: prod.split sum.split) (metis snd_conv rtranclp_trans)+

lemma steps_result [steps_rules]: "steps R m \<Longrightarrow> steps R (resultI m)"
  unfolding steps_def resultI_def
  by (auto split: prod.split sum.split failure.split) (metis snd_conv)+

lemma steps_fold [steps_rules]: "(\<And>x s. steps R (f x s)) \<Longrightarrow> steps R (foldI f xs s)"
  by (induction xs arbitrary: s) (auto intro: steps_rules)

lemma steps_each [steps_rules]: "(\<And>x. steps R (f x)) \<Longrightarrow> steps R (eachI f xs)"
  by (simp add: eachI_def steps_fold)

lemma steps_index [steps_rules]: "steps R (indexI xs i)" "steps R (presentI v)"
  by (auto simp: indexI_def presentI_def intro: steps_rules split: option.split)

lemma steps_if [steps_rules]: "(b \<Longrightarrow> steps R m) \<Longrightarrow> (\<not> b \<Longrightarrow> steps R n) \<Longrightarrow> steps R (if b then m else n)"
  by simp

lemma steps_case [steps_rules]:
  "steps R m \<Longrightarrow> (\<And>x. steps R (f x)) \<Longrightarrow> steps R (case v of None \<Rightarrow> m | Some x \<Rightarrow> f x)"
  "(\<And>e. steps R (g e)) \<Longrightarrow> (\<And>x. steps R (f' x)) \<Longrightarrow> steps R (case r of Inl e \<Rightarrow> g e | Inr x \<Rightarrow> f' x)"
  "(\<And>a b. steps R (h a b)) \<Longrightarrow> steps R (case p of (a, b) \<Rightarrow> h a b)"
  by (simp_all split: option.split sum.split prod.split)

lemma stepsD:
  assumes "steps R m" "m w = (x, w')" "reflp R" "transp R"
  shows "R w w'"
proof -
  from assms(1,2) have "R\<^sup>*\<^sup>* w w'" unfolding steps_def by (metis snd_conv)
  then show ?thesis
    by (induction rule: rtranclp_induct) (use assms(3,4) in \<open>auto simp: reflp_def dest: transpD\<close>)
qed

end
