(* ===== verification/Paths.thy ===== *)
theory Paths
  imports Failure "HOL-Library.Sublist"
begin

text \<open>
  Relative paths: \<open>fs::validate\<close>, the joining of a root's prefix with a path (\<open>Root::full\<close>,
  \<open>Root::subtree\<close>, \<open>src/fs.rs\<close>), the ancestor test \<open>below\<close> (\<open>src/sync.rs\<close>) and the
  command line's \<open>remote\<close> (\<open>src/main.rs\<close>). A valid path is determined by its components, and
  \<open>below\<close> is the prefix order on components.
\<close>

section \<open>Validation\<close>

definition MAX_PATH :: nat where
  "MAX_PATH = 4096"

abbreviation slash :: byte where
  "slash \<equiv> 47"

abbreviation components :: "str \<Rightarrow> str list" where
  "components \<equiv> split_on slash"

definition dot :: str where "dot = ascii ''.''"
definition dotdot :: str where "dotdot = ascii ''..''"
definition reserved_prefix :: str where "reserved_prefix = ascii ''.rrsync-''"

definition bad_component :: "str \<Rightarrow> bool" where
  "bad_component c \<longleftrightarrow> c = [] \<or> c = dot \<or> c = dotdot \<or> 255 < length c"

definition validate :: "str \<Rightarrow> unit res" where
  "validate path =
     (if path = [] \<or> MAX_PATH < length path \<or> 0 \<in> set path
         \<or> 128 < length (components path) \<or> list_ex bad_component (components path)
      then Inl (InvalidPath path) else Inr ())"

definition valid_path :: "str \<Rightarrow> bool" where
  "valid_path path \<longleftrightarrow> validate path = Inr ()"

lemma valid_path_iff:
  "valid_path p \<longleftrightarrow>
     p \<noteq> [] \<and> length p \<le> MAX_PATH \<and> 0 \<notin> set p \<and> length (components p) \<le> 128
     \<and> (\<forall>c \<in> set (components p). \<not> bad_component c)"
  by (auto simp: valid_path_def validate_def list_ex_iff)

lemma validate_eq: "validate p = (if valid_path p then Inr () else Inl (InvalidPath p))"
  by (simp add: valid_path_def validate_def)

text \<open>No valid path names a parent directory, an absolute location or an empty component.\<close>

lemma valid_path_no_escape:
  assumes "valid_path p"
  shows "dotdot \<notin> set (components p)" "dot \<notin> set (components p)" "[] \<notin> set (components p)"
    "hd p \<noteq> slash" "last p \<noteq> slash"
proof -
  from assms have ne: "p \<noteq> []" and ok: "\<And>c. c \<in> set (components p) \<Longrightarrow> \<not> bad_component c"
    by (auto simp: valid_path_iff)
  show "dotdot \<notin> set (components p)" "dot \<notin> set (components p)" "[] \<notin> set (components p)"
    using ok by (auto simp: bad_component_def)
  then show "hd p \<noteq> slash"
    using ne by (cases p) auto
  show "last p \<noteq> slash"
  proof
    assume "last p = slash"
    with ne have "p = butlast p @ slash # []" by (metis append_butlast_last_id)
    then have "components p = components (butlast p) @ [[]]"
      by (metis split_on.simps(1) split_on_append_sep)
    with \<open>[] \<notin> set (components p)\<close> show False by simp
  qed
qed

section \<open>The ancestor test\<close>

definition below :: "str \<Rightarrow> str \<Rightarrow> bool" where
  "below path ancestor \<longleftrightarrow>
     path = ancestor
     \<or> (case strip_prefix ancestor path of
          None \<Rightarrow> False
        | Some rest \<Rightarrow> starts_with [slash] rest)"

lemma below_iff: "below p a \<longleftrightarrow> p = a \<or> (\<exists>r. p = a @ slash # r)"
proof -
  have "(case strip_prefix a p of None \<Rightarrow> False | Some rest \<Rightarrow> starts_with [slash] rest)
      \<longleftrightarrow> (\<exists>r. strip_prefix a p = Some (slash # r))"
    by (auto simp: starts_with_iff split: option.split)
  then show ?thesis by (auto simp: below_def strip_prefix_Some)
qed

lemma below_refl [simp]: "below p p"
  by (simp add: below_iff)

lemma below_components: "below p a \<longleftrightarrow> prefix (components a) (components p)"
proof
  assume "below p a"
  then show "prefix (components a) (components p)"
    by (auto simp: below_iff split_on_append_sep)
next
  assume "prefix (components a) (components p)"
  then obtain cs where cs: "components p = components a @ cs"
    by (auto simp: prefix_def)
  show "below p a"
  proof (cases "cs = []")
    case True
    with cs show ?thesis by (simp add: split_on_inj)
  next
    case False
    have join: "join_with slash (xs @ cs) = join_with slash xs @ slash # join_with slash cs"
      if "xs \<noteq> []" for xs
      using that
    proof (induction xs)
      case (Cons x xs)
      then show ?case
        using False by (cases "xs = []") (auto simp: join_with_Cons)
    qed simp
    have "p = join_with slash (components p)" by simp
    also have "\<dots> = a @ slash # join_with slash cs"
      unfolding cs using join [of "components a"] by simp
    finally show ?thesis by (auto simp: below_iff)
  qed
qed

lemma below_trans: "below p q \<Longrightarrow> below q r \<Longrightarrow> below p r"
  by (auto simp: below_components)

lemma below_antisym: "below p q \<Longrightarrow> below q p \<Longrightarrow> p = q"
  by (auto simp: below_components split_on_inj dest: prefix_order.antisym)

text \<open>Two ancestors of one path are comparable.\<close>

lemma below_linear: "below p a \<Longrightarrow> below p b \<Longrightarrow> below a b \<or> below b a"
  unfolding below_components by (rule prefix_same_cases)

text \<open>A path sorts after its proper ancestors.\<close>

lemma below_less_eq: "below p a \<Longrightarrow> a \<le> p"
proof -
  have "a \<le> a @ r" for r :: str
    by (induction a) (cases r; simp add: list_le_def)+
  moreover assume "below p a"
  ultimately show ?thesis by (auto simp: below_iff)
qed

lemma below_less: "below p a \<Longrightarrow> p \<noteq> a \<Longrightarrow> a < p"
  using below_less_eq [of p a] by simp

section \<open>Parents\<close>

text \<open>\<open>path.rsplit_once('/')\<close> as the sources use it to find the parent directory.\<close>

lemma rsplit_once_below: "rsplit_once slash p = Some (a, b) \<Longrightarrow> below p a"
  by (auto simp: rsplit_once_Some below_iff)

lemma components_rsplit:
  "rsplit_once slash p = Some (a, b) \<Longrightarrow> components p = components a @ [b]"
  by (auto simp: rsplit_once_Some split_on_append_sep split_on_free)

lemma length_components_rsplit:
  "rsplit_once slash p = Some (a, b) \<Longrightarrow> length (components p) = Suc (length (components a))"
  by (simp add: components_rsplit)

section \<open>Roots\<close>

text \<open>
  \<open>Root { fd, prefix }\<close>: a directory's file descriptor, shared by every clone, and a prefix below
  it. \<open>full\<close> is the name handed to \<open>openat2(fd, .., RESOLVE_BENEATH | RESOLVE_NO_SYMLINKS)\<close>. An open
  file is the number of its open file description; a number is not used again after the file is closed.
\<close>

type_synonym fd = nat

record root =
  root_fd :: fd
  root_prefix :: str

definition full :: "root \<Rightarrow> str \<Rightarrow> str res" where
  "full r path =
     bindR (if path \<noteq> [] then validate path else Inr ())
       (\<lambda>_. let p = (if root_prefix r = [] then path
                    else if path = [] then root_prefix r
                    else root_prefix r @ slash # path)
            in if MAX_PATH < length p then Inl (InvalidPath p) else Inr p)"

definition subtree :: "root \<Rightarrow> str \<Rightarrow> root res" where
  "subtree r relative =
     bindR (if relative \<noteq> [] then validate relative else Inr ())
       (\<lambda>_. bindR (full r relative) (\<lambda>p. Inr \<lparr>root_fd = root_fd r, root_prefix = p\<rparr>))"

text \<open>A component-wise safe name: empty (the root directory itself) or free of \<open>.\<close>, \<open>..\<close> and empty parts.\<close>

definition safe_name :: "str \<Rightarrow> bool" where
  "safe_name p \<longleftrightarrow> p = [] \<or> (0 \<notin> set p \<and> (\<forall>c \<in> set (components p). \<not> bad_component c))"

lemma valid_path_safe: "valid_path p \<Longrightarrow> safe_name p"
  by (simp add: valid_path_iff safe_name_def)

lemma safe_name_join: "safe_name a \<Longrightarrow> safe_name b \<Longrightarrow> a \<noteq> [] \<Longrightarrow> b \<noteq> [] \<Longrightarrow> safe_name (a @ slash # b)"
  by (auto simp: safe_name_def split_on_append_sep)

lemma full_Inr:
  "full r p = Inr q \<Longrightarrow>
     (p = [] \<or> valid_path p)
     \<and> q = (if root_prefix r = [] then p else if p = [] then root_prefix r else root_prefix r @ slash # p)
     \<and> length q \<le> MAX_PATH"
  by (auto simp: full_def result_simps validate_eq Let_def not_less split: if_splits)

lemma full_safe: "safe_name (root_prefix r) \<Longrightarrow> full r p = Inr q \<Longrightarrow> safe_name q"
  using valid_path_safe [of p] safe_name_join [of "root_prefix r" p]
  by (auto dest!: full_Inr split: if_splits)

lemma subtree_Inr: "subtree r p = Inr s \<longleftrightarrow> (\<exists>q. full r p = Inr q \<and> s = \<lparr>root_fd = root_fd r, root_prefix = q\<rparr>)"
  by (auto simp: subtree_def result_simps full_def split: if_splits)

section \<open>The remote argument of the command line\<close>

text \<open>
  \<open>remote\<close> (\<open>src/main.rs\<close>) splits \<open>destination:path\<close>; the parser of the 32 hexadecimal digits
  is \<open>config::address\<close>, here a parameter until the access rules define it.
\<close>

abbreviation colon :: byte where
  "colon \<equiv> 58"

definition remote :: "(str \<Rightarrow> ident res) \<Rightarrow> str \<Rightarrow> (ident \<times> str) res" where
  "remote address s =
     (case split_once colon s of
        None \<Rightarrow> Inl (Config (ascii ''remote must be <destination>:<path>''))
      | Some (i, path0) \<Rightarrow>
          (let path = (case strip_prefix [slash] path0 of Some rest \<Rightarrow> rest | None \<Rightarrow> path0)
           in bindR (if path \<noteq> [] then validate path else Inr ())
                (\<lambda>_. bindR (address i) (\<lambda>h. Inr (h, path)))))"

section \<open>Properties\<close>

text \<open>C37: Names never leave the root. From a root whose prefix is safe, every name that \<open>full\<close> hands
  to the system has only components that are not empty, not \<open>.\<close> and not \<open>..\<close>, lies below the prefix and
  is at most 4096 bytes long; a subtree of such a root is such a root again.\<close>

theorem names_confined:
  assumes "safe_name (root_prefix r)" "full r path = Inr name"
  shows "safe_name name \<and> (root_prefix r = [] \<or> below name (root_prefix r)) \<and> length name \<le> 4096
    \<and> subtree r path = Inr \<lparr>root_fd = root_fd r, root_prefix = name\<rparr>"
  using assms full_safe [OF assms] full_Inr [OF assms(2)]
  by (auto simp: below_iff MAX_PATH_def subtree_Inr split: if_splits)

lemma names_confined_witness:
  "safe_name (ascii ''data/a.txt'')
   \<and> subtree \<lparr>root_fd = 3, root_prefix = ascii ''data''\<rparr> (ascii ''a.txt'') = Inr \<lparr>root_fd = 3, root_prefix = ascii ''data/a.txt''\<rparr>"
proof -
  have 1: "safe_name (root_prefix \<lparr>root_fd = 3, root_prefix = ascii ''data''\<rparr>)"
    by (simp add: safe_name_def bad_component_def ascii_def dot_def dotdot_def)
  have 2: "full \<lparr>root_fd = 3, root_prefix = ascii ''data''\<rparr> (ascii ''a.txt'') = Inr (ascii ''data/a.txt'')"
    by (simp add: full_def validate_def bad_component_def ascii_def dot_def dotdot_def MAX_PATH_def Let_def)
  from names_confined [OF 1 2] show ?thesis by simp
qed

end
