(* ===== verification/Os.thy ===== *)
theory Os
  imports Io Paths
begin

text \<open>
  The system calls the crate makes, through \<open>rustix\<close>, \<open>std::fs\<close> and \<open>tempfile\<close>. They are code this
  development cannot read, so they are the fields of a record that every operation takes as its
  argument: each is a function of its arguments and of the world, with an I/O error or a value and
  the world after the call. Nothing is assumed about them here; what a theorem needs of them is
  among its hypotheses. Reading the clock and opening a descriptor are calls like the others, so
  worlds may differ in anything a call can observe.
\<close>

datatype file_type = Regular | Dir | Special

record metadata =
  m_type :: file_type
  m_dev :: u64
  m_ino :: u64
  m_len :: u64
  m_mtime :: i64
  m_mtime_ns :: i64
  m_ctime :: i64
  m_ctime_ns :: i64
  m_nlink :: u64

text \<open>The flags of \<open>openat2\<close>: \<open>RDONLY | NONBLOCK\<close>, \<open>RDONLY | DIRECTORY\<close>, \<open>PATH\<close>, and
  \<open>RDWR | CREATE | NONBLOCK\<close>, each with \<open>CLOEXEC | NOFOLLOW\<close> and resolution \<open>BENEATH | NO_SYMLINKS\<close>.\<close>

datatype open_mode = Open_file | Open_dir | Open_path | Open_lock

type_synonym 'a sys = "io_kind + 'a"

text \<open>
  \<open>os_reads\<close> bounds the reads of one pass over a file that has no other bound (\<open>hash_file\<close>);
  a pass that needs more is \<open>Diverges\<close>.
\<close>

record 'w os =
  os_openat2 :: "fd \<Rightarrow> str \<Rightarrow> open_mode \<Rightarrow> 'w \<Rightarrow> fd sys \<times> 'w"
  os_openat :: "fd \<Rightarrow> str \<Rightarrow> 'w \<Rightarrow> fd sys \<times> 'w"
  os_metadata :: "fd \<Rightarrow> 'w \<Rightarrow> metadata sys \<times> 'w"
  os_read_dir :: "fd \<Rightarrow> 'w \<Rightarrow> byte list sys list sys \<times> 'w"
  os_mkdirat :: "fd \<Rightarrow> str \<Rightarrow> 'w \<Rightarrow> unit sys \<times> 'w"
  os_unlinkat :: "fd \<Rightarrow> str \<Rightarrow> bool \<Rightarrow> 'w \<Rightarrow> unit sys \<times> 'w"
  os_renameat :: "fd \<Rightarrow> str \<Rightarrow> fd \<Rightarrow> str \<Rightarrow> 'w \<Rightarrow> unit sys \<times> 'w"
  os_sync :: "fd \<Rightarrow> 'w \<Rightarrow> unit sys \<times> 'w"
  os_futimens :: "fd \<Rightarrow> i64 \<Rightarrow> u32 \<Rightarrow> 'w \<Rightarrow> unit sys \<times> 'w"
  os_flock :: "fd \<Rightarrow> bool \<Rightarrow> 'w \<Rightarrow> unit sys \<times> 'w"
  os_read :: "fd \<Rightarrow> nat \<Rightarrow> 'w \<Rightarrow> byte list sys \<times> 'w"
  os_write :: "fd \<Rightarrow> byte list \<Rightarrow> 'w \<Rightarrow> unit sys \<times> 'w"
  os_rewind :: "fd \<Rightarrow> 'w \<Rightarrow> unit sys \<times> 'w"
  os_seek :: "fd \<Rightarrow> u64 \<Rightarrow> 'w \<Rightarrow> unit sys \<times> 'w"
  os_tempfile_in :: "fd \<Rightarrow> str \<Rightarrow> 'w \<Rightarrow> (fd \<times> str) sys \<times> 'w"
  os_tempfile :: "'w \<Rightarrow> fd sys \<times> 'w"
  os_open_root :: "str \<Rightarrow> 'w \<Rightarrow> fd sys \<times> 'w"
  os_create_dirs :: "str \<Rightarrow> 'w \<Rightarrow> unit sys \<times> 'w"
  os_now :: "'w \<Rightarrow> nat \<times> 'w"
  os_clock :: "'w \<Rightarrow> u64 option \<times> 'w"
  os_reads :: nat

definition sysI :: "('w \<Rightarrow> 'a sys \<times> 'w) \<Rightarrow> ('w, 'a) io" where
  "sysI c w = (case c w of (Inl k, w') \<Rightarrow> (Inl (Fails (Io k)), w') | (Inr x, w') \<Rightarrow> (Inr x, w'))"

definition nowI :: "'w os \<Rightarrow> ('w, nat) io" where
  "nowI os w = (case os_now os w of (t, w') \<Rightarrow> (Inr t, w'))"

lemma sysI_Inr [io_simps]: "sysI c w = (Inr x, w') \<longleftrightarrow> c w = (Inr x, w')"
  by (auto simp: sysI_def split: prod.splits sum.splits)

lemma never_sys [never_rules]: "fault f \<Longrightarrow> never f (sysI c)"
  by (auto simp: never_def sysI_def split: prod.splits sum.splits)

lemma never_now [never_rules]: "never f (nowI os)"
  by (auto simp: never_def nowI_def split: prod.splits)

section \<open>Calls that only read\<close>

text \<open>
  A view of the world is what an observer can see of it, for instance the objects of a file system
  with their contents. The calls below open, stat, list and read; they leave every such view as it
  is. A temporary file made by \<open>tempfile\<close> is anonymous, and a call that opens a lock may create it.
\<close>

definition reads_keep :: "'w os \<Rightarrow> ('w \<Rightarrow> 'v) \<Rightarrow> bool" where
  "reads_keep os view \<longleftrightarrow>
     (\<forall>d p m. m \<noteq> Open_lock \<longrightarrow> (\<forall>w. view (snd (os_openat2 os d p m w)) = view w))
     \<and> (\<forall>d p w. view (snd (os_openat os d p w)) = view w)
     \<and> (\<forall>f w. view (snd (os_metadata os f w)) = view w)
     \<and> (\<forall>f w. view (snd (os_read_dir os f w)) = view w)
     \<and> (\<forall>f n w. view (snd (os_read os f n w)) = view w)
     \<and> (\<forall>f w. view (snd (os_rewind os f w)) = view w)
     \<and> (\<forall>f n w. view (snd (os_seek os f n w)) = view w)
     \<and> (\<forall>w. view (snd (os_now os w)) = view w)"

text \<open>Anonymous files: making one and writing to one that was made is not visible either.\<close>

definition anonymous_keep :: "'w os \<Rightarrow> ('w \<Rightarrow> 'v) \<Rightarrow> bool" where
  "anonymous_keep os view \<longleftrightarrow>
     (\<forall>w. view (snd (os_tempfile os w)) = view w)
     \<and> (\<forall>w f w'. os_tempfile os w = (Inr f, w') \<longrightarrow>
          (\<forall>b v. view (snd (os_write os f b v)) = view v))"

lemma keeps_sys: "(\<And>w. view (snd (c w)) = view w) \<Longrightarrow> keeps view (sysI c)"
  unfolding keeps_def sysI_def by (auto split: prod.splits sum.splits) (metis snd_conv)+

lemma keeps_reads:
  assumes "reads_keep os view"
  shows "m \<noteq> Open_lock \<Longrightarrow> keeps view (sysI (os_openat2 os d p m))"
    "keeps view (sysI (os_openat os d p))" "keeps view (sysI (os_metadata os f))"
    "keeps view (sysI (os_read_dir os f))" "keeps view (sysI (os_read os f n))"
    "keeps view (sysI (os_rewind os f))" "keeps view (nowI os)" "keeps view (sysI (os_seek os f k))"
proof -
  note r = assms [unfolded reads_keep_def]
  show "m \<noteq> Open_lock \<Longrightarrow> keeps view (sysI (os_openat2 os d p m))" using r by (intro keeps_sys) blast
  show "keeps view (sysI (os_openat os d p))" using r by (intro keeps_sys) blast
  show "keeps view (sysI (os_metadata os f))" using r by (intro keeps_sys) blast
  show "keeps view (sysI (os_read_dir os f))" using r by (intro keeps_sys) blast
  show "keeps view (sysI (os_read os f n))" using r by (intro keeps_sys) blast
  show "keeps view (sysI (os_rewind os f))" using r by (intro keeps_sys) blast
  show "keeps view (sysI (os_seek os f k))" using r by (intro keeps_sys) blast
  have "snd (nowI os w) = snd (os_now os w)" for w by (simp add: nowI_def split: prod.split)
  then show "keeps view (nowI os)" using r by (simp add: keeps_def)
qed

section \<open>A system for examples\<close>

text \<open>
  A file system without objects, on which directories can be opened and every change succeeds. The
  world is the list of the names that were created, removed or replaced, and the content that is still
  to be read from a received file.
\<close>

definition blank_os :: "(str list \<times> byte list) os" where
  "blank_os =
     \<lparr>os_openat2 = (\<lambda>_ _ m w. (if m = Open_path then Inl NotFound else Inr 1, w)),
      os_openat = (\<lambda>_ _ w. (Inl NotFound, w)),
      os_metadata = (\<lambda>_ w. (Inl NotFound, w)),
      os_read_dir = (\<lambda>_ w. (Inr [], w)),
      os_mkdirat = (\<lambda>_ n w. (Inr (), fst w @ [n], snd w)),
      os_unlinkat = (\<lambda>_ n _ w. (Inr (), fst w @ [n], snd w)),
      os_renameat = (\<lambda>_ _ _ n w. (Inr (), fst w @ [n], snd w)),
      os_sync = (\<lambda>_ w. (Inr (), w)),
      os_futimens = (\<lambda>_ _ _ w. (Inr (), w)),
      os_flock = (\<lambda>_ _ w. (Inr (), w)),
      os_read = (\<lambda>_ n w. (Inr (take n (snd w)), fst w, drop n (snd w))),
      os_write = (\<lambda>_ _ w. (Inr (), w)),
      os_rewind = (\<lambda>_ w. (Inr (), w)),
      os_seek = (\<lambda>_ _ w. (Inr (), w)),
      os_tempfile_in = (\<lambda>_ p w. (Inr (2, p @ ascii ''x''), w)),
      os_tempfile = (\<lambda>w. (Inr 3, w)),
      os_open_root = (\<lambda>_ w. (Inr 0, w)),
      os_create_dirs = (\<lambda>_ w. (Inr (), w)),
      os_now = (\<lambda>w. (5, w)),
      os_clock = (\<lambda>w. (Some 5, w)),
      os_reads = 10\<rparr>"

lemma blank_keeps: "reads_keep blank_os fst" "anonymous_keep blank_os fst"
  by (simp_all add: reads_keep_def anonymous_keep_def blank_os_def)

end
