(* ===== verification/Ordered_Map.thy ===== *)
theory Ordered_Map
  imports Prelude
begin

text \<open>
  \<open>std::collections::BTreeMap\<close> as the sources use it: \<open>insert\<close>, \<open>get\<close>, \<open>last_key_value\<close>,
  ordered iteration and \<open>collect\<close>. The locale is the interface the clients rely on; the
  implementation is an association list in ascending key order, which is what iteration yields.
\<close>

locale ordered_map =
  fixes empty :: "'m"
    and insert :: "'k::linorder \<Rightarrow> 'v \<Rightarrow> 'm \<Rightarrow> 'm"
    and get :: "'m \<Rightarrow> 'k \<Rightarrow> 'v option"
    and items :: "'m \<Rightarrow> ('k \<times> 'v) list"
    and inv :: "'m \<Rightarrow> bool"
  assumes inv_empty: "inv empty"
    and inv_insert: "inv m \<Longrightarrow> inv (insert k v m)"
    and get_empty: "get empty = (\<lambda>_. None)"
    and get_insert: "inv m \<Longrightarrow> get (insert k v m) = (get m)(k \<mapsto> v)"
    and items_sorted: "inv m \<Longrightarrow> sorted_wrt (<) (map fst (items m))"
    and items_get: "inv m \<Longrightarrow> map_of (items m) = get m"
begin

definition collect :: "('k \<times> 'v) list \<Rightarrow> 'm" where
  "collect kvs = fold (\<lambda>(k, v). insert k v) kvs empty"

lemma inv_fold: "inv m \<Longrightarrow> inv (fold (\<lambda>(k, v). insert k v) kvs m)"
  by (induction kvs arbitrary: m) (auto simp: inv_insert)

lemma get_fold: "inv m \<Longrightarrow> get (fold (\<lambda>(k, v). insert k v) kvs m) = get m ++ map_of (rev kvs)"
proof (induction kvs arbitrary: m)
  case (Cons kv kvs)
  obtain k v where kv: "kv = (k, v)" by (cases kv)
  have "get (fold (\<lambda>(k, v). insert k v) (kv # kvs) m)
      = (get m)(k \<mapsto> v) ++ map_of (rev kvs)"
    using Cons kv by (simp add: inv_insert get_insert fun_upd_def)
  also have "\<dots> = get m ++ map_of (rev (kv # kvs))"
    by (simp add: kv)
  finally show ?case .
qed simp

lemma inv_collect: "inv (collect kvs)"
  by (simp add: collect_def inv_fold inv_empty)

lemma get_collect: "get (collect kvs) = map_of (rev kvs)"
  by (simp add: collect_def get_fold inv_empty get_empty)

lemma get_collect_distinct: "distinct (map fst kvs) \<Longrightarrow> get (collect kvs) = map_of kvs"
proof -
  assume d: "distinct (map fst kvs)"
  then have "distinct (map fst (rev kvs))" by (simp flip: rev_map)
  from map_of_eq_Some_iff [OF this] map_of_eq_Some_iff [OF d]
  have "map_of (rev kvs) k = map_of kvs k" for k
    by (metis not_Some_eq set_rev)
  then show ?thesis by (auto simp: get_collect)
qed

lemma items_collect_dom: "set (map fst (items (collect kvs))) = set (map fst kvs)"
proof -
  have "dom (map_of (items (collect kvs))) = dom (map_of (rev kvs))"
    by (simp add: items_get inv_collect get_collect)
  then show ?thesis by (simp add: dom_map_of_conv_image_fst)
qed

end

section \<open>The implementation\<close>

type_synonym ('k, 'v) btree = "('k \<times> 'v) list"

fun bt_insert :: "'k::linorder \<Rightarrow> 'v \<Rightarrow> ('k, 'v) btree \<Rightarrow> ('k, 'v) btree" where
  "bt_insert k v [] = [(k, v)]"
| "bt_insert k v ((k', v') # m) =
     (if k < k' then (k, v) # (k', v') # m
      else if k = k' then (k, v) # m
      else (k', v') # bt_insert k v m)"

definition bt_get :: "('k, 'v) btree \<Rightarrow> 'k \<Rightarrow> 'v option" where
  "bt_get m = map_of m"

definition bt_last :: "('k, 'v) btree \<Rightarrow> ('k \<times> 'v) option" where
  "bt_last m = (if m = [] then None else Some (last m))"

definition bt_inv :: "('k::linorder, 'v) btree \<Rightarrow> bool" where
  "bt_inv m \<longleftrightarrow> sorted_wrt (<) (map fst m)"

definition bt_collect :: "('k::linorder \<times> 'v) list \<Rightarrow> ('k, 'v) btree" where
  "bt_collect kvs = fold (\<lambda>(k, v). bt_insert k v) kvs []"

lemma set_bt_insert: "set (map fst (bt_insert k v m)) = Set.insert k (set (map fst m))"
  by (induction k v m rule: bt_insert.induct) auto

lemma bt_inv_insert: "bt_inv m \<Longrightarrow> bt_inv (bt_insert k v m)"
proof (induction k v m rule: bt_insert.induct)
  case (2 k v k' v' m)
  then have "bt_inv m" by (simp add: bt_inv_def)
  with 2 set_bt_insert [of k v m] show ?case
    by (auto simp: bt_inv_def)
qed (simp add: bt_inv_def)

lemma map_of_bt_insert: "bt_inv m \<Longrightarrow> map_of (bt_insert k v m) = (map_of m)(k \<mapsto> v)"
proof (induction k v m rule: bt_insert.induct)
  case (2 k v k' v' m)
  then have "bt_inv m" by (simp add: bt_inv_def)
  with 2 show ?case by auto
qed simp

interpretation bt: ordered_map "[]" bt_insert bt_get "\<lambda>m. m" bt_inv
  by unfold_locales
    (simp_all add: bt_inv_insert bt_get_def map_of_bt_insert, simp_all add: bt_inv_def)

lemma bt_collect_eq: "bt_collect kvs = bt.collect kvs"
  by (simp add: bt_collect_def bt.collect_def)

lemmas bt_get_collect = bt.get_collect_distinct [folded bt_collect_eq]

text \<open>Appending a key above all others: the case of a manifest read in order.\<close>

lemma bt_insert_snoc: "(\<And>k'. k' \<in> set (map fst m) \<Longrightarrow> k' < k) \<Longrightarrow> bt_insert k v m = m @ [(k, v)]"
  by (induction k v m rule: bt_insert.induct) (auto dest: less_imp_not_less)

lemma bt_last_snoc [simp]: "bt_last (m @ [kv]) = Some kv"
  by (simp add: bt_last_def)

lemma bt_last_greatest: "bt_inv m \<Longrightarrow> bt_last m = Some (k, v) \<Longrightarrow> k' \<in> set (map fst m) \<Longrightarrow> k' \<le> k"
proof (induction m rule: rev_induct)
  case (snoc kv m)
  then show ?case
    by (auto simp: bt_inv_def sorted_wrt_append bt_last_def)
qed simp

text \<open>A collection in ascending order of its keys is the list itself.\<close>

lemma bt_collect_sorted: "sorted_wrt (<) (map fst kvs) \<Longrightarrow> bt_collect kvs = kvs"
proof (induction kvs rule: rev_induct)
  case Nil
  then show ?case by (simp add: bt_collect_def)
next
  case (snoc kv kvs)
  obtain k v where kv: "kv = (k, v)" by (cases kv)
  from snoc have "bt_collect kvs = kvs" and "\<And>k'. k' \<in> set (map fst kvs) \<Longrightarrow> k' < k"
    by (auto simp: sorted_wrt_append kv)
  then show ?case
    using bt_insert_snoc [of kvs k v] by (simp add: bt_collect_def kv)
qed

end
