(* ===== verification/Manifests.thy ===== *)
theory Manifests
  imports Paths Ordered_Map
begin

text \<open>
  The data of a synchronization (\<open>src/sync.rs\<close>): entries, manifests, options, and
  \<open>Manifest::validate\<close>, which every manifest passes before it is sent, after it is received and
  before a plan is made from it. The predicate \<open>manifest_ok\<close> is the contract validation
  enforces, independent of the loop that checks it.
\<close>

section \<open>Data\<close>

definition MAX_ENTRIES :: nat where
  "MAX_ENTRIES = 16384"

definition MAX_FILE :: u64 where
  "MAX_FILE = 134217727"

datatype kind = File | Directory | Protected

record entry =
  e_path :: str
  e_kind :: kind
  e_size :: u64
  e_mtime :: i64
  e_ns :: u32
  e_hash :: "hash option"

type_synonym manifest = "entry list"

record options =
  delete :: bool
  checksum :: bool
  dry_run :: bool

section \<open>Validation\<close>

definition reserved :: "str \<Rightarrow> bool" where
  "reserved path \<longleftrightarrow> list_ex (starts_with reserved_prefix) (components path)"

definition validate_entry :: "bool \<Rightarrow> entry \<Rightarrow> (str, kind) btree \<Rightarrow> (str, kind) btree res" where
  "validate_entry cks e seen =
     bindR (validate (e_path e)) (\<lambda>_.
       if reserved (e_path e) \<and> e_kind e \<noteq> Protected then Inl (InvalidPath (e_path e))
       else if e_kind e \<noteq> File \<and> (e_size e \<noteq> 0 \<or> e_hash e \<noteq> None) then
         Inl (Protocol (ascii ''invalid non-file metadata''))
       else if 1000000000 \<le> e_ns e
           \<or> (e_kind e = File \<and> (MAX_FILE < e_size e \<or> (cks \<and> e_hash e = None))) then
         Inl (Protocol (ascii ''invalid metadata or file too large: '' @ e_path e))
       else if (case bt_last seen of None \<Rightarrow> False | Some (previous, _) \<Rightarrow> e_path e \<le> previous) then
         Inl (Protocol (ascii ''manifest paths must be sorted and unique''))
       else if (case rsplit_once slash (e_path e) of
                  None \<Rightarrow> False
                | Some (parent, _) \<Rightarrow> bt_get seen parent \<noteq> Some Directory) then
         Inl (Protocol (ascii ''missing or invalid parent directory''))
       else Inr (bt_insert (e_path e) (e_kind e) seen))"

definition validate_manifest :: "bool \<Rightarrow> manifest \<Rightarrow> unit res" where
  "validate_manifest cks es =
     (if MAX_ENTRIES < length es then Inl (Protocol (ascii ''manifest entry limit''))
      else bindR (foldR (validate_entry cks) es []) (\<lambda>_. Inr ()))"

section \<open>The contract\<close>

definition entry_ok :: "bool \<Rightarrow> entry \<Rightarrow> bool" where
  "entry_ok cks e \<longleftrightarrow>
     valid_path (e_path e)
     \<and> (reserved (e_path e) \<longrightarrow> e_kind e = Protected)
     \<and> (e_kind e \<noteq> File \<longrightarrow> e_size e = 0 \<and> e_hash e = None)
     \<and> e_ns e < 1000000000
     \<and> (e_kind e = File \<longrightarrow> e_size e \<le> MAX_FILE \<and> (cks \<longrightarrow> e_hash e \<noteq> None))"

definition parent_in :: "manifest \<Rightarrow> entry \<Rightarrow> bool" where
  "parent_in es e \<longleftrightarrow>
     (\<forall>parent name. rsplit_once slash (e_path e) = Some (parent, name) \<longrightarrow>
        (\<exists>d \<in> set es. e_path d = parent \<and> e_kind d = Directory))"

definition manifest_ok :: "bool \<Rightarrow> manifest \<Rightarrow> bool" where
  "manifest_ok cks es \<longleftrightarrow>
     length es \<le> MAX_ENTRIES
     \<and> (\<forall>e \<in> set es. entry_ok cks e)
     \<and> sorted_wrt (<) (map e_path es)
     \<and> (\<forall>e \<in> set es. parent_in es e)"

text \<open>The state of the loop after the entries \<open>es\<close>: what was seen is the list itself.\<close>

abbreviation seen_of :: "manifest \<Rightarrow> (str, kind) btree" where
  "seen_of es \<equiv> map (\<lambda>e. (e_path e, e_kind e)) es"

lemma sorted_paths_distinct: "sorted_wrt (<) (map e_path es) \<Longrightarrow> distinct (map e_path es)"
  by (simp add: strict_sorted_iff)

lemma seen_get:
  assumes "sorted_wrt (<) (map e_path es)"
  shows "bt_get (seen_of es) p = Some k \<longleftrightarrow> (\<exists>d \<in> set es. e_path d = p \<and> e_kind d = k)"
proof -
  have "distinct (map fst (seen_of es))"
    using sorted_paths_distinct [OF assms] by (simp add: comp_def)
  from map_of_eq_Some_iff [OF this] show ?thesis
    by (auto simp: bt_get_def image_iff)
qed

lemma seen_insert:
  assumes "sorted_wrt (<) (map e_path (es @ [e]))"
  shows "bt_insert (e_path e) (e_kind e) (seen_of es) = seen_of (es @ [e])"
  using assms by (subst bt_insert_snoc) (auto simp: sorted_wrt_append)

lemma seen_last_less:
  assumes "sorted_wrt (<) (map e_path es)"
  shows "(case bt_last (seen_of es) of None \<Rightarrow> False | Some (q, _) \<Rightarrow> p \<le> q)
    \<longleftrightarrow> \<not> (\<forall>d \<in> set es. e_path d < p)"
proof (cases es rule: rev_cases)
  case Nil
  then show ?thesis by (simp add: bt_last_def)
next
  case (snoc ds d)
  then have "e_path x \<le> e_path d" if "x \<in> set es" for x
    using assms that by (auto simp: sorted_wrt_append)
  with snoc show ?thesis by (force simp: not_less)
qed

lemma validate_entry_step:
  assumes "sorted_wrt (<) (map e_path es)"
  shows "validate_entry c e (seen_of es) = Inr s \<longleftrightarrow>
    entry_ok c e \<and> sorted_wrt (<) (map e_path (es @ [e])) \<and> parent_in es e \<and> s = seen_of (es @ [e])"
proof -
  have parent: "(case rsplit_once slash (e_path e) of None \<Rightarrow> False
       | Some (parent, _) \<Rightarrow> bt_get (seen_of es) parent \<noteq> Some Directory) \<longleftrightarrow> \<not> parent_in es e"
    using seen_get [OF assms] by (auto simp: parent_in_def split: option.split prod.split)
  have sorted: "sorted_wrt (<) (map e_path (es @ [e])) \<longleftrightarrow> (\<forall>d \<in> set es. e_path d < e_path e)"
    using assms by (auto simp: sorted_wrt_append)
  show ?thesis
    unfolding validate_entry_def parent seen_last_less [OF assms]
    using seen_insert [of es e] sorted
    by (auto simp: validate_eq entry_ok_def not_less not_le split: if_splits)
qed

text \<open>Parents seen so far and parents anywhere in the list agree, because parents sort first.\<close>

lemma parent_less: "rsplit_once slash p = Some (a, b) \<Longrightarrow> a < p"
  using rsplit_once_below [of p a b] by (intro below_less) (auto simp: rsplit_once_Some)

lemma parent_in_append: "parent_in as e \<Longrightarrow> parent_in (as @ bs) e"
  unfolding parent_in_def by (metis UnCI set_append)

lemma parent_in_restrict:
  assumes "sorted_wrt (<) (map e_path (as @ e # bs))" and "parent_in (as @ e # bs) e"
  shows "parent_in as e"
  unfolding parent_in_def
proof (intro allI impI)
  fix parent name
  assume r: "rsplit_once slash (e_path e) = Some (parent, name)"
  with assms(2) obtain d where d: "d \<in> set (as @ e # bs)" "e_path d = parent" "e_kind d = Directory"
    unfolding parent_in_def by blast
  from parent_less [OF r] d(2) have "e_path d < e_path e" by simp
  with assms(1) d(1) have "d \<in> set as"
    by (auto simp: sorted_wrt_append dest: less_not_sym)
  with d show "\<exists>d \<in> set as. e_path d = parent \<and> e_kind d = Directory" by blast
qed

lemma validate_fold:
  "foldR (validate_entry c) es [] = Inr s \<longleftrightarrow>
     (\<forall>e \<in> set es. entry_ok c e) \<and> sorted_wrt (<) (map e_path es)
     \<and> (\<forall>e \<in> set es. parent_in es e) \<and> s = seen_of es"
proof (induction es arbitrary: s rule: rev_induct)
  case Nil
  then show ?case by auto
next
  case (snoc e es)
  let ?all = "\<lambda>es. (\<forall>e \<in> set es. entry_ok c e) \<and> sorted_wrt (<) (map e_path es)
     \<and> (\<forall>e \<in> set es. parent_in es e)"
  have "foldR (validate_entry c) (es @ [e]) [] = Inr s
      \<longleftrightarrow> ?all es \<and> validate_entry c e (seen_of es) = Inr s"
    by (auto simp: foldR_append result_simps snoc.IH)
  also have "\<dots> \<longleftrightarrow> ?all es \<and> entry_ok c e \<and> sorted_wrt (<) (map e_path (es @ [e]))
      \<and> parent_in es e \<and> s = seen_of (es @ [e])"
    using validate_entry_step [of es c e s] by blast
  also have "\<dots> \<longleftrightarrow> ?all (es @ [e]) \<and> s = seen_of (es @ [e])"
  proof (intro iffI; elim conjE; intro conjI)
    assume "\<forall>x \<in> set es. parent_in es x" "parent_in es e"
    then show "\<forall>x \<in> set (es @ [e]). parent_in (es @ [e]) x"
      by (auto intro: parent_in_append)
  next
    assume srt: "sorted_wrt (<) (map e_path (es @ [e]))"
      and par: "\<forall>x \<in> set (es @ [e]). parent_in (es @ [e]) x"
    show "parent_in es e"
      using parent_in_restrict [of es e "[]"] srt par by simp
    show "\<forall>x \<in> set es. parent_in es x"
    proof
      fix x assume "x \<in> set es"
      then obtain as bs where es: "es = as @ x # bs" by (auto dest: split_list)
      have "parent_in as x"
        using parent_in_restrict [of as x "bs @ [e]"] srt par es by simp
      then show "parent_in es x" unfolding es by (rule parent_in_append)
    qed
  qed (simp_all add: sorted_wrt_append)
  finally show ?case by simp
qed

theorem validate_manifest_iff: "validate_manifest c es = Inr () \<longleftrightarrow> manifest_ok c es"
  by (auto simp: validate_manifest_def manifest_ok_def result_simps validate_fold not_less)

lemma validate_manifest_ok: "manifest_ok c es \<Longrightarrow> validate_manifest c es = Inr ()"
  by (simp add: validate_manifest_iff)

section \<open>Consequences\<close>

lemma manifest_ok_entry: "manifest_ok c es \<Longrightarrow> e \<in> set es \<Longrightarrow> entry_ok c e"
  by (simp add: manifest_ok_def)

lemma manifest_ok_sorted: "manifest_ok c es \<Longrightarrow> sorted_wrt (<) (map e_path es)"
  by (simp add: manifest_ok_def)

lemma manifest_ok_distinct: "manifest_ok c es \<Longrightarrow> distinct (map e_path es)"
  by (simp add: manifest_ok_def sorted_paths_distinct)

lemma manifest_ok_unique:
  "manifest_ok c es \<Longrightarrow> d \<in> set es \<Longrightarrow> e \<in> set es \<Longrightarrow> e_path d = e_path e \<Longrightarrow> d = e"
  by (auto dest!: manifest_ok_distinct simp: distinct_map inj_on_def)

lemma manifest_ok_weaken: "manifest_ok True es \<Longrightarrow> manifest_ok c es"
  by (auto simp: manifest_ok_def entry_ok_def)

text \<open>Every proper ancestor of an entry is a directory of the manifest.\<close>

lemma ancestor_directory:
  assumes "manifest_ok c es" and "e \<in> set es" and "below (e_path e) a" and "a \<noteq> e_path e"
  shows "\<exists>d \<in> set es. e_path d = a \<and> e_kind d = Directory"
  using assms(2-4)
proof (induction "length (components (e_path e))" arbitrary: e rule: less_induct)
  case less
  then obtain r where r: "e_path e = a @ slash # r" by (auto simp: below_iff)
  then obtain parent name where split: "rsplit_once slash (e_path e) = Some (parent, name)"
    using rsplit_once_None [of slash "e_path e"] by (cases "rsplit_once slash (e_path e)") auto
  from assms(1) less.prems(1) have "parent_in es e" by (simp add: manifest_ok_def)
  with split obtain d where d: "d \<in> set es" "e_path d = parent" "e_kind d = Directory"
    by (auto simp: parent_in_def)
  show ?case
  proof (cases "parent = a")
    case False
    have "strict_prefix (components a) (components (e_path e))"
      using less.prems by (auto simp: below_components strict_prefix_def split_on_inj)
    then have "Sublist.prefix (components a) (components parent)"
      unfolding components_rsplit [OF split] by (auto simp: strict_prefix_def)
    then have "below (e_path d) a" using d(2) by (simp add: below_components)
    moreover have "length (components (e_path d)) < length (components (e_path e))"
      using length_components_rsplit [OF split] d(2) by simp
    ultimately show ?thesis using less.hyps d False by blast
  qed (use d in blast)
qed

text \<open>Nothing lies below a regular file or a protected entry.\<close>

lemma below_is_directory:
  assumes "manifest_ok c es" "e \<in> set es" "d \<in> set es" "below (e_path e) (e_path d)" "e \<noteq> d"
  shows "e_kind d = Directory"
proof -
  have "e_path d \<noteq> e_path e"
    using manifest_ok_unique [OF assms(1)] assms by metis
  then obtain d' where "d' \<in> set es" "e_path d' = e_path d" "e_kind d' = Directory"
    using ancestor_directory [OF assms(1,2,4)] by blast
  with manifest_ok_unique [OF assms(1) this(1) assms(3)] show ?thesis by simp
qed

text \<open>Lookup by path, the index \<open>BTreeMap<&str, &Entry>\<close> that \<open>plan\<close> builds from a manifest.\<close>

definition by_path :: "manifest \<Rightarrow> (str, entry) btree" where
  "by_path es = bt_collect (map (\<lambda>e. (e_path e, e)) es)"

lemma by_path_get:
  assumes "manifest_ok c es"
  shows "bt_get (by_path es) p = Some e \<longleftrightarrow> e \<in> set es \<and> e_path e = p"
proof -
  let ?kvs = "map (\<lambda>e. (e_path e, e)) es"
  have d: "distinct (map fst ?kvs)"
    using manifest_ok_distinct [OF assms] by (simp add: comp_def)
  have "bt_get (by_path es) p = map_of ?kvs p"
    by (simp add: by_path_def bt_get_collect [OF d])
  with map_of_eq_Some_iff [OF d] show ?thesis by auto
qed

lemma by_path_None:
  "manifest_ok c es \<Longrightarrow> bt_get (by_path es) p = None \<longleftrightarrow> p \<notin> e_path ` set es"
  using by_path_get [of c es p] by (metis imageE imageI option.exhaust option.distinct(1))

section \<open>Properties\<close>

text \<open>C31: Validation accepts exactly the well-formed manifests: at most 16384 entries, in strictly
  ascending order of their paths, each entry well-formed by itself (a valid path, the reserved prefix
  only on protected entries, bounded metadata, a digest where checksums are required), and the parent
  of each entry present as a directory.\<close>

theorem manifest_validated: "validate_manifest cks es = Inr () \<longleftrightarrow> manifest_ok cks es"
  by (rule validate_manifest_iff)

text \<open>A validated manifest is a tree: every proper ancestor of an entry is an entry of kind
  directory, so nothing lies below a file or a protected object, and no path occurs twice.\<close>

theorem manifest_is_tree:
  assumes "validate_manifest cks es = Inr ()" "e \<in> set es" "below (e_path e) a" "a \<noteq> e_path e"
  shows "\<exists>!d. d \<in> set es \<and> e_path d = a \<and> e_kind d = Directory"
proof -
  from assms(1) have ok: "manifest_ok cks es" by (simp add: validate_manifest_iff)
  from ancestor_directory [OF ok assms(2-4)] manifest_ok_unique [OF ok] show ?thesis by metis
qed

definition sample_dir :: entry where
  "sample_dir = \<lparr>e_path = ascii ''d'', e_kind = Directory, e_size = 0, e_mtime = 7, e_ns = 0, e_hash = None\<rparr>"

definition sample_file :: entry where
  "sample_file = \<lparr>e_path = ascii ''d/f'', e_kind = File, e_size = 3, e_mtime = 9, e_ns = 2, e_hash = None\<rparr>"

lemma sample_valid: "validate_manifest False [sample_dir, sample_file] = Inr ()"
  by (simp add: validate_manifest_def validate_entry_def sample_dir_def sample_file_def validate_def
      bad_component_def reserved_def reserved_prefix_def starts_with_def ascii_def dot_def dotdot_def
      MAX_ENTRIES_def MAX_PATH_def MAX_FILE_def bt_last_def bt_get_def rsplit_once_def list_less_def
      list_le_def)

lemma manifest_is_tree_witness:
  "\<exists>!d. d \<in> set [sample_dir, sample_file] \<and> e_path d = ascii ''d'' \<and> e_kind d = Directory"
  by (rule manifest_is_tree [OF sample_valid, of sample_file])
    (simp_all add: sample_file_def below_iff ascii_def)

end
