(* ===== verification/Root_Ops.thy ===== *)
theory Root_Ops
  imports Os Manifests
begin

text \<open>
  \<open>Root\<close> and \<open>Staged\<close> of \<open>src/fs.rs\<close>: every operation as the sequence of system calls it makes.
  SHA-256 is the parameter \<open>sha\<close>; a digest in progress is the bytes fed to it so far.
\<close>

section \<open>Stamps\<close>

record stamp =
  st_dev :: u64
  st_ino :: u64
  st_size :: u64
  st_mtime :: i64
  st_mtime_ns :: i64
  st_ctime :: i64
  st_ctime_ns :: i64

definition stamp_of :: "metadata \<Rightarrow> stamp" where
  "stamp_of m = \<lparr>st_dev = m_dev m, st_ino = m_ino m, st_size = m_len m, st_mtime = m_mtime m,
     st_mtime_ns = m_mtime_ns m, st_ctime = m_ctime m, st_ctime_ns = m_ctime_ns m\<rparr>"

section \<open>Opening and listing\<close>

definition open_full :: "'w os \<Rightarrow> root \<Rightarrow> str \<Rightarrow> open_mode \<Rightarrow> ('w, fd) io" where
  "open_full os r path mode =
     sysI (os_openat2 os (root_fd r) (if path = [] then dot else path) mode)"

definition open_file :: "'w os \<Rightarrow> root \<Rightarrow> str \<Rightarrow> ('w, fd) io" where
  "open_file os r path =
     bindI (liftI (full r path)) (\<lambda>p.
     bindI (open_full os r p Open_file) (\<lambda>f.
     bindI (sysI (os_metadata os f)) (\<lambda>m.
       if m_type m \<noteq> Regular then failI (InvalidPath path) else returnI f)))"

definition lock_state_with :: "'w os \<Rightarrow> root \<Rightarrow> str \<Rightarrow> bool \<Rightarrow> ('w, fd) io" where
  "lock_state_with os r path shared =
     bindI (liftI (full r path)) (\<lambda>p.
     bindI (sysI (os_openat2 os (root_fd r) p Open_lock)) (\<lambda>f.
     bindI (sysI (os_metadata os f)) (\<lambda>m.
     bindI (if m_type m \<noteq> Regular then returnI True
            else bindI (sysI (os_metadata os f)) (\<lambda>m. returnI (m_nlink m \<noteq> 1))) (\<lambda>bad.
       if bad then failI (InvalidPath (ascii ''invalid resume lock''))
       else bindI (sysI (os_flock os f shared)) (\<lambda>_. returnI f)))))"

definition metadata :: "'w os \<Rightarrow> root \<Rightarrow> str \<Rightarrow> ('w, metadata) io" where
  "metadata os r path =
     bindI (liftI (full r path)) (\<lambda>p.
     bindI (open_full os r p Open_path) (\<lambda>f. sysI (os_metadata os f)))"

definition exists_path :: "'w os \<Rightarrow> root \<Rightarrow> str \<Rightarrow> ('w, bool) io" where
  "exists_path os r path =
     bindI (resultI (metadata os r path)) (\<lambda>x.
       case x of
         Inr _ \<Rightarrow> returnI True
       | Inl e \<Rightarrow> if e = Io NotFound then returnI False else failI e)"

definition list_child ::
  "'w os \<Rightarrow> fd \<Rightarrow> byte list sys \<Rightarrow> (str \<times> metadata) list \<Rightarrow> ('w, (str \<times> metadata) list) io" where
  "list_child os dir item out =
     bindI (sysI (\<lambda>w. (item, w))) (\<lambda>name.
       if \<not> valid_utf8 name then
         failI (InvalidPath (ascii ''non-UTF-8 filename cannot be represented in protocol v1''))
       else bindI (sysI (os_openat os dir name)) (\<lambda>f.
            bindI (sysI (os_metadata os f)) (\<lambda>m.
              let out = out @ [(name, m)] in
              if MAX_ENTRIES < length out then failI (Protocol (ascii ''directory entry limit exceeded''))
              else returnI out)))"

definition children :: "'w os \<Rightarrow> root \<Rightarrow> str \<Rightarrow> ('w, (str \<times> metadata) list) io" where
  "children os r path =
     bindI (liftI (full r path)) (\<lambda>p.
     bindI (open_full os r p Open_dir) (\<lambda>dir.
     bindI (sysI (os_read_dir os dir)) (\<lambda>items.
     bindI (foldI (list_child os dir) items []) (\<lambda>out.
       returnI (sort_key fst out)))))"

section \<open>Changing directories\<close>

definition mkdir_step :: "'w os \<Rightarrow> root \<Rightarrow> str \<Rightarrow> str \<Rightarrow> ('w, str) io" where
  "mkdir_step os r name parent =
     bindI (open_full os r parent Open_dir) (\<lambda>dir.
     bindI (resultI (sysI (os_mkdirat os dir name))) (\<lambda>x.
     bindI (case x of
              Inr _ \<Rightarrow> sysI (os_sync os dir)
            | Inl e \<Rightarrow> if e = Io AlreadyExists then returnI () else failI e) (\<lambda>_.
       let parent = (if parent \<noteq> [] then parent @ [slash] else parent) @ name in
       bindI (open_full os r parent Open_dir) (\<lambda>_. returnI parent))))"

definition mkdir :: "'w os \<Rightarrow> root \<Rightarrow> str \<Rightarrow> ('w, unit) io" where
  "mkdir os r path =
     bindI (liftI (full r path)) (\<lambda>p.
     bindI (foldI (mkdir_step os r) (filter (\<lambda>s. s \<noteq> []) (components p)) []) (\<lambda>_. returnI ()))"

definition parent :: "'w os \<Rightarrow> root \<Rightarrow> str \<Rightarrow> ('w, fd \<times> str) io" where
  "parent os r path =
     bindI (liftI (validate path)) (\<lambda>_.
     bindI (liftI (full r path)) (\<lambda>p.
       let (dir, name) = (case rsplit_once slash p of Some x \<Rightarrow> x | None \<Rightarrow> ([], p)) in
       bindI (open_full os r dir Open_dir) (\<lambda>d. returnI (d, name))))"

definition remove :: "'w os \<Rightarrow> root \<Rightarrow> str \<Rightarrow> bool \<Rightarrow> ('w, unit) io" where
  "remove os r path is_directory =
     bindI (parent os r path) (\<lambda>(dir, name).
     bindI (sysI (os_unlinkat os dir name is_directory)) (\<lambda>_. sysI (os_sync os dir)))"

text \<open>\<open>Result::and\<close>: the first error, otherwise the second result.\<close>

definition unlink_batch :: "(str \<Rightarrow> ('w, unit) io) \<Rightarrow> ('w, unit) io \<Rightarrow> str list \<Rightarrow> ('w, unit) io" where
  "unlink_batch unlink sync names =
     bindI (resultI (eachI unlink names)) (\<lambda>removed.
     bindI (resultI sync) (\<lambda>synced.
       liftI (case removed of Inl e \<Rightarrow> Inl e | Inr _ \<Rightarrow> synced)))"

definition check_name :: "str \<Rightarrow> ('w, unit) io" where
  "check_name name =
     bindI (liftI (validate name)) (\<lambda>_.
       if slash \<in> set name then failI (InvalidPath name) else returnI ())"

definition remove_files :: "'w os \<Rightarrow> root \<Rightarrow> str \<Rightarrow> str list \<Rightarrow> ('w, unit) io" where
  "remove_files os r path names =
     bindI (eachI check_name names) (\<lambda>_.
     bindI (liftI (full r path)) (\<lambda>p.
     bindI (open_full os r p Open_dir) (\<lambda>dir.
       unlink_batch (\<lambda>name. sysI (os_unlinkat os dir name False)) (sysI (os_sync os dir)) names)))"

definition set_mtime :: "'w os \<Rightarrow> fd \<Rightarrow> i64 \<Rightarrow> u32 \<Rightarrow> ('w, unit) io" where
  "set_mtime os f sec ns =
     (if 1000000000 \<le> ns then failI (Protocol (ascii ''invalid nanoseconds''))
      else sysI (os_futimens os f sec ns))"

definition set_path_mtime :: "'w os \<Rightarrow> root \<Rightarrow> str \<Rightarrow> i64 \<Rightarrow> u32 \<Rightarrow> ('w, unit) io" where
  "set_path_mtime os r path sec ns =
     bindI (liftI (full r path)) (\<lambda>p.
     bindI (open_full os r p Open_file) (\<lambda>f. set_mtime os f sec ns))"

section \<open>Staging\<close>

text \<open>The readers that are staged: an open file, or bytes in memory.\<close>

datatype reader = File_reader fd | Bytes_reader "byte list"

definition read_from :: "'w os \<Rightarrow> reader \<Rightarrow> nat \<Rightarrow> ('w, byte list \<times> reader) io" where
  "read_from os rd n =
     (case rd of
        File_reader f \<Rightarrow> bindI (sysI (os_read os f n)) (\<lambda>b. returnI (b, rd))
      | Bytes_reader bs \<Rightarrow> returnI (take n bs, Bytes_reader (drop n bs)))"

text \<open>
  The loop that copies the reader to the temporary file. The count is a natural number: the source
  adds at most 65536 to a count that is not above \<open>size\<close>.
\<close>

function stage_loop ::
  "'w os \<Rightarrow> fd \<Rightarrow> str \<Rightarrow> nat \<Rightarrow> bool \<Rightarrow> reader \<Rightarrow> nat \<Rightarrow> byte list \<Rightarrow> ('w, nat \<times> byte list) io" where
  "stage_loop os f path sz hashing rd cnt digest w =
     (case read_from os rd 65536 w of
        (Inl e, w) \<Rightarrow> (Inl e, w)
      | (Inr (b, rd), w) \<Rightarrow>
          if b = [] then (Inr (cnt, digest), w)
          else if sz < cnt + length b then (Inl (Fails (Changed path)), w)
          else (case sysI (os_write os f b) w of
                  (Inl e, w) \<Rightarrow> (Inl e, w)
                | (Inr _, w) \<Rightarrow>
                    stage_loop os f path sz hashing rd (cnt + length b)
                      (if hashing then digest @ b else digest) w))"
  by pat_completeness auto
termination
  by (relation "measure (\<lambda>(os, f, path, sz, hashing, rd, cnt, digest, w). Suc sz - cnt)")
    (auto simp: not_less neq_Nil_conv)

declare stage_loop.simps [simp del]

record staged =
  sg_dir :: fd
  sg_name :: str
  sg_temp_name :: str
  sg_temp :: fd

definition drop_staged :: "'w os \<Rightarrow> staged \<Rightarrow> 'w \<Rightarrow> 'w" where
  "drop_staged os s w = snd (os_unlinkat os (sg_dir s) (sg_temp_name s) False w)"

definition stage_body ::
  "'w os \<Rightarrow> (byte list \<Rightarrow> hash) \<Rightarrow> str \<Rightarrow> reader \<Rightarrow> u64 \<Rightarrow> hash option \<Rightarrow> (i64 \<times> u32) option \<Rightarrow> staged
     \<Rightarrow> ('w, staged) io" where
  "stage_body os sha path rd sz expected mtime s =
     bindI (stage_loop os (sg_temp s) path (unat sz) (expected \<noteq> None) rd 0 []) (\<lambda>(cnt, digest).
       if cnt \<noteq> unat sz then failI (Changed path)
       else if (case expected of None \<Rightarrow> False | Some h \<Rightarrow> sha digest \<noteq> h) then failI (HashMismatch path)
       else bindI (case mtime of None \<Rightarrow> returnI () | Some (sec, ns) \<Rightarrow> set_mtime os (sg_temp s) sec ns) (\<lambda>_.
            bindI (sysI (os_sync os (sg_temp s))) (\<lambda>_. returnI s)))"

definition stage_inner ::
  "'w os \<Rightarrow> (byte list \<Rightarrow> hash) \<Rightarrow> root \<Rightarrow> str \<Rightarrow> reader \<Rightarrow> u64 \<Rightarrow> hash option \<Rightarrow> (i64 \<times> u32) option
     \<Rightarrow> ('w, staged) io" where
  "stage_inner os sha r path rd sz expected mtime =
     bindI (parent os r path) (\<lambda>(dir, name).
     bindI (sysI (os_tempfile_in os dir reserved_prefix)) (\<lambda>(temp, temp_name).
       let s = \<lparr>sg_dir = dir, sg_name = name, sg_temp_name = temp_name, sg_temp = temp\<rparr> in
       on_failI (stage_body os sha path rd sz expected mtime s) (drop_staged os s)))"

definition stage ::
  "'w os \<Rightarrow> (byte list \<Rightarrow> hash) \<Rightarrow> root \<Rightarrow> str \<Rightarrow> reader \<Rightarrow> u64 \<Rightarrow> hash option \<Rightarrow> i64 \<Rightarrow> u32 \<Rightarrow> ('w, staged) io" where
  "stage os sha r path rd sz expected sec ns = stage_inner os sha r path rd sz expected (Some (sec, ns))"

definition stage_content ::
  "'w os \<Rightarrow> (byte list \<Rightarrow> hash) \<Rightarrow> root \<Rightarrow> str \<Rightarrow> reader \<Rightarrow> u64 \<Rightarrow> hash \<Rightarrow> ('w, staged) io" where
  "stage_content os sha r path rd sz expected = stage_inner os sha r path rd sz (Some expected) None"

text \<open>\<open>commit\<close> consumes the value: whatever its outcome, \<open>Drop\<close> runs after it.\<close>

definition commit :: "'w os \<Rightarrow> staged \<Rightarrow> ('w, unit) io" where
  "commit os s =
     finallyI
       (bindI (sysI (os_renameat os (sg_dir s) (sg_temp_name s) (sg_dir s) (sg_name s))) (\<lambda>_.
          sysI (os_sync os (sg_dir s))))
       (drop_staged os s)"

section \<open>Hashing and snapshots\<close>

fun read_all :: "'w os \<Rightarrow> fd \<Rightarrow> nat \<Rightarrow> byte list \<Rightarrow> ('w, byte list) io" where
  "read_all os f 0 acc = divergeI"
| "read_all os f (Suc n) acc =
     bindI (sysI (os_read os f 65536)) (\<lambda>b.
       if b = [] then returnI acc else read_all os f n (acc @ b))"

definition hash_file :: "'w os \<Rightarrow> (byte list \<Rightarrow> hash) \<Rightarrow> fd \<Rightarrow> ('w, hash) io" where
  "hash_file os sha f =
     bindI (sysI (os_rewind os f)) (\<lambda>_.
     bindI (read_all os f (os_reads os) []) (\<lambda>digest.
     bindI (sysI (os_rewind os f)) (\<lambda>_. returnI (sha digest))))"

text \<open>\<open>io::copy(&mut (&mut source).take(limit), &mut tmp)\<close>; \<open>done\<close> bytes were copied already.\<close>

function copy_limited :: "'w os \<Rightarrow> fd \<Rightarrow> fd \<Rightarrow> nat \<Rightarrow> nat \<Rightarrow> ('w, nat) io" where
  "copy_limited os f tmp limit copied w =
     (if limit \<le> copied then (Inr copied, w)
      else case sysI (os_read os f (min 8192 (limit - copied))) w of
        (Inl e, w) \<Rightarrow> (Inl e, w)
      | (Inr b, w) \<Rightarrow>
          if b = [] then (Inr copied, w)
          else (case sysI (os_write os tmp b) w of
                  (Inl e, w) \<Rightarrow> (Inl e, w)
                | (Inr _, w) \<Rightarrow> copy_limited os f tmp limit (copied + length b) w))"
  by pat_completeness auto
termination
  by (relation "measure (\<lambda>(os, f, tmp, limit, copied, w). limit - copied)")
    (auto simp: neq_Nil_conv)

declare copy_limited.simps [simp del]

text \<open>\<open>expected.size + 1\<close> overflows only for the largest \<open>u64\<close>, where a checked build panics.\<close>

definition snapshot :: "'w os \<Rightarrow> root \<Rightarrow> str \<Rightarrow> stamp \<Rightarrow> ('w, fd) io" where
  "snapshot os r path expected =
     bindI (open_file os r path) (\<lambda>f.
     bindI (sysI (os_metadata os f)) (\<lambda>m.
       if stamp_of m \<noteq> expected then failI (Changed path)
       else bindI (sysI (os_tempfile os)) (\<lambda>tmp.
            if unat (st_size expected) + 1 = 2 ^ 64 then panicI
            else bindI (copy_limited os f tmp (unat (st_size expected) + 1) 0) (\<lambda>n.
            bindI (if n \<noteq> unat (st_size expected) then returnI True
                   else bindI (sysI (os_metadata os f)) (\<lambda>m.
                     if stamp_of m \<noteq> expected then returnI True
                     else bindI (metadata os r path) (\<lambda>m. returnI (stamp_of m \<noteq> expected)))) (\<lambda>differs.
              if differs then failI (Changed path)
              else bindI (sysI (os_rewind os tmp)) (\<lambda>_. returnI tmp))))))"

section \<open>No operation panics\<close>

lemma never_let [never_rules]: "never f (g v) \<Longrightarrow> never f (let x = v in g x)"
  by simp

lemma never_reader [never_rules]: "fault f \<Longrightarrow> never f (read_from os rd n)"
  by (cases rd) (auto simp: read_from_def intro!: never_rules)

text \<open>One turn of the two copying loops, in terms of the combinators.\<close>

lemma stage_loop_unfold:
  "stage_loop os fl path sz hashing rd cnt digest =
     bindI (read_from os rd 65536) (\<lambda>(b, rd).
       if b = [] then returnI (cnt, digest)
       else if sz < cnt + length b then failI (Changed path)
       else bindI (sysI (os_write os fl b)) (\<lambda>_.
              stage_loop os fl path sz hashing rd (cnt + length b) (if hashing then digest @ b else digest)))"
  by (rule ext, subst stage_loop.simps) (auto simp: bindI_def split: prod.split sum.split)

lemma copy_limited_unfold:
  "copy_limited os fl tmp limit copied =
     (if limit \<le> copied then returnI copied
      else bindI (sysI (os_read os fl (min 8192 (limit - copied)))) (\<lambda>b.
        if b = [] then returnI copied
        else bindI (sysI (os_write os tmp b)) (\<lambda>_. copy_limited os fl tmp limit (copied + length b))))"
  by (rule ext, subst copy_limited.simps) (auto simp: bindI_def split: prod.split sum.split)

lemma never_stage_loop [never_rules]:
  assumes f: "fault f"
  shows "never f (stage_loop os fl path sz hashing rd cnt digest)"
proof (induction "Suc sz - cnt" arbitrary: rd cnt digest rule: less_induct)
  case less
  show ?case
    by (subst stage_loop_unfold) (use f in \<open>auto simp: neq_Nil_conv intro!: never_rules less\<close>)
qed

lemma never_copy_limited [never_rules]:
  assumes f: "fault f"
  shows "never f (copy_limited os fl tmp limit copied)"
proof (induction "limit - copied" arbitrary: copied rule: less_induct)
  case less
  show ?case
    by (subst copy_limited_unfold) (use f in \<open>auto simp: neq_Nil_conv intro!: never_rules less\<close>)
qed

lemma safe_read_all [never_rules]: "safe (read_all os f n acc)"
  by (induction n arbitrary: acc) (auto intro!: never_rules)

lemma never_root_ops [never_rules]:
  assumes "fault f"
  shows "never f (open_full os r p m)" "never f (open_file os r p)" "never f (metadata os r p)"
    "never f (exists_path os r p)" "never f (children os r p)" "never f (mkdir os r p)"
    "never f (remove os r p d)" "never f (set_path_mtime os r p sec ns)"
    "never f (stage os sha r p rd sz h sec ns)" "never f (commit os s)"
  using assms
  by (auto simp: open_full_def open_file_def metadata_def exists_path_def children_def list_child_def
      mkdir_def mkdir_step_def remove_def parent_def set_path_mtime_def set_mtime_def stage_def
      stage_inner_def stage_body_def commit_def Let_def
      intro!: never_rules split: prod.split)

lemma safe_hash_file [never_rules]: "safe (hash_file os sha f)"
  by (auto simp: hash_file_def intro!: never_rules)

lemma safe_snapshot: "unat (st_size st) + 1 \<noteq> 2 ^ 64 \<Longrightarrow> safe (snapshot os r p st)"
  by (auto simp: snapshot_def intro!: never_rules)

section \<open>Reading operations keep every view\<close>

lemma keeps_let [keeps_rules]: "keeps view (g v) \<Longrightarrow> keeps view (let x = v in g x)"
  by simp

lemma keeps_open_full [keeps_rules]:
  "reads_keep os view \<Longrightarrow> m \<noteq> Open_lock \<Longrightarrow> keeps view (open_full os r p m)"
  by (simp add: open_full_def keeps_reads)

lemma keeps_item [keeps_rules]: "keeps view (sysI (\<lambda>w. (item, w)))"
  by (auto simp: keeps_def sysI_def split: sum.split)

lemma keeps_root_reads [keeps_rules]:
  assumes "reads_keep os view"
  shows "keeps view (open_file os r p)" "keeps view (metadata os r p)" "keeps view (exists_path os r p)"
    "keeps view (children os r p)" "keeps view (hash_file os sha f)"
proof -
  have "keeps view (read_all os f n acc)" for n acc
    by (induction n arbitrary: acc) (auto intro!: keeps_rules keeps_reads assms)
  then show "keeps view (open_file os r p)" "keeps view (metadata os r p)" "keeps view (exists_path os r p)"
    "keeps view (children os r p)" "keeps view (hash_file os sha f)"
    using assms by (auto simp: open_file_def metadata_def exists_path_def children_def list_child_def
      hash_file_def intro!: keeps_rules keeps_reads)
qed

lemma keeps_copy_limited:
  assumes r: "reads_keep os view" and t: "\<And>b. keeps view (sysI (os_write os tmp b))"
  shows "keeps view (copy_limited os f tmp limit copied)"
proof (induction "limit - copied" arbitrary: copied rule: less_induct)
  case less
  show ?case
    by (subst copy_limited_unfold)
      (use r t in \<open>auto simp: neq_Nil_conv intro!: keeps_rules keeps_reads less\<close>)
qed

lemma anonymous_file:
  assumes a: "anonymous_keep os view"
  shows "keeps view (sysI (os_tempfile os))"
    "ensures (sysI (os_tempfile os)) (\<lambda>f. \<forall>b. keeps view (sysI (os_write os f b)))"
proof -
  show "keeps view (sysI (os_tempfile os))" using a by (intro keeps_sys) (simp add: anonymous_keep_def)
  show "ensures (sysI (os_tempfile os)) (\<lambda>f. \<forall>b. keeps view (sysI (os_write os f b)))"
    unfolding ensures_def sysI_Inr
  proof (intro allI impI keeps_sys)
    fix w f w' b v assume "os_tempfile os w = (Inr f, w')"
    then show "view (snd (os_write os f b v)) = view v"
      using a unfolding anonymous_keep_def by blast
  qed
qed

lemma keeps_snapshot [keeps_rules]:
  assumes r: "reads_keep os view" and a: "anonymous_keep os view"
  shows "keeps view (snapshot os r p st)"
  unfolding snapshot_def
  by (rule keeps_bind [OF keeps_root_reads(1) [OF r]], rule keeps_bind [OF keeps_reads(3) [OF r]],
      rule keeps_if, rule keeps_return, rule keeps_bind_ensures [OF anonymous_file [OF a]])
    (auto intro!: keeps_rules keeps_reads keeps_copy_limited r)

section \<open>Batches of removals\<close>

text \<open>The error a batch of removals reports. The removals stop at the first that fails; the directory is
  synchronized in any case, after the last removal attempted; and the batch fails with the removal's error
  if there is one, else with that of the synchronization.\<close>

theorem batch_errors:
  assumes "eachI unlink names w = (removed, w1)" "removed \<noteq> Inl Panics" "removed \<noteq> Inl Diverges"
    and "sync w1 = (synced, w2)" "synced \<noteq> Inl Panics" "synced \<noteq> Inl Diverges"
  shows "unlink_batch unlink sync names w = (case removed of Inl e \<Rightarrow> Inl e | Inr _ \<Rightarrow> synced, w2)"
proof -
  have split: "resultI m v = (Inr (case x of Inl (Fails e) \<Rightarrow> Inl e | Inr y \<Rightarrow> Inr y), v')"
    if "m v = (x, v')" "x \<noteq> Inl Panics" "x \<noteq> Inl Diverges" for m :: "('a, unit) io" and v x v'
    using that by (auto simp: resultI_def split: sum.split failure.split)
  from split [of "eachI unlink names" w removed w1] split [of sync w1 synced w2] assms
  show ?thesis
    by (auto simp: unlink_batch_def bindI_def may_def split: sum.split failure.split)
qed

text \<open>Two names, the second of which cannot be removed; the world counts the calls.\<close>

lemma batch_errors_witness:
  "unlink_batch (\<lambda>n w. (if n = [2] then Inl (Fails Busy) else Inr (), w + 1)) (\<lambda>w. (Inr (), w + 10))
     [[1], [2], [3]] (0 :: nat) = (Inl (Fails Busy), 12)"
  using batch_errors [of "\<lambda>n w. (if n = [2] then Inl (Fails Busy) else Inr (), w + 1)" "[[1], [2], [3]]"
      "0 :: nat" "Inl (Fails Busy)" 2 "\<lambda>w. (Inr (), w + 10)" "Inr ()" 12]
  by (simp add: bindI_def)

end
