(* ===== verification/Planning.thy ===== *)
theory Planning
  imports Manifests
begin

text \<open>
  The plan of a synchronization (\<open>plan\<close>, \<open>src/sync.rs\<close>): from the manifests of the source and of
  the destination, which files to transfer, which directories to make, what to remove. \<open>plan\<close>
  follows the two loops of the source; \<open>planned\<close> is the same plan as a comprehension over the
  manifests, and \<open>plan_Inr\<close> proves that they agree. The last section gives a plan its meaning on
  trees of paths and shows what a destination looks like after it.
\<close>

section \<open>The plan\<close>

datatype action = Skip | Mkdir | Create | Update | Delete

record operation =
  o_action :: action
  o_path :: str

record sync_plan =
  operations :: "operation list"
  files :: "nat list"
  directories :: "nat list"
  removals :: "entry list"
  conflicts :: "(str, entry list) btree"

definition empty_plan :: sync_plan where
  "empty_plan = \<lparr>operations = [], files = [], directories = [], removals = [], conflicts = []\<rparr>"

definition protected_paths :: "manifest \<Rightarrow> manifest \<Rightarrow> str list" where
  "protected_paths src dst = map e_path (filter (\<lambda>e. e_kind e = Protected) (src @ dst))"

definition push_op :: "action \<Rightarrow> str \<Rightarrow> sync_plan \<Rightarrow> sync_plan" where
  "push_op a path p = p\<lparr>operations := operations p @ [\<lparr>o_action = a, o_path = path\<rparr>]\<rparr>"

text \<open>The type conflict of an entry with what the destination has at its path.\<close>

definition plan_conflict ::
  "options \<Rightarrow> manifest \<Rightarrow> str list \<Rightarrow> entry \<Rightarrow> entry option \<Rightarrow> sync_plan \<Rightarrow> sync_plan res" where
  "plan_conflict opt dst prot e old p =
     (case old of
        None \<Rightarrow> Inr p
      | Some o' \<Rightarrow>
          if e_kind o' = e_kind e then Inr p
          else if \<not> delete opt then
            Inl (Protocol (ascii ''type conflict at '' @ e_path e @ ascii ''; requires --delete''))
          else if list_ex (\<lambda>s. below s (e_path e)) prot then
            Inl (Protocol (ascii ''type conflict contains protected object: '' @ e_path e))
          else Inr (p\<lparr>conflicts :=
                 bt_insert (e_path e) (rev (filter (\<lambda>x. below (e_path x) (e_path e)) dst)) (conflicts p)\<rparr>))"

definition same_file :: "options \<Rightarrow> entry \<Rightarrow> entry \<Rightarrow> bool" where
  "same_file opt e x \<longleftrightarrow>
     e_kind x = File \<and> e_size x = e_size e \<and> e_mtime x = e_mtime e \<and> e_ns x = e_ns e
     \<and> (\<not> checksum opt \<or> e_hash x = e_hash e)"

definition plan_action :: "options \<Rightarrow> nat \<Rightarrow> entry \<Rightarrow> entry option \<Rightarrow> sync_plan \<Rightarrow> action \<times> sync_plan" where
  "plan_action opt index e old p =
     (case e_kind e of
        Directory \<Rightarrow>
          (if (case old of None \<Rightarrow> False | Some x \<Rightarrow> e_kind x = Directory) then Skip else Mkdir,
           p\<lparr>directories := directories p @ [index]\<rparr>)
      | File \<Rightarrow>
          if (case old of None \<Rightarrow> False | Some x \<Rightarrow> same_file opt e x) then (Skip, p)
          else (if old \<noteq> None then Update else Create, p\<lparr>files := files p @ [index]\<rparr>)
      | Protected \<Rightarrow> (Skip, p))"

definition plan_entry ::
  "options \<Rightarrow> manifest \<Rightarrow> (str, entry) btree \<Rightarrow> str list \<Rightarrow> nat \<times> entry \<Rightarrow> sync_plan \<Rightarrow> sync_plan res" where
  "plan_entry opt dst dm prot ie p =
     (let (index, e) = ie in
      if list_ex (below (e_path e)) prot then Inr (push_op Skip (e_path e) p)
      else let old = bt_get dm (e_path e) in
        bindR (plan_conflict opt dst prot e old p) (\<lambda>p.
          let (a, p) = plan_action opt index e old p in Inr (push_op a (e_path e) p)))"

definition plan_removal :: "(str, entry) btree \<Rightarrow> str list \<Rightarrow> entry \<Rightarrow> sync_plan \<Rightarrow> sync_plan" where
  "plan_removal sm prot e p =
     (if bt_get sm (e_path e) \<noteq> None
         \<or> list_ex (\<lambda>s. below (e_path e) s \<or> below s (e_path e)) prot
         \<or> list_ex (\<lambda>s. below (e_path e) s) (map fst (conflicts p))
      then p
      else push_op Delete (e_path e) (p\<lparr>removals := removals p @ [e]\<rparr>))"

definition plan :: "manifest \<Rightarrow> manifest \<Rightarrow> options \<Rightarrow> sync_plan res" where
  "plan src dst opt =
     bindR (validate_manifest (checksum opt) src) (\<lambda>_.
     bindR (validate_manifest (checksum opt) dst) (\<lambda>_.
       let sm = by_path src; dm = by_path dst; prot = protected_paths src dst in
       bindR (foldR (plan_entry opt dst dm prot) (enumerate 0 src) empty_plan) (\<lambda>p.
         Inr (if delete opt then fold (plan_removal sm prot) (rev dst) p else p))))"

section \<open>The plan as a comprehension\<close>

definition shielded :: "manifest \<Rightarrow> manifest \<Rightarrow> str \<Rightarrow> bool" where
  "shielded src dst path \<longleftrightarrow> (\<exists>x \<in> set src \<union> set dst. e_kind x = Protected \<and> below path (e_path x))"

definition shields :: "manifest \<Rightarrow> manifest \<Rightarrow> str \<Rightarrow> bool" where
  "shields src dst path \<longleftrightarrow> (\<exists>x \<in> set src \<union> set dst. e_kind x = Protected \<and> below (e_path x) path)"

definition conflicting :: "manifest \<Rightarrow> manifest \<Rightarrow> entry \<Rightarrow> bool" where
  "conflicting src dst e \<longleftrightarrow>
     \<not> shielded src dst (e_path e) \<and> (\<exists>x \<in> set dst. e_path x = e_path e \<and> e_kind x \<noteq> e_kind e)"

definition allowed :: "options \<Rightarrow> manifest \<Rightarrow> manifest \<Rightarrow> entry \<Rightarrow> bool" where
  "allowed opt src dst e \<longleftrightarrow>
     (conflicting src dst e \<longrightarrow> delete opt \<and> \<not> shields src dst (e_path e))"

definition transferred :: "options \<Rightarrow> manifest \<Rightarrow> manifest \<Rightarrow> entry \<Rightarrow> bool" where
  "transferred opt src dst e \<longleftrightarrow>
     e_kind e = File \<and> \<not> shielded src dst (e_path e)
     \<and> \<not> (\<exists>x \<in> set dst. e_path x = e_path e \<and> same_file opt e x)"

definition made :: "manifest \<Rightarrow> manifest \<Rightarrow> entry \<Rightarrow> bool" where
  "made src dst e \<longleftrightarrow> e_kind e = Directory \<and> \<not> shielded src dst (e_path e)"

definition removed :: "manifest \<Rightarrow> manifest \<Rightarrow> entry \<Rightarrow> bool" where
  "removed src dst e \<longleftrightarrow>
     e_path e \<notin> e_path ` set src \<and> \<not> shielded src dst (e_path e) \<and> \<not> shields src dst (e_path e)
     \<and> \<not> (\<exists>k \<in> set src. conflicting src dst k \<and> below (e_path e) (e_path k))"

definition replaced :: "manifest \<Rightarrow> str \<Rightarrow> entry list" where
  "replaced dst path = rev (filter (\<lambda>x. below (e_path x) path) dst)"

definition action_of :: "options \<Rightarrow> manifest \<Rightarrow> manifest \<Rightarrow> entry \<Rightarrow> action" where
  "action_of opt src dst e =
     (let there = e_path e \<in> e_path ` set dst in
      if transferred opt src dst e then (if there then Update else Create)
      else if made src dst e \<and> (\<not> there \<or> conflicting src dst e) then Mkdir
      else Skip)"

definition planned :: "manifest \<Rightarrow> manifest \<Rightarrow> options \<Rightarrow> sync_plan" where
  "planned src dst opt =
     (let gone = if delete opt then rev (filter (removed src dst) dst) else [] in
      \<lparr>operations = map (\<lambda>e. \<lparr>o_action = action_of opt src dst e, o_path = e_path e\<rparr>) src
                    @ map (\<lambda>e. \<lparr>o_action = Delete, o_path = e_path e\<rparr>) gone,
       files = filter (\<lambda>i. transferred opt src dst (src ! i)) [0..<length src],
       directories = filter (\<lambda>i. made src dst (src ! i)) [0..<length src],
       removals = gone,
       conflicts = map (\<lambda>e. (e_path e, replaced dst (e_path e))) (filter (conflicting src dst) src)\<rparr>)"

section \<open>The loops compute the comprehension\<close>

lemma protected_above: "list_ex (below path) (protected_paths src dst) \<longleftrightarrow> shielded src dst path"
  by (auto simp: protected_paths_def shielded_def list_ex_iff)

lemma protected_below: "list_ex (\<lambda>s. below s path) (protected_paths src dst) \<longleftrightarrow> shields src dst path"
  by (auto simp: protected_paths_def shields_def list_ex_iff)

lemma plan_entry_eq:
  assumes dst: "manifest_ok c dst" and e: "e \<in> set src"
  shows "plan_entry opt dst (by_path dst) (protected_paths src dst) (i, e) p =
    (if \<not> allowed opt src dst e then
       Inl (Protocol (if delete opt then ascii ''type conflict contains protected object: '' @ e_path e
                      else ascii ''type conflict at '' @ e_path e @ ascii ''; requires --delete''))
     else Inr \<lparr>operations = operations p @ [\<lparr>o_action = action_of opt src dst e, o_path = e_path e\<rparr>],
       files = files p @ (if transferred opt src dst e then [i] else []),
       directories = directories p @ (if made src dst e then [i] else []),
       removals = removals p,
       conflicts = (if conflicting src dst e
                    then bt_insert (e_path e) (replaced dst (e_path e)) (conflicts p) else conflicts p)\<rparr>)"
proof (cases "shielded src dst (e_path e)")
  case True
  then show ?thesis
    by (cases p) (auto simp: plan_entry_def protected_above push_op_def allowed_def conflicting_def
        transferred_def made_def action_of_def Let_def)
next
  case False
  note here = by_path_get [OF dst, of "e_path e"]
  show ?thesis
  proof (cases "bt_get (by_path dst) (e_path e)")
    case None
    then have "e_path e \<notin> e_path ` set dst" using by_path_None [OF dst] by simp
    with None False show ?thesis
      by (cases p; cases "e_kind e")
        (auto simp: plan_entry_def protected_above push_op_def allowed_def conflicting_def
          transferred_def made_def action_of_def Let_def plan_conflict_def plan_action_def image_iff
          shielded_def e)
  next
    case (Some x)
    then have x: "x \<in> set dst" "e_path x = e_path e" using here by auto
    have ex: "(\<exists>y \<in> set dst. e_path y = e_path e \<and> P y) \<longleftrightarrow> P x" for P
      using x manifest_ok_unique [OF dst] by metis
    have there: "e_path e \<in> e_path ` set dst" using x(1) unfolding x(2) [symmetric] by (rule imageI)
    have conf: "conflicting src dst e \<longleftrightarrow> e_kind x \<noteq> e_kind e"
      unfolding conflicting_def ex [of "\<lambda>y. e_kind y \<noteq> e_kind e"] using False by simp
    have tr: "transferred opt src dst e \<longleftrightarrow> e_kind e = File \<and> \<not> same_file opt e x"
      unfolding transferred_def ex using False by simp
    have md: "made src dst e \<longleftrightarrow> e_kind e = Directory" using False by (simp add: made_def)
    have "e_kind e \<noteq> Protected"
      using False e by (auto simp: shielded_def)
    with Some False there show ?thesis
      by (cases p; cases "e_kind e")
        (auto simp: plan_entry_def protected_above protected_below push_op_def allowed_def conf tr md
          action_of_def Let_def plan_conflict_def plan_action_def replaced_def same_file_def)
  qed
qed

lemma plan_loop:
  assumes dst: "manifest_ok c dst" and "set es \<subseteq> set src"
  shows "foldR (plan_entry opt dst (by_path dst) (protected_paths src dst)) (enumerate k es) p =
      Inr q \<longleftrightarrow>
    (\<forall>e \<in> set es. allowed opt src dst e)
    \<and> q = \<lparr>operations = operations p @ map (\<lambda>e. \<lparr>o_action = action_of opt src dst e, o_path = e_path e\<rparr>) es,
       files = files p @ filter (\<lambda>i. transferred opt src dst (es ! (i - k))) [k..<k + length es],
       directories = directories p @ filter (\<lambda>i. made src dst (es ! (i - k))) [k..<k + length es],
       removals = removals p,
       conflicts = fold (\<lambda>(x, v). bt_insert x v)
         (map (\<lambda>e. (e_path e, replaced dst (e_path e))) (filter (conflicting src dst) es)) (conflicts p)\<rparr>"
  using assms(2)
proof (induction es arbitrary: k p)
  case Nil
  then show ?case by (cases p) auto
next
  case (Cons e es)
  have upt: "[k..<k + length (e # es)] = k # [Suc k..<Suc k + length es]"
    by (subst upt_conv_Cons) simp_all
  have shift: "filter (\<lambda>i. P ((e # es) ! (i - k))) [Suc k..<Suc k + length es]
      = filter (\<lambda>i. P (es ! (i - Suc k))) [Suc k..<Suc k + length es]" for P
    by (rule filter_cong) (auto simp: nth_Cons' intro!: arg_cong [where f = P] nth_equalityI)
  from Cons.prems have e: "e \<in> set src" and es: "set es \<subseteq> set src" by auto
  show ?case
    unfolding enumerate_simps foldR.simps plan_entry_eq [OF dst e] upt filter.simps shift
    using Cons.IH [OF es] by auto
qed

lemma removal_loop:
  assumes src: "manifest_ok c src"
    and keys: "map fst (conflicts p) = map e_path (filter (conflicting src dst) src)"
  shows "fold (plan_removal (by_path src) (protected_paths src dst)) es p =
    p\<lparr>removals := removals p @ filter (removed src dst) es,
      operations := operations p
        @ map (\<lambda>e. \<lparr>o_action = Delete, o_path = e_path e\<rparr>) (filter (removed src dst) es)\<rparr>"
  using keys
proof (induction es arbitrary: p)
  case (Cons e es)
  have "list_ex (\<lambda>s. below (e_path e) s \<or> below s (e_path e)) (protected_paths src dst) \<longleftrightarrow>
      shielded src dst (e_path e) \<or> shields src dst (e_path e)"
    by (auto simp: protected_above [symmetric] protected_below [symmetric] list_ex_iff)
  moreover have "list_ex (\<lambda>s. below (e_path e) s) (map fst (conflicts p)) \<longleftrightarrow>
      (\<exists>k \<in> set src. conflicting src dst k \<and> below (e_path e) (e_path k))"
    unfolding Cons.prems by (auto simp: list_ex_iff)
  ultimately have "plan_removal (by_path src) (protected_paths src dst) e p =
      (if removed src dst e
       then push_op Delete (e_path e) (p\<lparr>removals := removals p @ [e]\<rparr>) else p)"
    using by_path_None [OF src, of "e_path e"] by (auto simp: plan_removal_def removed_def)
  then show ?case
    using Cons.IH [of "push_op Delete (e_path e) (p\<lparr>removals := removals p @ [e]\<rparr>)"]
      Cons.IH [of p] Cons.prems
    by (simp add: push_op_def)
qed simp

lemma conflicts_sorted:
  assumes "manifest_ok c src"
  shows "fold (\<lambda>(x, v). bt_insert x v) (map (\<lambda>e. (e_path e, f e)) (filter P src)) []
     = map (\<lambda>e. (e_path e, f e)) (filter P src)"
proof -
  have "sorted_wrt (<) (map fst (map (\<lambda>e. (e_path e, f e)) (filter P src)))"
    using manifest_ok_sorted [OF assms] by (simp add: comp_def sorted_wrt_map sorted_wrt_filter)
  then show ?thesis
    unfolding bt_collect_def [symmetric] by (rule bt_collect_sorted)
qed

lemma plan_Inr:
  "plan src dst opt = Inr p \<longleftrightarrow>
     manifest_ok (checksum opt) src \<and> manifest_ok (checksum opt) dst
     \<and> (\<forall>e \<in> set src. allowed opt src dst e) \<and> p = planned src dst opt"
proof (cases "manifest_ok (checksum opt) src \<and> manifest_ok (checksum opt) dst")
  case True
  then have src: "manifest_ok (checksum opt) src" and dst: "manifest_ok (checksum opt) dst" by auto
  have "plan src dst opt = Inr p \<longleftrightarrow>
    (\<exists>q. foldR (plan_entry opt dst (by_path dst) (protected_paths src dst)) (enumerate 0 src) empty_plan = Inr q
       \<and> p = (if delete opt then fold (plan_removal (by_path src) (protected_paths src dst)) (rev dst) q else q))"
    using src dst by (auto simp: plan_def validate_manifest_ok result_simps Let_def)
  also have "\<dots> \<longleftrightarrow> (\<forall>e \<in> set src. allowed opt src dst e) \<and> p = planned src dst opt"
    unfolding plan_loop [OF dst order_refl]
    by (auto simp: empty_plan_def conflicts_sorted [OF src] planned_def Let_def
        removal_loop [OF src] comp_def rev_filter)
  finally show ?thesis using True by simp
next
  case False
  then show ?thesis by (auto simp: plan_def result_simps validate_manifest_iff)
qed

section \<open>Consequences\<close>

lemma planD:
  assumes "plan src dst opt = Inr p"
  shows "manifest_ok (checksum opt) src" "manifest_ok (checksum opt) dst" "p = planned src dst opt"
    "e \<in> set src \<Longrightarrow> allowed opt src dst e"
  using assms by (auto simp: plan_Inr)

lemma conflictingD:
  assumes "plan src dst opt = Inr p" "e \<in> set src" "conflicting src dst e"
  shows "delete opt" "\<not> shields src dst (e_path e)" "\<not> shielded src dst (e_path e)" "e_kind e \<noteq> Protected"
  using assms planD(4) [OF assms(1,2)] by (auto simp: allowed_def conflicting_def shielded_def)

lemma planned_removals: "x \<in> set (removals (planned src dst opt)) \<longleftrightarrow> delete opt \<and> x \<in> set dst \<and> removed src dst x"
  by (auto simp: planned_def Let_def)

lemma planned_files:
  "i \<in> set (files (planned src dst opt)) \<longleftrightarrow> i < length src \<and> transferred opt src dst (src ! i)"
  by (auto simp: planned_def Let_def)

lemma planned_directories:
  "i \<in> set (directories (planned src dst opt)) \<longleftrightarrow> i < length src \<and> made src dst (src ! i)"
  by (auto simp: planned_def Let_def)

lemma planned_conflicts:
  assumes "manifest_ok c src" "e \<in> set src"
  shows "bt_get (conflicts (planned src dst opt)) (e_path e) =
    (if conflicting src dst e then Some (replaced dst (e_path e)) else None)"
proof -
  let ?kvs = "map (\<lambda>e. (e_path e, replaced dst (e_path e))) (filter (conflicting src dst) src)"
  have "distinct (map fst ?kvs)"
    using manifest_ok_distinct [OF assms(1)] by (simp add: comp_def distinct_map_filter)
  from map_of_eq_Some_iff [OF this]
  have "map_of ?kvs (e_path e) = Some v \<longleftrightarrow> conflicting src dst e \<and> v = replaced dst (e_path e)" for v
    using manifest_ok_unique [OF assms(1,2)] assms(2) by (auto simp: image_iff)
  then have "map_of ?kvs (e_path e) =
      (if conflicting src dst e then Some (replaced dst (e_path e)) else None)"
    by (cases "map_of ?kvs (e_path e)") auto
  then show ?thesis by (simp add: planned_def Let_def bt_get_def)
qed

text \<open>An entry that replaces another in place has nothing of the source below the replaced object.\<close>

lemma replaced_not_source:
  assumes src: "manifest_ok c src" and dst: "manifest_ok c' dst"
    and e: "e \<in> set src" "conflicting src dst e"
    and x: "x \<in> set (replaced dst (e_path e))" "e_path x \<in> e_path ` set src"
  shows "e_path x = e_path e"
proof (rule ccontr)
  assume ne: "e_path x \<noteq> e_path e"
  from x(1) have x1: "x \<in> set dst" "below (e_path x) (e_path e)" by (auto simp: replaced_def)
  from x(2) obtain y where y: "y \<in> set src" "e_path y = e_path x" by force
  with x1 ne have "e_kind e = Directory"
    using below_is_directory [OF src y(1) e(1)] by (cases "y = e") auto
  moreover obtain z where "z \<in> set dst" "e_path z = e_path e" "e_kind z = Directory"
    using ancestor_directory [OF dst x1] ne by auto
  ultimately show False
    using e(2) manifest_ok_unique [OF dst] by (auto simp: conflicting_def) metis
qed

lemma shields_below: "shields src dst q \<Longrightarrow> below q k \<Longrightarrow> shields src dst k"
  unfolding shields_def using below_trans by blast

lemma shielded_below: "below q k \<Longrightarrow> shielded src dst q \<Longrightarrow> shielded src dst k \<or> shields src dst k"
  unfolding shields_def shielded_def using below_linear by blast

text \<open>Removals are closed: with an entry go all entries of the destination below it, and before it.\<close>

lemma removed_closed:
  assumes "manifest_ok c src" "removed src dst x" "below (e_path y) (e_path x)" "y \<in> set dst"
  shows "removed src dst y"
proof -
  from assms(2) have x: "e_path x \<notin> e_path ` set src" "\<not> shielded src dst (e_path x)"
    "\<not> shields src dst (e_path x)"
    "\<And>k. k \<in> set src \<Longrightarrow> conflicting src dst k \<Longrightarrow> \<not> below (e_path x) (e_path k)"
    by (auto simp: removed_def)
  have up: "\<not> below (e_path k) (e_path x)" if "k \<in> set src" for k
  proof
    assume b: "below (e_path k) (e_path x)"
    have "e_path k \<noteq> e_path x" using that x(1) by (metis imageI)
    with ancestor_directory [OF assms(1) that b] x(1) show False by (metis imageI)
  qed
  have "e_path y \<notin> e_path ` set src" using up assms(3) by auto
  moreover have "\<not> shields src dst (e_path y)" using shields_below assms(3) x(3) by blast
  moreover have "\<not> shielded src dst (e_path y)" using shielded_below [OF assms(3)] x(2,3) by blast
  moreover have "\<not> below (e_path y) (e_path k)" if "k \<in> set src" "conflicting src dst k" for k
    using below_linear [OF assms(3)] up [OF that(1)] x(4) [OF that] by blast
  ultimately show ?thesis by (simp add: removed_def)
qed

lemma reversed_deepest_first:
  assumes srt: "sorted_wrt (<) (map e_path dst)"
    and ij: "i < j" "j < length (rev (filter P dst))"
  shows "\<not> below (e_path (rev (filter P dst) ! j)) (e_path (rev (filter P dst) ! i))"
proof
  let ?r = "rev (filter P dst)"
  assume "below (e_path (?r ! j)) (e_path (?r ! i))"
  then have "e_path (?r ! i) \<le> e_path (?r ! j)" by (rule below_less_eq)
  moreover have "sorted_wrt (\<lambda>x y. e_path y < e_path x) ?r"
    using srt by (simp add: sorted_wrt_rev sorted_wrt_map sorted_wrt_filter)
  from sorted_wrt_nth_less [OF this ij] have "e_path (?r ! j) < e_path (?r ! i)" .
  ultimately show False by simp
qed

section \<open>What a plan does to a tree\<close>

text \<open>
  A tree maps paths to objects. \<open>carry_out\<close> is the effect \<open>prepare\<close>, \<open>install\<close> and \<open>finish\<close> have
  on it when every step succeeds: make the directories, put the files, remove; where a plan lists
  a conflict, the conflicting objects go first. Modification times of directories are not part of
  the tree.
\<close>

datatype node = File_node u64 i64 u32 | Directory_node | Protected_node

definition node_of :: "entry \<Rightarrow> node" where
  "node_of e = (case e_kind e of File \<Rightarrow> File_node (e_size e) (e_mtime e) (e_ns e)
     | Directory \<Rightarrow> Directory_node | Protected \<Rightarrow> Protected_node)"

definition tree_of :: "manifest \<Rightarrow> str \<Rightarrow> node option" where
  "tree_of m = map_of (map (\<lambda>e. (e_path e, node_of e)) m)"

definition clear :: "entry list \<Rightarrow> (str \<Rightarrow> node option) \<Rightarrow> str \<Rightarrow> node option" where
  "clear es t = fold (\<lambda>e t. t(e_path e := None)) es t"

definition put_entry :: "manifest \<Rightarrow> sync_plan \<Rightarrow> nat \<Rightarrow> (str \<Rightarrow> node option) \<Rightarrow> str \<Rightarrow> node option" where
  "put_entry src p i t =
     (let e = src ! i;
          gone = (case bt_get (conflicts p) (e_path e) of None \<Rightarrow> [] | Some es \<Rightarrow> es)
      in (clear gone t)(e_path e := Some (node_of e)))"

definition carry_out :: "manifest \<Rightarrow> sync_plan \<Rightarrow> (str \<Rightarrow> node option) \<Rightarrow> str \<Rightarrow> node option" where
  "carry_out src p t =
     clear (removals p) (fold (put_entry src p) (directories p @ files p) t)"

lemma tree_of_Some:
  assumes "manifest_ok c m"
  shows "tree_of m q = Some n \<longleftrightarrow> (\<exists>e \<in> set m. e_path e = q \<and> node_of e = n)"
proof -
  have "distinct (map fst (map (\<lambda>e. (e_path e, node_of e)) m))"
    using manifest_ok_distinct [OF assms] by (simp add: comp_def)
  from map_of_eq_Some_iff [OF this] show ?thesis by (auto simp: tree_of_def)
qed

lemma tree_of_entry: "manifest_ok c m \<Longrightarrow> e \<in> set m \<Longrightarrow> tree_of m (e_path e) = Some (node_of e)"
  by (auto simp: tree_of_Some)

lemma tree_of_None: "tree_of m q = None \<longleftrightarrow> q \<notin> e_path ` set m"
  by (simp add: tree_of_def map_of_eq_None_iff image_image)

lemma clear_eq: "clear es t q = (if q \<in> e_path ` set es then None else t q)"
  by (induction es arbitrary: t) (auto simp: clear_def)

lemma puts_eq:
  assumes p: "plan src dst opt = Inr p"
  shows "set ks \<subseteq> {..<length src} \<Longrightarrow>
    fold (put_entry src p) ks t q =
      (if q \<in> (\<lambda>i. e_path (src ! i)) ` set ks then tree_of src q
       else if \<exists>i \<in> set ks. conflicting src dst (src ! i) \<and> q \<in> e_path ` set (replaced dst (e_path (src ! i)))
       then None else t q)"
proof (induction ks rule: rev_induct)
  case (snoc k ks)
  let ?e = "src ! k"
  from snoc.prems have k: "?e \<in> set src" by simp
  have step: "put_entry src p k t' q = (if q = e_path ?e then tree_of src q
      else if conflicting src dst ?e \<and> q \<in> e_path ` set (replaced dst (e_path ?e)) then None else t' q)" for t'
    using planned_conflicts [OF planD(1) [OF p] k] planD(3) [OF p] tree_of_entry [OF planD(1) [OF p] k]
    by (auto simp: put_entry_def Let_def clear_eq)
  have "q = e_path ?e" if "conflicting src dst ?e" "q \<in> e_path ` set (replaced dst (e_path ?e))"
    "q \<in> (\<lambda>i. e_path (src ! i)) ` set ks"
  proof -
    from that(3) snoc.prems have "q \<in> e_path ` set src" by auto
    with that(1,2) replaced_not_source [OF planD(1) [OF p] planD(2) [OF p] k] show ?thesis by auto
  qed
  with snoc show ?case by (auto simp: step)
qed simp

lemma node_of_same: "same_file opt e x \<Longrightarrow> e_kind e = File \<Longrightarrow> node_of x = node_of e"
  by (simp add: same_file_def node_of_def)

lemma conflicting_planned:
  assumes p: "plan src dst opt = Inr p" and e: "i < length src" "conflicting src dst (src ! i)"
  shows "i \<in> set (directories p @ files p)"
proof -
  have "e_kind (src ! i) \<noteq> Protected" "\<not> shielded src dst (e_path (src ! i))"
    using conflictingD [OF p _ e(2)] e(1) by simp_all
  moreover have "\<not> (\<exists>x \<in> set dst. e_path x = e_path (src ! i) \<and> same_file opt (src ! i) x)"
    if "e_kind (src ! i) = File"
    using e(2) manifest_ok_unique [OF planD(2) [OF p]] that
    unfolding conflicting_def same_file_def by metis
  ultimately show ?thesis
    using e(1) unfolding planD(3) [OF p] set_append Un_iff planned_files planned_directories
    by (cases "e_kind (src ! i)") (auto simp: transferred_def made_def)
qed

lemma carry_out_eq:
  assumes p: "plan src dst opt = Inr p"
  shows "carry_out src p (tree_of dst) q =
    (if shielded src dst q then tree_of dst q
     else if q \<in> e_path ` set src then tree_of src q
     else if delete opt \<and> \<not> shields src dst q then None
     else tree_of dst q)"
proof -
  note src = planD(1) [OF p] and dst = planD(2) [OF p]
  define ks where "ks = directories p @ files p"
  have ks: "i \<in> set ks \<longleftrightarrow> i < length src \<and> (made src dst (src ! i) \<or> transferred opt src dst (src ! i))" for i
    unfolding ks_def planD(3) [OF p] set_append Un_iff planned_files planned_directories by blast
  then have sub: "set ks \<subseteq> {..<length src}" by auto
  have gone: "x \<in> set (removals p) \<longleftrightarrow> delete opt \<and> x \<in> set dst \<and> removed src dst x" for x
    unfolding planD(3) [OF p] by (rule planned_removals)
  have clash: "(\<exists>i \<in> set ks. conflicting src dst (src ! i) \<and> q \<in> e_path ` set (replaced dst (e_path (src ! i))))
      \<longleftrightarrow> q \<in> e_path ` set dst \<and> (\<exists>k \<in> set src. conflicting src dst k \<and> below q (e_path k))"
    using conflicting_planned [OF p] sub unfolding ks_def [symmetric]
    by (fastforce simp: replaced_def in_set_conv_nth [of _ src])
  have eq: "carry_out src p (tree_of dst) q =
     (if q \<in> e_path ` set (removals p) then None
      else if q \<in> (\<lambda>i. e_path (src ! i)) ` set ks then tree_of src q
      else if q \<in> e_path ` set dst \<and> (\<exists>k \<in> set src. conflicting src dst k \<and> below q (e_path k))
      then None else tree_of dst q)"
    unfolding carry_out_def clear_eq ks_def [symmetric] puts_eq [OF p sub] clash by (rule refl)
  have put: "q \<in> (\<lambda>i. e_path (src ! i)) ` set ks \<Longrightarrow> q \<in> e_path ` set src \<and> \<not> shielded src dst q"
    using ks by (auto simp: made_def transferred_def)
  have no_conflict: "\<not> (\<exists>k \<in> set src. conflicting src dst k \<and> below q (e_path k))"
    if "\<not> delete opt \<or> shields src dst q \<or> shielded src dst q"
  proof
    assume "\<exists>k \<in> set src. conflicting src dst k \<and> below q (e_path k)"
    then obtain k where k: "k \<in> set src" "conflicting src dst k" "below q (e_path k)" by blast
    from conflictingD [OF p k(1,2)] that show False
      using shields_below k(3) shielded_below [OF k(3)] by blast
  qed
  have untouched: "q \<notin> e_path ` set (removals p)"
    if "\<not> delete opt \<or> shields src dst q \<or> shielded src dst q \<or> q \<in> e_path ` set src"
    using that gone by (auto simp: removed_def)
  show ?thesis
  proof (cases "shielded src dst q")
    case True
    with no_conflict untouched put show ?thesis unfolding eq by auto
  next
    case sh: False
    show ?thesis
    proof (cases "q \<in> e_path ` set src")
      case True
      then obtain i where i: "i < length src" "q = e_path (src ! i)" by (auto simp: in_set_conv_nth)
      show ?thesis
      proof (cases "i \<in> set ks")
        case True
        with i sh untouched show ?thesis unfolding eq by auto
      next
        case False
        with ks i sh have kind: "\<not> made src dst (src ! i)" "\<not> transferred opt src dst (src ! i)" by auto
        have "e_kind (src ! i) \<noteq> Protected" using sh i by (auto simp: shielded_def)
        with kind sh i obtain x where isfile: "e_kind (src ! i) = File"
          and x: "x \<in> set dst" "e_path x = q" "same_file opt (src ! i) x"
          by (cases "e_kind (src ! i)") (auto simp: made_def transferred_def)
        have same: "tree_of dst q = tree_of src q"
          using tree_of_entry [OF dst x(1)] tree_of_entry [OF src, of "src ! i"] x i
            node_of_same [OF x(3) isfile] by simp
        have "\<not> (\<exists>k \<in> set src. conflicting src dst k \<and> below q (e_path k))"
        proof
          assume "\<exists>k \<in> set src. conflicting src dst k \<and> below q (e_path k)"
          then obtain k where k: "k \<in> set src" "conflicting src dst k" "below q (e_path k)" by blast
          have "x \<in> set (replaced dst (e_path k))" using x k(3) by (simp add: replaced_def)
          from replaced_not_source [OF src dst k(1,2) this] x(2) True have "q = e_path k" by simp
          then have "k = src ! i"
            by (intro manifest_ok_unique [OF src k(1)]) (use i in simp_all)
          moreover obtain y where y: "y \<in> set dst" "e_path y = e_path k" "e_kind y \<noteq> e_kind k"
            using k(2) by (auto simp: conflicting_def)
          moreover have "y = x"
            by (rule manifest_ok_unique [OF dst y(1) x(1)]) (use y(2) x(2) \<open>q = e_path k\<close> in simp)
          ultimately show False using x(3) isfile by (simp add: same_file_def)
        qed
        with untouched True same sh show ?thesis unfolding eq by auto
      qed
    next
      case False
      with put have np: "q \<notin> (\<lambda>i. e_path (src ! i)) ` set ks" by blast
      show ?thesis
      proof (cases "delete opt \<and> \<not> shields src dst q")
        case True
        have "q \<in> e_path ` set (removals p)"
          if "q \<in> e_path ` set dst" "\<not> (\<exists>k \<in> set src. conflicting src dst k \<and> below q (e_path k))"
        proof -
          from that(1) obtain x where x: "x \<in> set dst" "q = e_path x" by blast
          with that(2) False sh True have "removed src dst x" by (auto simp: removed_def)
          with gone True x show ?thesis by blast
        qed
        with np False sh True show ?thesis unfolding eq using tree_of_None [of dst q] by auto
      next
        case keep: False
        with no_conflict untouched np False sh show ?thesis unfolding eq by auto
      qed
    qed
  qed
qed

lemma planned_same:
  assumes m: "manifest_ok c m"
  shows "files (planned m m opt) = []" "removals (planned m m opt) = []"
    "conflicts (planned m m opt) = []" "e \<in> set m \<Longrightarrow> \<not> conflicting m m e"
proof -
  show no: "\<not> conflicting m m e" if "e \<in> set m" for e
    using that manifest_ok_unique [OF m] unfolding conflicting_def by metis
  have "\<not> transferred opt m m (m ! i)" if "i < length m" for i
    using that by (auto simp: transferred_def same_file_def intro!: bexI [of _ "m ! i"])
  then show "files (planned m m opt) = []"
    by (auto simp: planned_def Let_def filter_empty_conv)
  have "\<not> removed m m e" if "e \<in> set m" for e using that by (auto simp: removed_def)
  then show "removals (planned m m opt) = []" by (auto simp: planned_def Let_def filter_empty_conv)
  show "conflicts (planned m m opt) = []"
    using no by (auto simp: planned_def Let_def filter_empty_conv)
qed

section \<open>Properties\<close>

text \<open>C33: The plan is the specified one. Planning succeeds just when both manifests are valid and every
  type conflict may be resolved (deletion is enabled and nothing protected lies below it); then its
  operations, transfers, directories, removals and conflicts are those of \<open>planned\<close>, each given by a
  condition on the two manifests.\<close>

theorem plan_decided:
  "plan src dst opt = Inr p \<longleftrightarrow>
     manifest_ok (checksum opt) src \<and> manifest_ok (checksum opt) dst
     \<and> (\<forall>e \<in> set src. allowed opt src dst e) \<and> p = planned src dst opt"
  by (rule plan_Inr)

text \<open>C9: Carrying out a plan makes the destination equal to the source. At every path that is not at or
  below a protected object of either side, the result holds what the source holds; with deletion, what
  the source does not hold is gone, unless it contains something protected; without deletion it stays.
  At and below protected objects nothing changes.\<close>

theorem plan_converges:
  assumes "plan src dst opt = Inr p"
  shows "carry_out src p (tree_of dst) path =
    (if shielded src dst path then tree_of dst path
     else if tree_of src path \<noteq> None then tree_of src path
     else if delete opt \<and> \<not> shields src dst path then None
     else tree_of dst path)"
  unfolding carry_out_eq [OF assms] tree_of_None [of src path] by simp

text \<open>C28: Protected objects are safe. Nothing a plan transfers, makes, removes or replaces is at or below
  a protected object of either side, and nothing it removes or replaces contains one.\<close>

theorem protected_untouched:
  assumes "plan src dst opt = Inr p" "x \<in> set src \<union> set dst" "e_kind x = Protected"
  shows "(\<forall>i \<in> set (files p) \<union> set (directories p). i < length src \<and> \<not> below (e_path (src ! i)) (e_path x))
    \<and> (\<forall>e \<in> set (removals p). \<not> below (e_path e) (e_path x) \<and> \<not> below (e_path x) (e_path e))
    \<and> (\<forall>(path, es) \<in> set (conflicts p). \<forall>e \<in> set es. \<not> below (e_path e) (e_path x) \<and> \<not> below (e_path x) (e_path e))"
proof (intro conjI)
  note p = planD(3) [OF assms(1)]
  have sh: "shielded src dst q" if "below q (e_path x)" for q
    using assms(2,3) that unfolding shielded_def by blast
  have sp: "shields src dst q" if "below (e_path x) q" for q
    using assms(2,3) that unfolding shields_def by blast
  show "\<forall>i \<in> set (files p) \<union> set (directories p). i < length src \<and> \<not> below (e_path (src ! i)) (e_path x)"
    unfolding p ball_Un planned_files planned_directories
    by (auto simp: planned_files planned_directories transferred_def made_def dest: sh)
  show "\<forall>e \<in> set (removals p). \<not> below (e_path e) (e_path x) \<and> \<not> below (e_path x) (e_path e)"
    unfolding p using sh sp by (auto simp: planned_removals removed_def)
  have "\<not> below (e_path e) (e_path x) \<and> \<not> below (e_path x) (e_path e)"
    if "k \<in> set src" "conflicting src dst k" "e \<in> set (replaced dst (e_path k))" for k e
  proof -
    from that(3) have "below (e_path e) (e_path k)" by (simp add: replaced_def)
    with conflictingD(2,3) [OF assms(1) that(1,2)] sh sp show ?thesis
      using shielded_below shields_below by blast
  qed
  then show "\<forall>(path, es) \<in> set (conflicts p). \<forall>e \<in> set es. \<not> below (e_path e) (e_path x) \<and> \<not> below (e_path x) (e_path e)"
    unfolding p by (auto simp: planned_def Let_def)
qed

text \<open>Removals are complete and in order. What is removed with a directory is the whole part of the
  destination below it, and an entry is removed before the directories above it, so that each directory
  is empty of known entries when its turn comes. The same order holds inside every conflict.\<close>

theorem removals_in_order:
  assumes "plan src dst opt = Inr p"
  shows "(\<forall>e \<in> set (removals p). \<forall>y \<in> set dst. below (e_path y) (e_path e) \<longrightarrow> y \<in> set (removals p))
    \<and> sorted_wrt (\<lambda>x y. \<not> below (e_path y) (e_path x)) (removals p)
    \<and> (\<forall>(path, es) \<in> set (conflicts p). sorted_wrt (\<lambda>x y. \<not> below (e_path y) (e_path x)) es)"
proof (intro conjI)
  note p = planD(3) [OF assms] and srt = manifest_ok_sorted [OF planD(2) [OF assms]]
  show "\<forall>e \<in> set (removals p). \<forall>y \<in> set dst. below (e_path y) (e_path e) \<longrightarrow> y \<in> set (removals p)"
    unfolding p planned_removals using removed_closed [OF planD(1) [OF assms]] planned_removals by blast
  have rev: "sorted_wrt (\<lambda>x y. \<not> below (e_path y) (e_path x)) (rev (filter P dst))" for P
    unfolding sorted_wrt_iff_nth_less using reversed_deepest_first [OF srt] by blast
  show "sorted_wrt (\<lambda>x y. \<not> below (e_path y) (e_path x)) (removals p)"
    using rev by (simp add: p planned_def Let_def)
  show "\<forall>(path, es) \<in> set (conflicts p). sorted_wrt (\<lambda>x y. \<not> below (e_path y) (e_path x)) es"
    using rev by (auto simp: p planned_def Let_def replaced_def)
qed

text \<open>Synchronizing a second time does nothing: planning a valid manifest against itself never
  fails, whatever the options, and transfers, removes and replaces nothing.\<close>

theorem plan_idempotent:
  assumes "manifest_ok (checksum opt) m"
  shows "\<exists>p. plan m m opt = Inr p \<and> files p = [] \<and> removals p = [] \<and> conflicts p = []
    \<and> (\<forall>x \<in> set (operations p). o_action x = Skip)"
proof -
  have "allowed opt m m e" if "e \<in> set m" for e
    using planned_same(4) [OF assms that] by (simp add: allowed_def)
  then have "plan m m opt = Inr (planned m m opt)"
    using assms by (simp add: plan_Inr)
  moreover have "action_of opt m m e = Skip" if "e \<in> set m" for e
    using planned_same(4) [OF assms that] that
    by (auto simp: action_of_def transferred_def same_file_def Let_def)
  then have "\<forall>x \<in> set (operations (planned m m opt)). o_action x = Skip"
    using planned_same(2) [OF assms, of opt] by (auto simp: planned_def Let_def)
  ultimately show ?thesis using planned_same [OF assms] by blast
qed

section \<open>Witnesses\<close>

text \<open>A source with a directory and a file, a destination with a stale file and a protected object.\<close>

definition stale :: entry where
  "stale = \<lparr>e_path = ascii ''old'', e_kind = File, e_size = 1, e_mtime = 5, e_ns = 0, e_hash = None\<rparr>"

definition socket :: entry where
  "socket = \<lparr>e_path = ascii ''sock'', e_kind = Protected, e_size = 0, e_mtime = 5, e_ns = 0, e_hash = None\<rparr>"

definition with_delete :: options where
  "with_delete = \<lparr>delete = True, checksum = False, dry_run = False\<rparr>"

lemmas sample_defs = sample_dir_def sample_file_def stale_def socket_def with_delete_def

lemma sample_plan:
  "plan [sample_dir, sample_file] [stale, socket] with_delete =
     Inr (planned [sample_dir, sample_file] [stale, socket] with_delete)"
proof -
  have "validate_manifest False [stale, socket] = Inr ()"
    by (simp add: validate_manifest_def validate_entry_def sample_defs validate_def
      bad_component_def reserved_def reserved_prefix_def starts_with_def ascii_def dot_def dotdot_def
      MAX_ENTRIES_def MAX_PATH_def MAX_FILE_def bt_last_def bt_get_def rsplit_once_def list_less_def
      list_le_def)
  then have "manifest_ok False [stale, socket]" "manifest_ok False [sample_dir, sample_file]"
    using sample_valid by (simp_all add: validate_manifest_iff)
  moreover have "allowed with_delete [sample_dir, sample_file] [stale, socket] e"
    if "e \<in> set [sample_dir, sample_file]" for e
    using that by (auto simp: allowed_def conflicting_def sample_defs ascii_def)
  ultimately show ?thesis by (simp add: plan_Inr) (simp add: with_delete_def)
qed

lemma plan_converges_witness:
  "carry_out [sample_dir, sample_file] (planned [sample_dir, sample_file] [stale, socket] with_delete)
     (tree_of [stale, socket]) (ascii ''old'') = None"
  unfolding plan_converges [OF sample_plan]
  by (simp add: shielded_def shields_def tree_of_def sample_defs below_iff ascii_def)

lemma protected_untouched_witness:
  "socket \<notin> set (removals (planned [sample_dir, sample_file] [stale, socket] with_delete))"
  using protected_untouched [OF sample_plan, of socket] by (auto simp: socket_def)

lemma removals_in_order_witness:
  "sample_file \<in> set (removals (planned [] [sample_dir, sample_file] with_delete))"
proof -
  have "manifest_ok False [sample_dir, sample_file]" using sample_valid by (simp add: validate_manifest_iff)
  moreover have "manifest_ok False []" by (simp add: manifest_ok_def)
  ultimately have p: "plan [] [sample_dir, sample_file] with_delete = Inr (planned [] [sample_dir, sample_file] with_delete)"
    by (simp add: plan_Inr) (simp add: with_delete_def)
  have "sample_dir \<in> set (removals (planned [] [sample_dir, sample_file] with_delete))"
    by (simp add: planned_removals removed_def shielded_def shields_def sample_defs)
  moreover have "below (e_path sample_file) (e_path sample_dir)"
    by (simp add: below_iff sample_defs ascii_def)
  ultimately show ?thesis using removals_in_order [OF p] by auto
qed

lemma plan_idempotent_witness:
  "\<exists>p. plan [sample_dir, sample_file] [sample_dir, sample_file] with_delete = Inr p \<and> removals p = []"
  using plan_idempotent [of with_delete "[sample_dir, sample_file]"] sample_valid
  by (auto simp: validate_manifest_iff with_delete_def)

lemma plan_decided_witness: "\<exists>p. plan [sample_dir] [] with_delete = Inr p \<and> directories p = [0]"
proof -
  have "manifest_ok False [sample_dir]" "manifest_ok False []"
    using sample_valid by (auto simp: validate_manifest_iff manifest_ok_def parent_in_def sample_dir_def
        rsplit_once_def ascii_def)
  then have "plan [sample_dir] [] with_delete = Inr (planned [sample_dir] [] with_delete)"
    unfolding plan_decided
    by (simp add: with_delete_def allowed_def conflicting_def)
  then show ?thesis
    by (simp add: planned_def made_def shielded_def sample_dir_def)
qed

end
