(* ===== verification/Sync_Ops.thy ===== *)
theory Sync_Ops
  imports Root_Ops Planning
begin

text \<open>
  The operations of \<open>src/sync.rs\<close> on a file system: the scan that turns a directory into a manifest
  and a map of stamps, and the steps that carry a plan out. The recursion of \<open>walk\<close> is bounded by the
  nesting limit it checks; its fuel is that bound (\<open>walk_total\<close>).
\<close>

section \<open>Scanning\<close>

record scan_result =
  sc_entries :: manifest
  sc_stamps :: "(str, stamp) btree"

definition child_path :: "str \<Rightarrow> str \<Rightarrow> str" where
  "child_path path name = (if path = [] then name else path @ slash # name)"

definition child_kind :: "str \<Rightarrow> metadata \<Rightarrow> kind" where
  "child_kind child m =
     (if starts_with reserved_prefix (last (components child)) then Protected
      else if m_type m = Regular then File
      else if m_type m = Dir then Directory
      else Protected)"

definition child_hash ::
  "'w os \<Rightarrow> (byte list \<Rightarrow> hash) \<Rightarrow> root \<Rightarrow> bool \<Rightarrow> str \<Rightarrow> kind \<Rightarrow> stamp \<Rightarrow> ('w, hash option) io" where
  "child_hash os sha r cks child k st =
     (if k = File \<and> cks then
        bindI (open_file os r child) (\<lambda>f.
        bindI (hash_file os sha f) (\<lambda>h.
        bindI (sysI (os_metadata os f)) (\<lambda>m.
          if stamp_of m \<noteq> st then failI (Changed child) else returnI (Some h))))
      else returnI None)"

definition child_entry :: "str \<Rightarrow> metadata \<Rightarrow> hash option \<Rightarrow> entry" where
  "child_entry child m h =
     (let k = child_kind child m in
      \<lparr>e_path = child, e_kind = k, e_size = (if k = File then m_len m else 0),
       e_mtime = m_mtime m, e_ns = ucast (m_mtime_ns m), e_hash = h\<rparr>)"

definition push_child :: "entry \<Rightarrow> stamp \<Rightarrow> scan_result \<Rightarrow> scan_result" where
  "push_child e st res =
     \<lparr>sc_entries = sc_entries res @ [e], sc_stamps = bt_insert (e_path e) st (sc_stamps res)\<rparr>"

text \<open>The body of the loop of \<open>walk\<close>; \<open>rec\<close> is the recursive call.\<close>

definition walk_child ::
  "'w os \<Rightarrow> (byte list \<Rightarrow> hash) \<Rightarrow> root \<Rightarrow> bool \<Rightarrow> (str \<Rightarrow> scan_result \<Rightarrow> ('w, scan_result) io)
     \<Rightarrow> str \<Rightarrow> str \<times> metadata \<Rightarrow> scan_result \<Rightarrow> ('w, scan_result) io" where
  "walk_child os sha r cks rec path item res =
     (let (name, m) = item; child = child_path path name in
      bindI (liftI (validate child)) (\<lambda>_.
        let k = child_kind child m; st = stamp_of m in
        bindI (child_hash os sha r cks child k st) (\<lambda>h.
          let res = push_child (child_entry child m h) st res
          in if MAX_ENTRIES < length (sc_entries res) then failI (Protocol (ascii ''manifest entry limit''))
             else if k = Directory then rec child res
             else returnI res)))"

fun walk ::
  "'w os \<Rightarrow> (byte list \<Rightarrow> hash) \<Rightarrow> root \<Rightarrow> bool \<Rightarrow> nat \<Rightarrow> str \<Rightarrow> scan_result \<Rightarrow> ('w, scan_result) io" where
  "walk os sha r cks 0 path res = divergeI"
| "walk os sha r cks (Suc n) path res =
     (if 128 < length (components path) then failI (Protocol (ascii ''directory nesting exceeds 128''))
      else bindI (metadata os r path) (\<lambda>before.
           bindI (children os r path) (\<lambda>items.
           bindI (foldI (walk_child os sha r cks (walk os sha r cks n) path) items res) (\<lambda>res.
           bindI (metadata os r path) (\<lambda>m.
             if stamp_of m \<noteq> stamp_of before then failI (Changed path) else returnI res)))))"

definition scan_root :: "'w os \<Rightarrow> (byte list \<Rightarrow> hash) \<Rightarrow> root \<Rightarrow> bool \<Rightarrow> ('w, scan_result) io" where
  "scan_root os sha r cks =
     bindI (exists_path os r []) (\<lambda>there.
       if \<not> there then returnI \<lparr>sc_entries = [], sc_stamps = []\<rparr>
       else bindI (walk os sha r cks 130 [] \<lparr>sc_entries = [], sc_stamps = []\<rparr>) (\<lambda>res.
            bindI (metadata os r []) (\<lambda>m.
              let res = \<lparr>sc_entries = sort_key e_path (sc_entries res),
                         sc_stamps = bt_insert [] (stamp_of m) (sc_stamps res)\<rparr>
              in bindI (liftI (validate_manifest cks (sc_entries res))) (\<lambda>_. returnI res))))"

section \<open>Carrying a plan out\<close>

definition ensure_unchanged :: "'w os \<Rightarrow> root \<Rightarrow> str \<Rightarrow> stamp \<Rightarrow> ('w, unit) io" where
  "ensure_unchanged os r path st =
     bindI (metadata os r path) (\<lambda>m. if stamp_of m \<noteq> st then failI (Changed path) else returnI ())"

definition entry_matches :: "entry \<Rightarrow> metadata \<Rightarrow> bool" where
  "entry_matches e m =
     (case e_kind e of
        File \<Rightarrow> m_type m = Regular \<and> m_len m = e_size e \<and> m_mtime m = e_mtime e
                \<and> m_mtime_ns m = ucast (e_ns e)
      | Directory \<Rightarrow> m_type m = Dir
      | Protected \<Rightarrow> False)"

definition check_entry :: "'w os \<Rightarrow> root \<Rightarrow> entry \<Rightarrow> ('w, unit) io" where
  "check_entry os r e =
     bindI (metadata os r (e_path e)) (\<lambda>m.
       if \<not> entry_matches e m then failI (Changed (e_path e)) else returnI ())"

definition remove_entry :: "'w os \<Rightarrow> root \<Rightarrow> entry \<Rightarrow> ('w, unit) io" where
  "remove_entry os r old = remove os r (e_path old) (e_kind old = Directory)"

text \<open>The objects a conflict lists, each checked and removed before the next.\<close>

definition clear_conflict :: "'w os \<Rightarrow> root \<Rightarrow> sync_plan \<Rightarrow> str \<Rightarrow> ('w, unit) io" where
  "clear_conflict os r p path =
     (case bt_get (conflicts p) path of
        None \<Rightarrow> returnI ()
      | Some entries \<Rightarrow>
          eachI (\<lambda>old. bindI (check_entry os r old) (\<lambda>_. remove_entry os r old)) entries)"

definition prepare :: "'w os \<Rightarrow> root \<Rightarrow> manifest \<Rightarrow> sync_plan \<Rightarrow> ('w, unit) io" where
  "prepare os r src p =
     bindI (mkdir os r []) (\<lambda>_.
       eachI (\<lambda>index.
         bindI (indexI src index) (\<lambda>e.
         bindI (clear_conflict os r p (e_path e)) (\<lambda>_.
           mkdir os r (e_path e)))) (directories p))"

text \<open>A failure after staging drops the staged file; \<open>commit\<close> drops it itself.\<close>

definition install ::
  "'w os \<Rightarrow> (byte list \<Rightarrow> hash) \<Rightarrow> root \<Rightarrow> entry \<Rightarrow> manifest \<Rightarrow> sync_plan \<Rightarrow> fd \<Rightarrow> ('w, unit) io" where
  "install os sha r e dst p f =
     bindI (stage os sha r (e_path e) (File_reader f) (e_size e) (e_hash e) (e_mtime e) (e_ns e)) (\<lambda>staged.
     bindI (on_failI
       (bindI (case find (\<lambda>x. e_path x = e_path e) dst of
                 Some old \<Rightarrow> check_entry os r old
               | None \<Rightarrow> bindI (exists_path os r (e_path e)) (\<lambda>there.
                   if there then failI (Changed (e_path e)) else returnI ())) (\<lambda>_.
          clear_conflict os r p (e_path e)))
       (drop_staged os staged)) (\<lambda>_.
       commit os staged))"

definition finish :: "'w os \<Rightarrow> root \<Rightarrow> manifest \<Rightarrow> sync_plan \<Rightarrow> ('w, unit) io" where
  "finish os r src p =
     bindI (eachI (check_entry os r) (removals p)) (\<lambda>_.
     bindI (eachI (remove_entry os r) (removals p)) (\<lambda>_.
       eachI (\<lambda>index. bindI (indexI src index) (\<lambda>e. set_path_mtime os r (e_path e) (e_mtime e) (e_ns e)))
         (rev (directories p))))"

section \<open>What a scan returns\<close>

text \<open>The map of stamps has one stamp per entry, taken from the same metadata.\<close>

definition stamped :: "entry \<Rightarrow> str \<times> stamp \<Rightarrow> bool" where
  "stamped e kv \<longleftrightarrow> fst kv = e_path e \<and> (e_kind e = File \<longrightarrow> st_size (snd kv) = e_size e)"

definition walk_inv :: "scan_result \<Rightarrow> bool" where
  "walk_inv res \<longleftrightarrow>
     (\<exists>kvs. list_all2 stamped (sc_entries res) kvs \<and> sc_stamps res = bt_collect kvs)"

lemma walk_inv_push:
  assumes "walk_inv res" "stamped e (e_path e, st)"
  shows "walk_inv (push_child e st res)"
proof -
  obtain kvs where "list_all2 stamped (sc_entries res) kvs" "sc_stamps res = bt_collect kvs"
    using assms(1) by (auto simp: walk_inv_def)
  with assms(2) show ?thesis
    unfolding walk_inv_def by (intro exI [of _ "kvs @ [(e_path e, st)]"])
      (simp add: list_all2_appendI bt_collect_def push_child_def)
qed

lemma stamped_child: "stamped (child_entry child m h) (child, stamp_of m)"
  by (simp add: stamped_def child_entry_def stamp_of_def Let_def)

lemma walk_child_inv:
  assumes rec: "\<And>c res w res' w'. rec c res w = (Inr res', w') \<Longrightarrow> walk_inv res \<Longrightarrow> walk_inv res'"
    and run: "walk_child os sha r cks rec path item res w = (Inr res', w')" and inv: "walk_inv res"
  shows "walk_inv res'"
proof -
  obtain name m where item: "item = (name, m)" by (cases item)
  let ?c = "child_path path name"
  have push: "walk_inv (push_child (child_entry ?c m h) (stamp_of m) res)" for h
    using walk_inv_push [OF inv, of "child_entry ?c m h" "stamp_of m"] stamped_child [of ?c m h]
    by (simp add: child_entry_def Let_def)
  from run obtain h w1 where
    "(if child_kind ?c m = Directory then rec ?c (push_child (child_entry ?c m h) (stamp_of m) res)
      else returnI (push_child (child_entry ?c m h) (stamp_of m) res)) w1 = (Inr res', w')"
    unfolding walk_child_def item Let_def prod.case bindI_Inr if_fail_Inr by blast
  with push rec show ?thesis by (cases "child_kind ?c m = Directory") auto
qed

lemma walk_walk_inv:
  "walk os sha r cks n path res w = (Inr res', w') \<Longrightarrow> walk_inv res \<Longrightarrow> walk_inv res'"
proof (induction n arbitrary: path res w res' w')
  case (Suc n)
  from Suc.prems(1) obtain items w1 w2 where
    fold: "foldI (walk_child os sha r cks (walk os sha r cks n) path) items res w1 = (Inr res', w2)"
    unfolding walk.simps bindI_Inr if_fail_Inr run_io by auto
  show ?case
  proof (rule foldI_invariant [OF fold, where P = "\<lambda>_. walk_inv"])
    show "walk_inv res" by (rule Suc.prems(2))
    show "walk_inv v" if "walk_inv u" "walk_child os sha r cks (walk os sha r cks n) path x u w1 = (Inr v, w2)"
      for x u v w1 w2
      by (rule walk_child_inv [OF _ that(2,1)]) (rule Suc.IH)
  qed
qed simp

definition scan_ok :: "bool \<Rightarrow> scan_result \<Rightarrow> bool" where
  "scan_ok cks res \<longleftrightarrow>
     manifest_ok cks (sc_entries res)
     \<and> (\<forall>e \<in> set (sc_entries res). \<exists>st. bt_get (sc_stamps res) (e_path e) = Some st
           \<and> (e_kind e = File \<longrightarrow> st_size st = e_size e))"

lemma walk_inv_scan_ok:
  assumes inv: "walk_inv res" and ok: "manifest_ok cks es" and perm: "es = sort_key e_path (sc_entries res)"
  shows "scan_ok cks \<lparr>sc_entries = es, sc_stamps = bt_insert [] st0 (sc_stamps res)\<rparr>"
  unfolding scan_ok_def
proof (intro conjI ballI)
  obtain kvs where kvs: "list_all2 stamped (sc_entries res) kvs" "sc_stamps res = bt_collect kvs"
    using inv by (auto simp: walk_inv_def)
  have keys: "map fst kvs = map e_path (sc_entries res)"
    using kvs(1) by (induction rule: list_all2_induct) (auto simp: stamped_def)
  have "distinct (map e_path es)" by (rule manifest_ok_distinct [OF ok])
  moreover have "distinct (map e_path es) \<longleftrightarrow> distinct (map e_path (sc_entries res))"
    unfolding perm by (metis distinct_map distinct_sort set_sort)
  ultimately have dist: "distinct (map fst kvs)" by (simp add: keys)
  show "manifest_ok cks (sc_entries \<lparr>sc_entries = es, sc_stamps = bt_insert [] st0 (sc_stamps res)\<rparr>)"
    using ok by simp
  fix e assume "e \<in> set (sc_entries \<lparr>sc_entries = es, sc_stamps = bt_insert [] st0 (sc_stamps res)\<rparr>)"
  then have e: "e \<in> set es" "e \<in> set (sc_entries res)" by (simp_all add: perm)
  then obtain i where i: "i < length (sc_entries res)" "e = sc_entries res ! i"
    by (auto simp: in_set_conv_nth)
  then have len: "i < length kvs" and st: "stamped e (kvs ! i)"
    using kvs(1) by (auto simp: list_all2_conv_all_nth)
  then have "(e_path e, snd (kvs ! i)) \<in> set kvs"
    by (metis nth_mem prod.collapse stamped_def)
  then have "bt_get (sc_stamps res) (e_path e) = Some (snd (kvs ! i))"
    unfolding kvs(2) bt_get_collect [OF dist] using dist by simp
  moreover have "bt_inv (sc_stamps res)" unfolding kvs(2) bt_collect_eq by (rule bt.inv_collect)
  moreover have "e_path e \<noteq> []"
    using manifest_ok_entry [OF ok e(1)] by (simp add: entry_ok_def valid_path_iff)
  ultimately show "\<exists>st. bt_get (sc_stamps \<lparr>sc_entries = es, sc_stamps = bt_insert [] st0 (sc_stamps res)\<rparr>) (e_path e) = Some st
      \<and> (e_kind e = File \<longrightarrow> st_size st = e_size e)"
    using st by (simp add: bt.get_insert stamped_def)
qed

lemma scan_root_ok:
  assumes "scan_root os sha r cks w = (Inr res, w')"
  shows "scan_ok cks res"
proof -
  have empty: "walk_inv \<lparr>sc_entries = [], sc_stamps = []\<rparr>"
    by (auto simp: walk_inv_def bt_collect_def)
  from assms consider "res = \<lparr>sc_entries = [], sc_stamps = []\<rparr>"
    | res0 w1 w2 m where "walk os sha r cks 130 [] \<lparr>sc_entries = [], sc_stamps = []\<rparr> w1 = (Inr res0, w2)"
      "res = \<lparr>sc_entries = sort_key e_path (sc_entries res0),
              sc_stamps = bt_insert [] (stamp_of m) (sc_stamps res0)\<rparr>"
      "validate_manifest cks (sc_entries res) = Inr ()"
    by (auto simp: scan_root_def io_simps Let_def split: if_splits)
  then show ?thesis
  proof cases
    case 1
    then show ?thesis by (simp add: scan_ok_def manifest_ok_def)
  next
    case 2
    from walk_inv_scan_ok [OF walk_walk_inv [OF 2(1) empty] _ refl, of cks "stamp_of m"] 2(2,3)
    show ?thesis by (simp add: validate_manifest_iff)
  qed
qed

section \<open>Reading, panics, termination\<close>

lemma keeps_scan [keeps_rules]:
  assumes r: "reads_keep os view"
  shows "keeps view (scan_root os sha r cks)"
proof -
  have child: "keeps view (walk_child os sha r cks rec path item res)"
    if "\<And>c res. keeps view (rec c res)" for rec path item res
    using that r
    by (auto simp: walk_child_def child_hash_def Let_def intro!: keeps_rules keeps_reads split: prod.split)
  have "keeps view (walk os sha r cks n path res)" for n path res
    by (induction n arbitrary: path res) (auto intro!: keeps_rules child r)
  then show ?thesis
    using r by (auto simp: scan_root_def Let_def intro!: keeps_rules)
qed

lemma keeps_checks [keeps_rules]:
  assumes "reads_keep os view"
  shows "keeps view (ensure_unchanged os r path st)" "keeps view (check_entry os r e)"
  using assms by (auto simp: ensure_unchanged_def check_entry_def intro!: keeps_rules)

lemma never_checks [never_rules]:
  assumes "fault f"
  shows "never f (ensure_unchanged os r path st)" "never f (check_entry os r e)"
    "never f (remove_entry os r e)" "never f (clear_conflict os r p path)"
  using assms
  by (auto simp: ensure_unchanged_def check_entry_def remove_entry_def clear_conflict_def
      intro!: never_rules)

lemma safe_scan [never_rules]: "safe (scan_root os sha r cks)"
proof -
  have child: "safe (walk_child os sha r cks rec path item res)"
    if "\<And>c res. safe (rec c res)" for rec path item res
    using that
    by (auto simp: walk_child_def child_hash_def Let_def intro!: never_rules split: prod.split)
  have "safe (walk os sha r cks n path res)" for n path res
    by (induction n arbitrary: path res) (auto intro!: never_rules child)
  then show ?thesis by (auto simp: scan_root_def Let_def intro!: never_rules)
qed

lemma never_carry_out [never_rules]:
  assumes "fault f" and p: "\<And>i. i \<in> set (directories p) \<Longrightarrow> i < length src"
  shows "never f (prepare os r src p)" "never f (finish os r src p)"
  using assms
  by (auto simp: prepare_def finish_def intro!: never_rules split: option.split)

lemma never_install [never_rules]: "fault f \<Longrightarrow> never f (install os sha r e dst p fl)"
  by (auto simp: install_def intro!: never_rules split: option.split)

text \<open>The fuel of the walk is enough: only a file that does not end keeps a scan from ending.\<close>

lemma components_child:
  "path \<noteq> [] \<Longrightarrow> length (components path) < length (components (child_path path name))"
  by (simp add: child_path_def split_on_append_sep)

lemma walk_total:
  assumes h: "\<And>f. cks \<Longrightarrow> total (hash_file os sha f)"
  shows "(if path = [] then 130 \<le> n else 130 \<le> n + length (components path) \<and> length (components path) \<le> 128)
    \<Longrightarrow> total (walk os sha r cks n path res)"
proof (induction n arbitrary: path res)
  case 0
  then show ?case by (auto split: if_splits)
next
  case (Suc n)
  have child: "total (walk_child os sha r cks (walk os sha r cks n) path item res)" for item res
  proof -
    obtain name m where item: "item = (name, m)" by (cases item)
    let ?c = "child_path path name"
    have rec: "total (walk os sha r cks n ?c res)" if "validate ?c = Inr ()" for res
    proof (rule Suc.IH)
      have "?c \<noteq> []" "length (components ?c) \<le> 128"
        using that by (auto simp: validate_def split: if_splits)
      moreover have "130 \<le> n + length (components ?c)"
      proof (cases "path = []")
        case True
        then have "129 \<le> n" using Suc.prems by simp
        moreover have "0 < length (components ?c)" by simp
        ultimately show ?thesis by linarith
      next
        case False
        then show ?thesis using Suc.prems components_child [of path name] by simp
      qed
      ultimately show "if ?c = [] then 130 \<le> n
          else 130 \<le> n + length (components ?c) \<and> length (components ?c) \<le> 128" by simp
    qed
    have valid: "ensures (liftI (validate ?c)) (\<lambda>_. validate ?c = Inr ())"
      by (auto simp: ensures_def)
    have "total (child_hash os sha r cks ?c k st)" for k st
      using h by (auto simp: child_hash_def intro!: never_rules)
    then show ?thesis
      unfolding walk_child_def item Let_def prod.case
      by (intro never_bind [OF _ valid] never_rules) (auto intro: rec)
  qed
  show ?case by (auto intro!: never_rules child)
qed

lemma scan_total:
  assumes "\<And>f. cks \<Longrightarrow> total (hash_file os sha f)"
  shows "total (scan_root os sha r cks)"
  using walk_total [of cks os sha "[]" 130, OF assms]
  by (auto simp: scan_root_def Let_def intro!: never_rules)

section \<open>Properties\<close>

text \<open>C36: What a scan returns is well formed. Its entries are a valid manifest of the requested kind (sorted,
  unique, every parent a directory, sizes and hashes as the kind demands), and each entry has a stamp, the
  one of a file with exactly the size the manifest announces; later operations rely on both.\<close>

theorem scan_typed:
  assumes "scan_root os sha r cks w = (Inr res, w')"
  shows "manifest_ok cks (sc_entries res)
    \<and> (\<forall>e. e \<in> set (sc_entries res) \<longrightarrow> (\<exists>st. bt_get (sc_stamps res) (e_path e) = Some st
          \<and> (e_kind e = File \<longrightarrow> st_size st = e_size e)))"
  using scan_root_ok [OF assms] by (auto simp: scan_ok_def)



end
