(* ===== verification/Wire.thy ===== *)
theory Wire
  imports Paths
begin

text \<open>
  The primitives of the binary codec (\<open>src/protocol.rs\<close>, \<open>Reader\<close> and \<open>Writer\<close>): big-endian
  integers, length-prefixed strings, and reads that fail on truncated input. A reader is the
  remaining input; a writer is the buffer built so far.

  The locale \<open>field_codec\<close> is the contract every field satisfies: what was written is read back,
  and what can be read is exactly what would be written. Its lemmas lift the contract to
  repeated fields; the interpretations below and in the message theories instantiate it.
\<close>

section \<open>Big-endian integers\<close>

fun be_nat :: "nat \<Rightarrow> nat \<Rightarrow> byte list" where
  "be_nat 0 v = []"
| "be_nat (Suc n) v = be_nat n (v div 256) @ [word_of_nat (v mod 256)]"

lemma be_nat_numeral:
  "be_nat (numeral k) v = be_nat (pred_numeral k) (v div 256) @ [word_of_nat (v mod 256)]"
  unfolding numeral_eq_Suc [of k] by (rule be_nat.simps(2))

definition of_be :: "byte list \<Rightarrow> nat" where
  "of_be bs = foldl (\<lambda>a b. 256 * a + unat b) 0 bs"

lemma length_be_nat [simp]: "length (be_nat n v) = n"
  by (induction n arbitrary: v) auto

lemma of_be_Nil [simp]: "of_be [] = 0"
  by (simp add: of_be_def)

lemma of_be_snoc [simp]: "of_be (bs @ [b]) = 256 * of_be bs + unat b"
  by (simp add: of_be_def)

lemma unat_byte_less: "unat (b :: byte) < 256"
  using unsigned_less [of b] by simp

lemma of_be_less: "of_be bs < 256 ^ length bs"
proof (induction bs rule: rev_induct)
  case (snoc b bs)
  then have "256 * of_be bs + 256 \<le> 256 * 256 ^ length bs"
    by (metis Suc_leI mult_Suc_right mult_le_mono2 add.commute)
  with unat_byte_less [of b] show ?case by simp
qed simp

lemma of_be_be_nat: "v < 256 ^ n \<Longrightarrow> of_be (be_nat n v) = v"
proof (induction n arbitrary: v)
  case (Suc n)
  then have "v div 256 < 256 ^ n" by (simp add: less_mult_imp_div_less)
  with Suc.IH show ?case by (simp add: unat_of_nat)
qed simp

lemma be_nat_of_be: "be_nat (length bs) (of_be bs) = bs"
proof (induction bs rule: rev_induct)
  case (snoc b bs)
  have "(256 * of_be bs + unat b) div 256 = of_be bs" "(256 * of_be bs + unat b) mod 256 = unat b"
    using unat_byte_less [of b] by simp_all
  with snoc show ?case by simp
qed simp

lemma be_nat_of_be_n: "length bs = n \<Longrightarrow> be_nat n (of_be bs) = bs"
  using be_nat_of_be by blast

definition be16 :: "16 word \<Rightarrow> byte list" where "be16 v = be_nat 2 (unat v)"
definition be32 :: "u32 \<Rightarrow> byte list" where "be32 v = be_nat 4 (unat v)"
definition be64 :: "u64 \<Rightarrow> byte list" where "be64 v = be_nat 8 (unat v)"
definition be_ident :: "ident \<Rightarrow> byte list" where "be_ident v = be_nat 16 (unat v)"
definition be_hash :: "hash \<Rightarrow> byte list" where "be_hash v = be_nat 32 (unat v)"

definition from_be16 :: "byte list \<Rightarrow> 16 word" where "from_be16 bs = word_of_nat (of_be bs)"
definition from_be32 :: "byte list \<Rightarrow> u32" where "from_be32 bs = word_of_nat (of_be bs)"
definition from_be64 :: "byte list \<Rightarrow> u64" where "from_be64 bs = word_of_nat (of_be bs)"
definition from_be_ident :: "byte list \<Rightarrow> ident" where "from_be_ident bs = word_of_nat (of_be bs)"
definition from_be_hash :: "byte list \<Rightarrow> hash" where "from_be_hash bs = word_of_nat (of_be bs)"

lemma length_be [simp]:
  "length (be16 v2) = 2" "length (be32 v4) = 4" "length (be64 v8) = 8"
  "length (be_ident v16) = 16" "length (be_hash v32) = 32"
  by (simp_all add: be16_def be32_def be64_def be_ident_def be_hash_def)

text \<open>A word of \<open>8 * n\<close> bits and its \<open>n\<close> big-endian bytes determine each other.\<close>

lemma word_be:
  fixes w :: "'a::len word"
  assumes "LENGTH('a) = 8 * n"
  shows "word_of_nat (of_be (be_nat n (unat w))) = w"
proof -
  have "unat w < 256 ^ n"
    using unsigned_less [of w] assms by (simp add: power_mult)
  then show ?thesis by (simp add: of_be_be_nat)
qed

lemma be_word:
  fixes dummy :: "'a::len word"
  assumes "LENGTH('a) = 8 * n" "length bs = n"
  shows "be_nat n (unat (word_of_nat (of_be bs) :: 'a word)) = bs"
proof -
  have "of_be bs < 2 ^ LENGTH('a)"
    using of_be_less [of bs] assms by (simp add: power_mult)
  then have "unat (word_of_nat (of_be bs) :: 'a word) = of_be bs"
    by (simp add: unat_of_nat)
  with assms show ?thesis by (simp add: be_nat_of_be_n)
qed

lemma from_be_be [simp]:
  "from_be16 (be16 v2) = v2" "from_be32 (be32 v4) = v4" "from_be64 (be64 v8) = v8"
  "from_be_ident (be_ident v16) = v16" "from_be_hash (be_hash v32) = v32"
  by (simp_all add: from_be16_def be16_def from_be32_def be32_def from_be64_def be64_def
      from_be_ident_def be_ident_def from_be_hash_def be_hash_def word_be)

lemma be_inj [simp]:
  "be16 v2 = be16 w2 \<longleftrightarrow> v2 = w2" "be32 v4 = be32 w4 \<longleftrightarrow> v4 = w4" "be64 v8 = be64 w8 \<longleftrightarrow> v8 = w8"
  "be_ident v16 = be_ident w16 \<longleftrightarrow> v16 = w16" "be_hash v32 = be_hash w32 \<longleftrightarrow> v32 = w32"
  by (metis from_be_be)+

lemma be_from_be:
  "length bs = 2 \<Longrightarrow> be16 (from_be16 bs) = bs"
  "length bs = 4 \<Longrightarrow> be32 (from_be32 bs) = bs"
  "length bs = 8 \<Longrightarrow> be64 (from_be64 bs) = bs"
  "length bs = 16 \<Longrightarrow> be_ident (from_be_ident bs) = bs"
  "length bs = 32 \<Longrightarrow> be_hash (from_be_hash bs) = bs"
  by (simp_all add: from_be16_def be16_def from_be32_def be32_def from_be64_def be64_def
      from_be_ident_def be_ident_def from_be_hash_def be_hash_def be_word)

section \<open>The reader\<close>

type_synonym 'a parser = "byte list \<Rightarrow> ('a \<times> byte list) res"

definition take_bytes :: "nat \<Rightarrow> byte list parser" where
  "take_bytes n r =
     (if length r < n then Inl (Protocol (ascii ''truncated message''))
      else Inr (take n r, drop n r))"

definition read_u8 :: "byte parser" where
  "read_u8 r = bindR (take_bytes 1 r) (\<lambda>(b, r). Inr (hd b, r))"

definition read_boolean :: "bool parser" where
  "read_boolean r =
     bindR (read_u8 r) (\<lambda>(b, r).
       if b = 0 then Inr (False, r)
       else if b = 1 then Inr (True, r)
       else Inl (Protocol (ascii ''invalid boolean'')))"

definition read_u32 :: "u32 parser" where
  "read_u32 r = bindR (take_bytes 4 r) (\<lambda>(b, r). Inr (from_be32 b, r))"

definition read_u64 :: "u64 parser" where
  "read_u64 r = bindR (take_bytes 8 r) (\<lambda>(b, r). Inr (from_be64 b, r))"

definition read_hash :: "hash parser" where
  "read_hash r = bindR (take_bytes 32 r) (\<lambda>(b, r). Inr (from_be_hash b, r))"

definition read_string :: "str parser" where
  "read_string r =
     bindR (take_bytes 2 r) (\<lambda>(b, r).
       let n = unat (from_be16 b) in
       if MAX_PATH < n then Inl (Protocol (ascii ''string limit''))
       else bindR (take_bytes n r) (\<lambda>(s, r).
         if valid_utf8 s then Inr (s, r) else Inl (Protocol (ascii ''invalid UTF-8''))))"

section \<open>The writer\<close>

definition write_u8 :: "byte \<Rightarrow> byte list \<Rightarrow> byte list" where
  "write_u8 v w = w @ [v]"

definition write_u32 :: "u32 \<Rightarrow> byte list \<Rightarrow> byte list" where
  "write_u32 v w = w @ be32 v"

definition write_string :: "str \<Rightarrow> byte list \<Rightarrow> byte list res" where
  "write_string s w =
     (if MAX_PATH < length s then Inl (Protocol (ascii ''string limit''))
      else Inr (w @ be16 (word_of_nat (length s)) @ s))"

text \<open>What the writer appends for one field, as a function of the field alone.\<close>

definition bool_byte :: "bool \<Rightarrow> byte" where
  "bool_byte b = (if b then 1 else 0)"

definition string_bytes :: "str \<Rightarrow> byte list" where
  "string_bytes s = be16 (word_of_nat (length s)) @ s"

definition string_ok :: "str \<Rightarrow> bool" where
  "string_ok s \<longleftrightarrow> length s \<le> MAX_PATH \<and> valid_utf8 s"

lemma write_string_Inr:
  "write_string s w = Inr w' \<longleftrightarrow> length s \<le> MAX_PATH \<and> w' = w @ string_bytes s"
  by (auto simp: write_string_def string_bytes_def)

section \<open>The contract of a field\<close>

fun read_many :: "'a parser \<Rightarrow> nat \<Rightarrow> 'a list parser" where
  "read_many get 0 r = Inr ([], r)"
| "read_many get (Suc n) r =
     bindR (get r) (\<lambda>(x, r). bindR (read_many get n r) (\<lambda>(xs, r). Inr (x # xs, r)))"

locale field_codec =
  fixes put :: "'a \<Rightarrow> byte list"
    and get :: "'a parser"
    and ok :: "'a \<Rightarrow> bool"
  assumes get_put: "ok x \<Longrightarrow> get (put x @ r) = Inr (x, r)"
    and put_get: "get bs = Inr (x, r) \<Longrightarrow> ok x \<and> bs = put x @ r"
begin

lemma get_iff: "get bs = Inr (x, r) \<longleftrightarrow> ok x \<and> bs = put x @ r"
  using get_put put_get by blast

lemma prefix_free: "ok x \<Longrightarrow> ok y \<Longrightarrow> put x @ r = put y @ s \<Longrightarrow> x = y \<and> r = s"
  by (metis get_put prod.inject sum.inject(2))

lemma put_inj: "ok x \<Longrightarrow> ok y \<Longrightarrow> put x = put y \<Longrightarrow> x = y"
  using prefix_free [of x y "[]" "[]"] by simp

lemma many_iff:
  "read_many get n bs = Inr (xs, r) \<longleftrightarrow>
     length xs = n \<and> list_all ok xs \<and> bs = concat (map put xs) @ r"
proof (induction n arbitrary: bs xs)
  case 0
  then show ?case by auto
next
  case (Suc n)
  show ?case
    by (cases xs) (auto simp: result_simps get_iff Suc.IH)
qed

lemma concat_put_inj:
  "list_all ok xs \<Longrightarrow> list_all ok ys \<Longrightarrow> length xs = length ys
     \<Longrightarrow> concat (map put xs) @ r = concat (map put ys) @ s \<Longrightarrow> xs = ys \<and> r = s"
  using many_iff [of "length xs" "concat (map put xs) @ r" xs r]
    many_iff [of "length xs" "concat (map put xs) @ r" ys s] by simp

end

text \<open>A composed field meets the contract when its reader is characterised by its writer.\<close>

lemma field_codecI:
  "(\<And>bs x r. get bs = Inr (x, r) \<longleftrightarrow> ok x \<and> bs = put x @ r) \<Longrightarrow> field_codec put get ok"
  by unfold_locales auto

text \<open>Fields of a fixed width, which decode from any bytes of that width.\<close>

locale fixed_codec = field_codec +
  fixes width :: nat
  assumes length_put: "length (put x) = width"
    and width_pos: "0 < width"
    and get_total: "width \<le> length bs \<Longrightarrow> \<exists>x. get bs = Inr (x, drop width bs)"

section \<open>The fields of the protocol meet the contract\<close>

lemma take_bytes_Inr: "take_bytes n bs = Inr (a, r) \<longleftrightarrow> length a = n \<and> bs = a @ r"
  by (auto simp: take_bytes_def)

lemma take_bytes_append [simp]: "length a = n \<Longrightarrow> take_bytes n (a @ r) = Inr (a, r)"
  by (simp add: take_bytes_Inr)

interpretation u8_codec: fixed_codec "\<lambda>b. [b]" read_u8 "\<lambda>_. True" 1
proof unfold_locales
  show "\<And>x r. True \<Longrightarrow> read_u8 ([x] @ r) = Inr (x, r)"
    by (simp add: read_u8_def take_bytes_def)
  show "\<And>bs x r. read_u8 bs = Inr (x, r) \<Longrightarrow> True \<and> bs = [x] @ r"
    by (auto simp: read_u8_def result_simps take_bytes_Inr length_Suc_conv)
  show "\<exists>x. read_u8 bs = Inr (x, drop 1 bs)" if "1 \<le> length bs" for bs
    using that by (auto simp: read_u8_def take_bytes_def)
qed auto

interpretation u32_codec: fixed_codec be32 read_u32 "\<lambda>_. True" 4
proof unfold_locales
  show "\<And>x r. True \<Longrightarrow> read_u32 (be32 x @ r) = Inr (x, r)"
    by (simp add: read_u32_def)
  show "\<And>bs x r. read_u32 bs = Inr (x, r) \<Longrightarrow> True \<and> bs = be32 x @ r"
    by (auto simp: read_u32_def result_simps take_bytes_Inr be_from_be)
  show "\<exists>x. read_u32 bs = Inr (x, drop 4 bs)" if "4 \<le> length bs" for bs
    using that by (auto simp: read_u32_def take_bytes_def)
qed auto

interpretation u64_codec: fixed_codec be64 read_u64 "\<lambda>_. True" 8
proof unfold_locales
  show "\<And>x r. True \<Longrightarrow> read_u64 (be64 x @ r) = Inr (x, r)"
    by (simp add: read_u64_def)
  show "\<And>bs x r. read_u64 bs = Inr (x, r) \<Longrightarrow> True \<and> bs = be64 x @ r"
    by (auto simp: read_u64_def result_simps take_bytes_Inr be_from_be)
  show "\<exists>x. read_u64 bs = Inr (x, drop 8 bs)" if "8 \<le> length bs" for bs
    using that by (auto simp: read_u64_def take_bytes_def)
qed auto

interpretation hash_codec: fixed_codec be_hash read_hash "\<lambda>_. True" 32
proof unfold_locales
  show "\<And>x r. True \<Longrightarrow> read_hash (be_hash x @ r) = Inr (x, r)"
    by (simp add: read_hash_def)
  show "\<And>bs x r. read_hash bs = Inr (x, r) \<Longrightarrow> True \<and> bs = be_hash x @ r"
    by (auto simp: read_hash_def result_simps take_bytes_Inr be_from_be)
  show "\<exists>x. read_hash bs = Inr (x, drop 32 bs)" if "32 \<le> length bs" for bs
    using that by (auto simp: read_hash_def take_bytes_def)
qed auto

interpretation bool_codec: field_codec "\<lambda>b. [bool_byte b]" read_boolean "\<lambda>_. True"
  by unfold_locales
    (auto simp: read_boolean_def bool_byte_def result_simps u8_codec.get_iff
      u8_codec.get_put [simplified] split: if_splits)

interpretation string_codec: field_codec string_bytes read_string string_ok
proof unfold_locales
  show "read_string (string_bytes s @ r) = Inr (s, r)" if "string_ok s" for s r
    using that by (simp add: read_string_def string_bytes_def string_ok_def MAX_PATH_def unat_of_nat Let_def)
next
  fix bs s r
  assume "read_string bs = Inr (s, r)"
  then obtain b where b: "length b = 2" "bs = b @ s @ r" "length s = unat (from_be16 b)"
    "unat (from_be16 b) \<le> MAX_PATH" "valid_utf8 s"
    by (auto simp: read_string_def result_simps take_bytes_Inr Let_def not_less split: if_splits)
  then have "be16 (word_of_nat (length s)) = b" by (simp add: be_from_be)
  with b show "string_ok s \<and> bs = string_bytes s @ r"
    by (simp add: string_ok_def string_bytes_def)
qed

lemmas codec_iff = u8_codec.get_iff u32_codec.get_iff u64_codec.get_iff hash_codec.get_iff
  bool_codec.get_iff string_codec.get_iff

section \<open>Fixed-width tables\<close>

text \<open>\<open>slice.chunks_exact(n)\<close>, for the tables of 4-byte indices and 32-byte hashes.\<close>

function chunks_exact :: "nat \<Rightarrow> 'a list \<Rightarrow> 'a list list" where
  "chunks_exact n xs =
     (if n = 0 \<or> length xs < n then [] else take n xs # chunks_exact n (drop n xs))"
  by pat_completeness auto
termination
  by (relation "measure (\<lambda>(n, xs). length xs)") auto

declare chunks_exact.simps [simp del]

lemma chunks_exact_Nil [simp]: "chunks_exact n [] = []"
  by (subst chunks_exact.simps) auto

lemma chunks_exact_append: "0 < n \<Longrightarrow> length a = n \<Longrightarrow> chunks_exact n (a @ xs) = a # chunks_exact n xs"
  by (subst chunks_exact.simps) auto

lemma chunks_exact_concat:
  "0 < n \<Longrightarrow> (\<And>x. x \<in> set xss \<Longrightarrow> length x = n) \<Longrightarrow> chunks_exact n (concat xss) = xss"
  by (induction xss) (simp_all add: chunks_exact_append)

lemma concat_chunks_exact:
  assumes "0 < n"
  shows "length xs = k * n \<Longrightarrow>
    length (chunks_exact n xs) = k \<and> concat (chunks_exact n xs) = xs
    \<and> (\<forall>c \<in> set (chunks_exact n xs). length c = n)"
proof (induction k arbitrary: xs)
  case (Suc k)
  then have "chunks_exact n xs = take n xs # chunks_exact n (drop n xs)"
    using assms by (subst chunks_exact.simps) auto
  with Suc.IH [of "drop n xs"] Suc.prems show ?case by simp
qed simp

end
