(* ===== verification/Codec1.thy ===== *)
theory Codec1
  imports Wire Manifests
begin

unbundle bit_operations_syntax

text \<open>
  The version 1 messages and their codec (\<open>src/protocol.rs\<close>). \<open>encode\<close> and \<open>decode\<close> follow the
  source; \<open>message_bytes\<close> is the layout of the wire specification (\<open>SUMMARY.md\<close>, Binary encoding)
  as a function of the message, and \<open>message_ok\<close> the limits it states. The characterisations
  \<open>decode_iff\<close> and \<open>encode_iff\<close> connect the two, so that the codec is one-to-one between the
  accepted payloads and the well-formed messages.
\<close>

section \<open>Messages\<close>

datatype message =
    Start bool options str manifest
  | Manifest manifest
  | Begin u32
  | Commit u32 hash
  | Get u32
  | Verified u32
  | Finish
  | Ok
  | Error byte str

definition VERSION1 :: byte where "VERSION1 = 1"
definition MAX_CONTROL :: nat where "MAX_CONTROL = 8388608"

section \<open>Writing\<close>

definition kind_byte :: "kind \<Rightarrow> byte" where
  "kind_byte k = (case k of File \<Rightarrow> 0 | Directory \<Rightarrow> 1 | Protected \<Rightarrow> 2)"

definition write_entry :: "entry \<Rightarrow> byte list \<Rightarrow> byte list res" where
  "write_entry e w =
     bindR (write_string (e_path e) w) (\<lambda>w.
       let w = write_u8 (kind_byte (e_kind e)) w;
           w = w @ be64 (e_size e);
           w = w @ be64 (e_mtime e);
           w = write_u32 (e_ns e) w;
           w = write_u8 (bool_byte (e_hash e \<noteq> None)) w;
           w = (case e_hash e of None \<Rightarrow> w | Some h \<Rightarrow> w @ be_hash h)
       in if MAX_CONTROL < length w then Inl (Protocol (ascii ''manifest byte limit'')) else Inr w)"

definition write_manifest :: "manifest \<Rightarrow> byte list \<Rightarrow> byte list res" where
  "write_manifest es w =
     bindR (validate_manifest False es)
       (\<lambda>_. foldR write_entry es (write_u32 (word_of_nat (length es)) w))"

definition flags_byte :: "options \<Rightarrow> byte" where
  "flags_byte opt =
     bool_byte (delete opt) OR push_bit 1 (bool_byte (checksum opt)) OR push_bit 2 (bool_byte (dry_run opt))"

fun encode_body :: "message \<Rightarrow> byte list \<Rightarrow> byte list res" where
  "encode_body (Start push opt path es) w =
     (let w = write_u8 1 w;
          w = write_u8 (bool_byte push) w;
          w = write_u8 (flags_byte opt) w
      in bindR (write_string path w) (write_manifest es))"
| "encode_body (Manifest es) w = write_manifest es (write_u8 2 w)"
| "encode_body (Begin i) w = Inr (write_u32 i (write_u8 3 w))"
| "encode_body (Commit i resource) w = Inr (write_u32 i (write_u8 4 w) @ be_hash resource)"
| "encode_body (Get i) w = Inr (write_u32 i (write_u8 5 w))"
| "encode_body (Verified i) w = Inr (write_u32 i (write_u8 6 w))"
| "encode_body Finish w = Inr (write_u8 7 w)"
| "encode_body Ok w = Inr (write_u8 8 w)"
| "encode_body (Error code txt) w = write_string txt (write_u8 code (write_u8 9 w))"

definition encode :: "message \<Rightarrow> byte list res" where
  "encode m =
     bindR (encode_body m [VERSION1]) (\<lambda>w.
       if MAX_CONTROL < length w then Inl (Protocol (ascii ''control message limit'')) else Inr w)"

section \<open>Reading\<close>

definition read_kind :: "kind parser" where
  "read_kind r =
     bindR (read_u8 r) (\<lambda>(b, r).
       if b = 0 then Inr (File, r)
       else if b = 1 then Inr (Directory, r)
       else if b = 2 then Inr (Protected, r)
       else Inl (Protocol (ascii ''unknown entry type'')))"

definition read_optional_hash :: "hash option parser" where
  "read_optional_hash r =
     bindR (read_boolean r) (\<lambda>(b, r).
       if b then bindR (read_hash r) (\<lambda>(h, r). Inr (Some h, r)) else Inr (None, r))"

definition read_entry :: "entry parser" where
  "read_entry r =
     bindR (read_string r) (\<lambda>(path, r).
     bindR (read_kind r) (\<lambda>(kind, r).
     bindR (read_u64 r) (\<lambda>(size, r).
     bindR (read_u64 r) (\<lambda>(mtime, r).
     bindR (read_u32 r) (\<lambda>(ns, r).
     bindR (read_optional_hash r) (\<lambda>(hash, r).
       Inr (\<lparr>e_path = path, e_kind = kind, e_size = size, e_mtime = mtime, e_ns = ns, e_hash = hash\<rparr>, r)))))))"

definition read_manifest :: "manifest parser" where
  "read_manifest r =
     bindR (read_u32 r) (\<lambda>(n, r).
       if MAX_ENTRIES < unat n then Inl (Protocol (ascii ''manifest entry limit''))
       else bindR (read_many read_entry (unat n) r) (\<lambda>(es, r).
         bindR (validate_manifest False es) (\<lambda>_. Inr (es, r))))"

definition read_start :: "message parser" where
  "read_start r =
     bindR (read_boolean r) (\<lambda>(push, r).
     bindR (read_u8 r) (\<lambda>(flags, r).
       if flags AND NOT 7 \<noteq> 0 then Inl (Protocol (ascii ''unknown flags''))
       else bindR (read_string r) (\<lambda>(path, r).
            bindR (read_manifest r) (\<lambda>(es, r).
              Inr (Start push \<lparr>delete = flags AND 1 \<noteq> 0, checksum = flags AND 2 \<noteq> 0,
                              dry_run = flags AND 4 \<noteq> 0\<rparr> path es, r)))))"

definition read_error :: "message parser" where
  "read_error r =
     bindR (read_u8 r) (\<lambda>(code, r).
     bindR (read_string r) (\<lambda>(txt, r).
       if 1024 < length txt then Inl (Protocol (ascii ''error text limit'')) else Inr (Error code txt, r)))"

definition read_body :: "byte \<Rightarrow> message parser" where
  "read_body tag r =
     (if tag = 1 then read_start r
      else if tag = 2 then bindR (read_manifest r) (\<lambda>(es, r). Inr (Manifest es, r))
      else if tag = 3 then bindR (read_u32 r) (\<lambda>(i, r). Inr (Begin i, r))
      else if tag = 4 then
        bindR (read_u32 r) (\<lambda>(i, r). bindR (read_hash r) (\<lambda>(h, r). Inr (Commit i h, r)))
      else if tag = 5 then bindR (read_u32 r) (\<lambda>(i, r). Inr (Get i, r))
      else if tag = 6 then bindR (read_u32 r) (\<lambda>(i, r). Inr (Verified i, r))
      else if tag = 7 then Inr (Finish, r)
      else if tag = 8 then Inr (Ok, r)
      else if tag = 9 then read_error r
      else Inl (Protocol (ascii ''unknown message tag'')))"

definition decode :: "byte list \<Rightarrow> message res" where
  "decode bytes =
     (if MAX_CONTROL < length bytes then Inl (Protocol (ascii ''control message limit''))
      else bindR (read_u8 bytes) (\<lambda>(version, r).
        if version \<noteq> VERSION1 then Inl (Protocol (ascii ''version mismatch''))
        else bindR (read_u8 r) (\<lambda>(tag, r).
             bindR (read_body tag r) (\<lambda>(m, r).
               if r \<noteq> [] then Inl (Protocol (ascii ''trailing bytes'')) else Inr m))))"

section \<open>The layout\<close>

definition optional_hash_bytes :: "hash option \<Rightarrow> byte list" where
  "optional_hash_bytes h = bool_byte (h \<noteq> None) # (case h of None \<Rightarrow> [] | Some x \<Rightarrow> be_hash x)"

definition entry_bytes :: "entry \<Rightarrow> byte list" where
  "entry_bytes e =
     string_bytes (e_path e) @ [kind_byte (e_kind e)] @ be64 (e_size e) @ be64 (e_mtime e)
     @ be32 (e_ns e) @ optional_hash_bytes (e_hash e)"

definition manifest_bytes :: "manifest \<Rightarrow> byte list" where
  "manifest_bytes es = be32 (word_of_nat (length es)) @ concat (map entry_bytes es)"

fun body_bytes :: "message \<Rightarrow> byte list" where
  "body_bytes (Start push opt path es) =
     [1, bool_byte push, flags_byte opt] @ string_bytes path @ manifest_bytes es"
| "body_bytes (Manifest es) = 2 # manifest_bytes es"
| "body_bytes (Begin i) = 3 # be32 i"
| "body_bytes (Commit i h) = 4 # be32 i @ be_hash h"
| "body_bytes (Get i) = 5 # be32 i"
| "body_bytes (Verified i) = 6 # be32 i"
| "body_bytes Finish = [7]"
| "body_bytes Ok = [8]"
| "body_bytes (Error code txt) = [9, code] @ string_bytes txt"

definition message_bytes :: "message \<Rightarrow> byte list" where
  "message_bytes m = VERSION1 # body_bytes m"

text \<open>
  \<open>typed\<close> holds for every value of the Rust type: a \<open>String\<close> is UTF-8. \<open>encodable\<close> are the limits
  the encoder checks, \<open>message_ok\<close> those of the wire specification.
\<close>

definition typed_manifest :: "manifest \<Rightarrow> bool" where
  "typed_manifest es \<longleftrightarrow> (\<forall>e \<in> set es. valid_utf8 (e_path e))"

fun typed :: "message \<Rightarrow> bool" where
  "typed (Start push opt path es) \<longleftrightarrow> valid_utf8 path \<and> typed_manifest es"
| "typed (Manifest es) \<longleftrightarrow> typed_manifest es"
| "typed (Error code txt) \<longleftrightarrow> valid_utf8 txt"
| "typed _ \<longleftrightarrow> True"

fun encodable :: "message \<Rightarrow> bool" where
  "encodable (Start push opt path es) \<longleftrightarrow> length path \<le> MAX_PATH \<and> manifest_ok False es"
| "encodable (Manifest es) \<longleftrightarrow> manifest_ok False es"
| "encodable (Error code txt) \<longleftrightarrow> length txt \<le> MAX_PATH"
| "encodable _ \<longleftrightarrow> True"

fun message_ok :: "message \<Rightarrow> bool" where
  "message_ok (Error code txt) \<longleftrightarrow> valid_utf8 txt \<and> length txt \<le> 1024"
| "message_ok m \<longleftrightarrow> typed m \<and> encodable m"

section \<open>The codec follows the layout\<close>

interpretation kind_codec: field_codec "\<lambda>k. [kind_byte k]" read_kind "\<lambda>_. True"
proof (rule field_codecI)
  show "read_kind bs = Inr (k, r) \<longleftrightarrow> True \<and> bs = [kind_byte k] @ r" for bs k r
    by (cases bs; cases k)
      (auto simp: read_kind_def kind_byte_def read_u8_def take_bytes_def split: if_splits)
qed

interpretation optional_hash_codec: field_codec optional_hash_bytes read_optional_hash "\<lambda>_. True"
proof (rule field_codecI)
  show "read_optional_hash bs = Inr (h, r) \<longleftrightarrow> True \<and> bs = optional_hash_bytes h @ r" for bs h r
    by (cases h)
      (auto simp: read_optional_hash_def optional_hash_bytes_def bool_byte_def result_simps codec_iff
        split: if_splits)
qed

interpretation entry_codec: field_codec entry_bytes read_entry "\<lambda>e. string_ok (e_path e)"
proof (rule field_codecI)
  show "read_entry bs = Inr (e, r) \<longleftrightarrow> string_ok (e_path e) \<and> bs = entry_bytes e @ r" for bs e r
    by (cases e)
      (auto simp: read_entry_def entry_bytes_def result_simps codec_iff kind_codec.get_iff
        optional_hash_codec.get_iff)
qed

lemma entry_string_ok: "manifest_ok c es \<Longrightarrow> typed_manifest es \<Longrightarrow> list_all (\<lambda>e. string_ok (e_path e)) es"
  by (auto simp: list_all_iff string_ok_def typed_manifest_def valid_path_iff entry_ok_def
      dest: manifest_ok_entry)

lemma typed_manifest_string_ok: "list_all (\<lambda>e. string_ok (e_path e)) es \<Longrightarrow> typed_manifest es"
  by (auto simp: list_all_iff string_ok_def typed_manifest_def)

lemma unat_length_manifest: "length es \<le> MAX_ENTRIES \<Longrightarrow> unat (word_of_nat (length es) :: u32) = length es"
  by (simp add: MAX_ENTRIES_def unat_of_nat)

interpretation manifest_codec:
  field_codec manifest_bytes read_manifest "\<lambda>es. manifest_ok False es \<and> typed_manifest es"
proof (rule field_codecI, rule iffI)
  fix bs es r
  assume "read_manifest bs = Inr (es, r)"
  then obtain n where n: "unat n \<le> MAX_ENTRIES" "length es = unat n"
      "list_all (\<lambda>e. string_ok (e_path e)) es" "manifest_ok False es"
      "bs = be32 n @ concat (map entry_bytes es) @ r"
    by (auto simp: read_manifest_def result_simps codec_iff entry_codec.many_iff validate_manifest_iff
        not_less split: if_splits)
  moreover from n(2) have "word_of_nat (length es) = n" by simp
  ultimately show "(manifest_ok False es \<and> typed_manifest es) \<and> bs = manifest_bytes es @ r"
    by (simp add: manifest_bytes_def typed_manifest_string_ok)
next
  fix bs es r
  assume *: "(manifest_ok False es \<and> typed_manifest es) \<and> bs = manifest_bytes es @ r"
  then have len: "length es \<le> MAX_ENTRIES" by (simp add: manifest_ok_def)
  have "read_many read_entry (length es) (concat (map entry_bytes es) @ r) = Inr (es, r)"
    using * entry_string_ok [of False es] by (simp add: entry_codec.many_iff)
  then show "read_manifest bs = Inr (es, r)"
    using * len by (simp add: read_manifest_def manifest_bytes_def u32_codec.get_put
        unat_length_manifest validate_manifest_ok)
qed

text \<open>The flag byte: eight option records, eight accepted bytes.\<close>

lemma flags_byte_mask: "flags_byte opt AND NOT 7 = 0"
  by (cases opt) (auto simp: flags_byte_def bool_byte_def)

lemma flags_byte_options:
  "\<lparr>delete = flags_byte opt AND 1 \<noteq> 0, checksum = flags_byte opt AND 2 \<noteq> 0,
    dry_run = flags_byte opt AND 4 \<noteq> 0\<rparr> = opt"
  by (cases opt) (auto simp: flags_byte_def bool_byte_def)

lemma flags_small:
  fixes f :: byte
  assumes "f AND NOT 7 = 0"
  shows "f \<in> {0, 1, 2, 3, 4, 5, 6, 7}"
proof -
  have "f = f AND 7"
    using assms word_plus_and_or [of f] by (metis bit.conj_disj_distrib bit.conj_one_right bit.disj_cancel_right bit.disj_zero_right)
  then have "f \<le> 7" by (metis word_and_le1)
  then have "unat f \<le> 7" by (simp add: word_le_nat_alt)
  then have "unat f \<in> {0, 1, 2, 3, 4, 5, 6, 7}" by auto
  then have "word_of_nat (unat f) \<in> (word_of_nat ` {0, 1, 2, 3, 4, 5, 6, 7} :: byte set)"
    by (rule imageI)
  then show ?thesis by simp
qed

lemma flags_byte_of_options:
  "f AND NOT 7 = 0 \<Longrightarrow>
   flags_byte \<lparr>delete = f AND 1 \<noteq> 0, checksum = f AND 2 \<noteq> 0, dry_run = f AND 4 \<noteq> 0\<rparr> = f"
  by (drule flags_small) (auto simp: flags_byte_def bool_byte_def)

text \<open>The reader of a message body, case by case.\<close>

lemma read_start_iff:
  "read_start bs = Inr (m, r) \<longleftrightarrow>
     (\<exists>push opt path es. m = Start push opt path es \<and> message_ok m
        \<and> bs = [bool_byte push, flags_byte opt] @ string_bytes path @ manifest_bytes es @ r)"
proof
  assume "read_start bs = Inr (m, r)"
  then obtain push flags path es where
    "flags AND NOT 7 = 0" "string_ok path" "manifest_ok False es" "typed_manifest es"
    "m = Start push \<lparr>delete = flags AND 1 \<noteq> 0, checksum = flags AND 2 \<noteq> 0,
                    dry_run = flags AND 4 \<noteq> 0\<rparr> path es"
    "bs = [bool_byte push, flags] @ string_bytes path @ manifest_bytes es @ r"
    by (auto simp: read_start_def result_simps codec_iff manifest_codec.get_iff)
  then show "\<exists>push opt path es. m = Start push opt path es \<and> message_ok m
      \<and> bs = [bool_byte push, flags_byte opt] @ string_bytes path @ manifest_bytes es @ r"
    by (auto simp: flags_byte_of_options string_ok_def)
next
  assume "\<exists>push opt path es. m = Start push opt path es \<and> message_ok m
      \<and> bs = [bool_byte push, flags_byte opt] @ string_bytes path @ manifest_bytes es @ r"
  then obtain push opt path es where m: "m = Start push opt path es" "message_ok m"
    and bs: "bs = [bool_byte push] @ [flags_byte opt] @ string_bytes path @ manifest_bytes es @ r"
    by auto
  have 1: "read_boolean bs = Inr (push, [flags_byte opt] @ string_bytes path @ manifest_bytes es @ r)"
    unfolding bs by (rule bool_codec.get_put) simp
  have 2: "read_u8 ([flags_byte opt] @ xs) = Inr (flags_byte opt, xs)" for xs
    by (rule u8_codec.get_put) simp
  have 3: "read_string (string_bytes path @ xs) = Inr (path, xs)" for xs
    by (rule string_codec.get_put) (use m in \<open>simp add: string_ok_def\<close>)
  have 4: "read_manifest (manifest_bytes es @ r) = Inr (es, r)"
    by (rule manifest_codec.get_put) (use m in simp)
  show "read_start bs = Inr (m, r)"
    unfolding read_start_def 1 bindR.simps prod.case 2 3 4 flags_byte_options
    by (simp only: flags_byte_mask m(1) not_True_eq_False if_False simp_thms)
qed

lemma read_error_iff:
  "read_error bs = Inr (m, r) \<longleftrightarrow>
     (\<exists>code txt. m = Error code txt \<and> message_ok m \<and> bs = code # string_bytes txt @ r)"
  by (auto simp: read_error_def result_simps codec_iff string_ok_def MAX_PATH_def not_less)

lemma read_body_Inr:
  "read_body tag bs = Inr (m, r) \<Longrightarrow> message_ok m \<and> tag # bs = body_bytes m @ r"
  by (auto simp: read_body_def result_simps codec_iff manifest_codec.get_iff read_start_iff
      read_error_iff split: if_splits)

lemma read_body_bytes:
  "message_ok m \<Longrightarrow> read_body (hd (body_bytes m)) (tl (body_bytes m) @ r) = Inr (m, r)"
  by (cases m)
    (auto simp: read_body_def u32_codec.get_put hash_codec.get_put manifest_codec.get_put
      read_start_iff read_error_iff)

lemma body_bytes_not_Nil [simp]: "body_bytes m \<noteq> []"
  by (cases m) auto

lemma read_body_iff: "read_body tag bs = Inr (m, r) \<longleftrightarrow> message_ok m \<and> tag # bs = body_bytes m @ r"
proof
  assume *: "message_ok m \<and> tag # bs = body_bytes m @ r"
  then have "tag = hd (body_bytes m)" and "bs = tl (body_bytes m) @ r"
    by (cases "body_bytes m"; auto)+
  with * read_body_bytes show "read_body tag bs = Inr (m, r)" by simp
qed (rule read_body_Inr)

text \<open>Decoding accepts exactly the well-formed payloads, and yields the message they spell.\<close>

lemma decode_iff:
  "decode bs = Inr m \<longleftrightarrow> message_ok m \<and> bs = message_bytes m \<and> length bs \<le> MAX_CONTROL"
  by (auto simp: decode_def result_simps codec_iff read_body_iff message_bytes_def not_less)
    (metis body_bytes_not_Nil list.exhaust)

section \<open>Encoding\<close>

lemma write_entry_Inr:
  "write_entry e w = Inr w' \<longleftrightarrow>
     length (e_path e) \<le> MAX_PATH \<and> w' = w @ entry_bytes e \<and> length w' \<le> MAX_CONTROL"
  by (cases "e_hash e")
    (auto simp: write_entry_def result_simps write_string_Inr write_u8_def write_u32_def
      entry_bytes_def optional_hash_bytes_def Let_def not_less)

lemma write_entries_Inr:
  "foldR write_entry es w = Inr w' \<longleftrightarrow>
     (\<forall>e \<in> set es. length (e_path e) \<le> MAX_PATH) \<and> w' = w @ concat (map entry_bytes es)
     \<and> (es = [] \<or> length w' \<le> MAX_CONTROL)"
proof (induction es arbitrary: w)
  case (Cons e es)
  have "foldR write_entry (e # es) w = Inr w' \<longleftrightarrow>
      length (e_path e) \<le> MAX_PATH \<and> length (w @ entry_bytes e) \<le> MAX_CONTROL
      \<and> foldR write_entry es (w @ entry_bytes e) = Inr w'"
    by (auto simp: result_simps write_entry_Inr)
  then show ?case
    unfolding Cons.IH by (cases "es = []") auto
qed auto

lemma write_manifest_Inr:
  "write_manifest es w = Inr w' \<longleftrightarrow>
     manifest_ok False es \<and> w' = w @ manifest_bytes es \<and> (es = [] \<or> length w' \<le> MAX_CONTROL)"
proof -
  have "length (e_path e) \<le> MAX_PATH" if "manifest_ok False es" "e \<in> set es" for e
    using manifest_ok_entry [OF that] by (simp add: entry_ok_def valid_path_iff)
  then show ?thesis
    by (auto simp: write_manifest_def result_simps validate_manifest_iff write_entries_Inr
        write_u32_def manifest_bytes_def)
qed

lemma encode_iff:
  "encode m = Inr bs \<longleftrightarrow> encodable m \<and> bs = message_bytes m \<and> length bs \<le> MAX_CONTROL"
proof (cases m)
  case (Start push opt path es)
  have "encode_body m [VERSION1] = Inr w \<longleftrightarrow>
      encodable m \<and> w = message_bytes m \<and> (es = [] \<or> length w \<le> MAX_CONTROL)" for w
    by (auto simp: Start write_string_Inr write_manifest_Inr result_simps write_u8_def
        message_bytes_def)
  then show ?thesis by (auto simp: encode_def result_simps not_less)
next
  case (Manifest es)
  have "encode_body m [VERSION1] = Inr w \<longleftrightarrow>
      encodable m \<and> w = message_bytes m \<and> (es = [] \<or> length w \<le> MAX_CONTROL)" for w
    by (auto simp: Manifest write_manifest_Inr write_u8_def message_bytes_def)
  then show ?thesis by (auto simp: encode_def result_simps not_less)
next
  case (Error c t)
  then show ?thesis
    by (auto simp: encode_def result_simps write_string_Inr write_u8_def message_bytes_def not_less)
qed (auto simp: encode_def result_simps write_u8_def write_u32_def message_bytes_def not_less)

lemma message_ok_encodable: "message_ok m \<Longrightarrow> encodable m"
  by (cases m) (auto simp: MAX_PATH_def)

lemma message_bytes_inj:
  assumes "message_ok m" "message_ok m'" "message_bytes m = message_bytes m'"
  shows "m = m'"
proof -
  have 1: "read_body (hd (body_bytes m)) (tl (body_bytes m)) = Inr (m, [])"
    and 2: "read_body (hd (body_bytes m')) (tl (body_bytes m')) = Inr (m', [])"
    unfolding read_body_iff using assms by simp_all
  have "body_bytes m = body_bytes m'" using assms(3) by (simp only: message_bytes_def list.inject)
  with 1 2 show ?thesis by (metis prod.inject sum.inject(2))
qed

section \<open>Error replies\<close>

definition error_code :: "error \<Rightarrow> byte" where
  "error_code e = (case e of
       PermissionDenied \<Rightarrow> 1
     | InvalidPath _ \<Rightarrow> 2
     | Changed _ \<Rightarrow> 3
     | HashMismatch _ \<Rightarrow> 4
     | Protocol _ \<Rightarrow> 5
     | Io _ \<Rightarrow> 6
     | Transport _ \<Rightarrow> 7
     | Connection _ \<Rightarrow> 7
     | Config _ \<Rightarrow> 8
     | Busy \<Rightarrow> 9
     | Remote code _ \<Rightarrow> code)"

definition error_reply :: "(io_kind \<Rightarrow> str) \<Rightarrow> error \<Rightarrow> message" where
  "error_reply io_text e = Error (error_code e) (take_chars 240 (error_text io_text e))"

text \<open>The strings of an error, and the text the platform prints for an I/O error, are UTF-8.\<close>

fun error_typed :: "(io_kind \<Rightarrow> str) \<Rightarrow> error \<Rightarrow> bool" where
  "error_typed io_text (Io k) = valid_utf8 (io_text k)"
| "error_typed io_text (InvalidPath p) = valid_utf8 p"
| "error_typed io_text (Protocol t) = valid_utf8 t"
| "error_typed io_text PermissionDenied = True"
| "error_typed io_text (Changed p) = valid_utf8 p"
| "error_typed io_text (HashMismatch p) = valid_utf8 p"
| "error_typed io_text (Transport t) = valid_utf8 t"
| "error_typed io_text (Connection t) = valid_utf8 t"
| "error_typed io_text Busy = True"
| "error_typed io_text (Remote code t) = valid_utf8 t"
| "error_typed io_text (Config t) = valid_utf8 t"

lemma valid_error_text: "error_typed io_text e \<Longrightarrow> valid_utf8 (error_text io_text e)"
  by (cases e) (auto intro!: valid_utf8_append valid_utf8_decimal valid_utf8_ascii)

section \<open>Properties\<close>

text \<open>C29: The version 1 codec is exact: a payload decodes to a message just when the message meets
  the limits of the wire specification and encodes to this payload. So encoding and decoding are
  inverse to each other, no two payloads decode to the same message, and nothing malformed,
  truncated, oversized or with trailing bytes is accepted.\<close>

theorem codec1_exact: "decode bs = Inr m \<longleftrightarrow> message_ok m \<and> encode m = Inr bs"
  using message_ok_encodable by (auto simp: decode_iff encode_iff)

text \<open>The bytes of a version 1 message: the encoder succeeds just on messages within its limits
  (4096 bytes of text, a valid manifest, 8 MiB in all) and produces the layout of the wire
  specification, field by field.\<close>

theorem encode_layout: "encode m = Inr bs \<longleftrightarrow> encodable m \<and> bs = message_bytes m \<and> length bs \<le> MAX_CONTROL"
  by (rule encode_iff)

text \<open>Every error can be reported. The reply made for any error of the program, however long its
  text, is encoded without error in fewer than 1024 bytes and the peer decodes it to the same code
  and text.\<close>

theorem error_reply_delivered:
  assumes "error_typed io_text e"
  shows "\<exists>bs. encode (error_reply io_text e) = Inr bs \<and> decode bs = Inr (error_reply io_text e)
    \<and> length bs < 1024"
proof -
  let ?t = "take_chars 240 (error_text io_text e)"
  have "valid_utf8 ?t" by (intro valid_utf8_take_chars valid_error_text assms)
  moreover have "length ?t \<le> 960" using length_take_chars [of 240 "error_text io_text e"] by simp
  ultimately show ?thesis
    by (auto simp: encode_iff decode_iff error_reply_def message_bytes_def string_bytes_def MAX_PATH_def
        MAX_CONTROL_def)
qed

lemma error_reply_delivered_witness:
  "\<exists>bs. encode (error_reply (\<lambda>_. []) (Changed (ascii ''a''))) = Inr bs \<and> length bs < 1024"
proof -
  have "valid_utf8 (ascii ''a'')" by (rule valid_utf8_ascii) auto
  then show ?thesis
    using error_reply_delivered [of "\<lambda>_. []" "Changed (ascii ''a'')"] by auto
qed

end
