(* ===== verification/Reconnection.thy ===== *)
theory Reconnection
  imports Failure
begin

text \<open>
  Retries of whole sessions (\<open>src/reconnect.rs\<close>): the policy and its validation, the delay with
  its saturating product, which errors may be retried, and \<open>run\<close>. The closure \<open>attempt\<close> is
  called with distinct numbers, so a function from the number to the result and the duration of
  that session covers every stateful closure. Time is counted in nanoseconds. The overall deadline
  is \<open>tokio::time::timeout\<close>: the value of a future that completes within the budget, otherwise an
  error at the deadline, and nothing of the future runs after it.
\<close>

section \<open>Policies\<close>

record policy =
  attempts :: u32
  delay_seconds :: u64
  max_delay_seconds :: u64
  max_elapsed_seconds :: u64

definition default_policy :: policy where
  "default_policy = \<lparr>attempts = 0, delay_seconds = 5, max_delay_seconds = 60, max_elapsed_seconds = 3600\<rparr>"

definition validate_policy :: "policy \<Rightarrow> unit res" where
  "validate_policy p =
     (if 32 < attempts p \<or> delay_seconds p = 0 \<or> max_delay_seconds p < delay_seconds p
         \<or> 86400 < max_delay_seconds p \<or> max_elapsed_seconds p = 0 \<or> 604800 < max_elapsed_seconds p
      then Inl (Config (ascii ''invalid reconnect policy: attempts <= 32, positive delays <= 86400, elapsed budget <= 604800''))
      else Inr ())"

definition saturating_mul :: "u64 \<Rightarrow> u64 \<Rightarrow> u64" where
  "saturating_mul a b = (if unat a * unat b < 2 ^ 64 then a * b else - 1)"

definition delay :: "policy \<Rightarrow> u32 \<Rightarrow> u64" where
  "delay p retry =
     min (saturating_mul (delay_seconds p) (push_bit (unat (min retry 32)) 1)) (max_delay_seconds p)"

definition retryable :: "error \<Rightarrow> bool" where
  "retryable e = (case e of
       Connection _ \<Rightarrow> True
     | Busy \<Rightarrow> True
     | Remote code _ \<Rightarrow> code = 9
     | _ \<Rightarrow> False)"

section \<open>The loop\<close>

datatype event = Attempt nat | Sleep u64

definition second :: nat where "second = 1000000000"

text \<open>\<open>numbers\<close> is what is left of \<open>0..=attempts\<close>, \<open>t\<close> the time elapsed so far.\<close>

fun session_loop ::
  "policy \<Rightarrow> (nat \<Rightarrow> 'a res \<times> nat) \<Rightarrow> nat list \<Rightarrow> nat \<Rightarrow> 'a outcome \<times> (nat \<times> event) list \<times> nat" where
  "session_loop p attempt [] t = (Inl Panics, [], t)"
| "session_loop p attempt (n # numbers) t =
     (let (r, d) = attempt n in
      case r of
        Inr v \<Rightarrow> (Inr v, [(t, Attempt n)], t + d)
      | Inl e \<Rightarrow>
          if n < unat (attempts p) \<and> retryable e then
            (let w = delay p (word_of_nat n);
                 (r', events, t') = session_loop p attempt numbers (t + d + unat w * second)
             in (r', (t, Attempt n) # (t + d, Sleep w) # events, t'))
          else (Inl (Fails e), [(t, Attempt n)], t + d))"

definition deadline_error :: error where
  "deadline_error = Connection (ascii
     ''reconnect overall deadline exceeded; final state may require a fresh rescan'')"

definition run :: "policy \<Rightarrow> (nat \<Rightarrow> 'a res \<times> nat) \<Rightarrow> 'a outcome \<times> (nat \<times> event) list" where
  "run p attempt =
     (case validate_policy p of
        Inl e \<Rightarrow> (Inl (Fails e), [])
      | Inr _ \<Rightarrow>
          if attempts p = 0 then (may (fst (attempt 0)), [(0, Attempt 0)])
          else
            (let (r, events, t) = session_loop p attempt [0..<Suc (unat (attempts p))] 0;
                 budget = unat (max_elapsed_seconds p) * second
             in if t \<le> budget then (r, events)
                else (Inl (Fails deadline_error), takeWhile (\<lambda>(s, _). s < budget) events)))"

section \<open>Delays\<close>

definition policy_ok :: "policy \<Rightarrow> bool" where
  "policy_ok p \<longleftrightarrow>
     unat (attempts p) \<le> 32 \<and> 0 < unat (delay_seconds p)
     \<and> unat (delay_seconds p) \<le> unat (max_delay_seconds p) \<and> unat (max_delay_seconds p) \<le> 86400
     \<and> 0 < unat (max_elapsed_seconds p) \<and> unat (max_elapsed_seconds p) \<le> 604800"

lemma validate_policy_Inr: "validate_policy p = Inr () \<longleftrightarrow> policy_ok p"
  by (auto simp: validate_policy_def policy_ok_def unat_gt_0 word_le_nat_alt word_less_nat_alt)

lemma unat_saturating_mul: "unat (saturating_mul a b) = min (unat a * unat b) (2 ^ 64 - 1)"
  by (auto simp: saturating_mul_def unat_word_ariths unsigned_minus_1_eq_mask mask_eq_exp_minus_1)

lemma unat_shifted: "unat (push_bit (unat (min n 32)) 1 :: u64) = 2 ^ min (unat n) 32" for n :: u32
proof -
  have "unat (min n 32) = min (unat n) 32" by (simp add: min_def word_le_nat_alt)
  moreover have "(2 :: nat) ^ min (unat n) 32 < 2 ^ 64"
    by (rule power_strict_increasing) auto
  ultimately show ?thesis
    unfolding unsigned_push_bit_eq by (simp add: push_bit_eq_mult take_bit_nat_eq_self)
qed

lemma delay_value:
  assumes "policy_ok p"
  shows "unat (delay p n) = min (unat (delay_seconds p) * 2 ^ min (unat n) 32) (unat (max_delay_seconds p))"
proof -
  have "unat (min a b) = min (unat a) (unat b)" for a b :: u64
    by (simp add: min_def word_le_nat_alt)
  then have "unat (delay p n) =
      min (min (unat (delay_seconds p) * 2 ^ min (unat n) 32) (2 ^ 64 - 1)) (unat (max_delay_seconds p))"
    unfolding delay_def by (simp only: unat_saturating_mul unat_shifted)
  moreover have "unat (max_delay_seconds p) \<le> 2 ^ 64 - 1" using assms by (simp add: policy_ok_def)
  ultimately show ?thesis by simp
qed

lemma delay_bounds:
  assumes "policy_ok p"
  shows "unat (delay_seconds p) \<le> unat (delay p n)" "unat (delay p n) \<le> unat (max_delay_seconds p)"
  unfolding delay_value [OF assms] using assms by (auto simp: policy_ok_def)

section \<open>The loop, characterised\<close>

text \<open>Attempt \<open>n\<close> is followed by another one.\<close>

definition goes_on :: "policy \<Rightarrow> (nat \<Rightarrow> 'a res \<times> nat) \<Rightarrow> nat \<Rightarrow> bool" where
  "goes_on p attempt n \<longleftrightarrow> n < unat (attempts p) \<and> (\<exists>e. fst (attempt n) = Inl e \<and> retryable e)"

definition attempts_made :: "(nat \<times> event) list \<Rightarrow> nat list" where
  "attempts_made evs = [n. (t, Attempt n) \<leftarrow> evs]"

lemma attempts_made_simps [simp]:
  "attempts_made [] = []" "attempts_made ((t, Attempt n) # evs) = n # attempts_made evs"
  "attempts_made ((t, Sleep w) # evs) = attempts_made evs"
  by (simp_all add: attempts_made_def)

lemma session_loop_spec:
  assumes "k \<le> unat (attempts p)"
  shows "session_loop p attempt [k..<Suc (unat (attempts p))] t = (r, events, t') \<Longrightarrow>
    \<exists>m. k \<le> m \<and> m \<le> unat (attempts p) \<and> attempts_made events = [k..<Suc m]
      \<and> (\<forall>i. k \<le> i \<and> i < m \<longrightarrow> goes_on p attempt i) \<and> \<not> goes_on p attempt m
      \<and> r = may (fst (attempt m))
      \<and> (\<forall>(s, e) \<in> set events. t \<le> s \<and> s \<le> t')
      \<and> (\<forall>s w. (s, Sleep w) \<in> set events \<longrightarrow> (\<exists>i. k \<le> i \<and> i < m \<and> w = delay p (word_of_nat i)))"
  using assms
proof (induction "unat (attempts p) - k" arbitrary: k t r events t')
  case 0
  then have k: "k = unat (attempts p)" and one: "[k..<Suc k] = [k]" by simp_all
  obtain r0 d where a: "attempt k = (r0, d)" by (cases "attempt k")
  with 0 k one show ?case
    by (intro exI [of _ k]) (auto simp: goes_on_def simp del: upt_Suc split: sum.splits)
next
  case (Suc x)
  obtain r0 d where a: "attempt k = (r0, d)" by (cases "attempt k")
  have one: "[k..<Suc k] = [k]" by simp
  have upt: "[k..<Suc (unat (attempts p))] = k # [Suc k..<Suc (unat (attempts p))]"
    using Suc.hyps(2) by (simp add: upt_conv_Cons)
  show ?case
  proof (cases "goes_on p attempt k")
    case False
    with Suc.prems a upt one show ?thesis
      by (intro exI [of _ k]) (auto simp: goes_on_def simp del: upt_Suc split: sum.splits if_splits)
  next
    case True
    then obtain e where e: "r0 = Inl e" "retryable e" "k < unat (attempts p)"
      using a by (auto simp: goes_on_def)
    define t1 where "t1 = t + d + unat (delay p (word_of_nat k)) * second"
    obtain r1 ev1 t2 where rec: "session_loop p attempt [Suc k..<Suc (unat (attempts p))] t1 = (r1, ev1, t2)"
      by (cases "session_loop p attempt [Suc k..<Suc (unat (attempts p))] t1") auto
    have res: "r = r1" "t' = t2" "events = (t, Attempt k) # (t + d, Sleep (delay p (word_of_nat k))) # ev1"
      using Suc.prems(1) a e rec unfolding upt by (simp_all add: t1_def [symmetric] del: upt_Suc)
    have "x = unat (attempts p) - Suc k" "Suc k \<le> unat (attempts p)" using Suc.hyps(2) e by simp_all
    from Suc.hyps(1) [OF this(1) rec this(2)] obtain m where m:
      "Suc k \<le> m" "m \<le> unat (attempts p)" "attempts_made ev1 = [Suc k..<Suc m]"
      "\<forall>i. Suc k \<le> i \<and> i < m \<longrightarrow> goes_on p attempt i" "\<not> goes_on p attempt m" "r1 = may (fst (attempt m))"
      "\<forall>(s, e) \<in> set ev1. t1 \<le> s \<and> s \<le> t2"
      "\<forall>s w. (s, Sleep w) \<in> set ev1 \<longrightarrow> (\<exists>i. Suc k \<le> i \<and> i < m \<and> w = delay p (word_of_nat i))"
      by (elim exE conjE)
    have "goes_on p attempt i" if "k \<le> i" "i < m" for i
      using m(4) True that by (cases "i = k") auto
    moreover have "t1 \<le> t2"
    proof -
      have "ev1 \<noteq> []" using m(1,3) by auto
      then show ?thesis using m(7) by (cases ev1) auto
    qed
    moreover have "attempts_made events = [k..<Suc m]"
      using m(1) by (simp add: res(3) m(3) upt_conv_Cons del: upt_Suc)
    moreover have "\<forall>(s, e) \<in> set events. t \<le> s \<and> s \<le> t'"
      using m(7) \<open>t1 \<le> t2\<close> by (auto simp: res t1_def)
    moreover have "\<exists>i. k \<le> i \<and> i < m \<and> w = delay p (word_of_nat i)" if "(s, Sleep w) \<in> set events" for s w
    proof (cases "(s, Sleep w) \<in> set ev1")
      case True
      then show ?thesis using m(8) by (meson Suc_leD)
    next
      case False
      then have "w = delay p (word_of_nat k)" using that by (simp add: res(3))
      then show ?thesis using m(1) by auto
    qed
    ultimately show ?thesis
      using m(1,2,5,6) by (intro exI [of _ m]) (auto simp: res(1))
  qed
qed

lemma attempts_made_append: "attempts_made (as @ bs) = attempts_made as @ attempts_made bs"
  by (simp add: attempts_made_def)

lemma attempts_made_takeWhile: "\<exists>k \<le> length (attempts_made evs). attempts_made (takeWhile P evs) = take k (attempts_made evs)"
proof -
  have "attempts_made evs = attempts_made (takeWhile P evs) @ attempts_made (dropWhile P evs)"
    by (simp flip: attempts_made_append)
  then have "attempts_made (takeWhile P evs) = take (length (attempts_made (takeWhile P evs))) (attempts_made evs)
      \<and> length (attempts_made (takeWhile P evs)) \<le> length (attempts_made evs)"
    by simp
  then show ?thesis by blast
qed

lemma run_loop:
  assumes "policy_ok p" "attempts p \<noteq> 0"
  obtains m events t where
    "m \<le> unat (attempts p)" "attempts_made events = [0..<Suc m]"
    "\<forall>i < m. goes_on p attempt i" "\<not> goes_on p attempt m"
    "\<forall>s w. (s, Sleep w) \<in> set events \<longrightarrow> (\<exists>i < m. w = delay p (word_of_nat i))"
    "\<forall>(s, e) \<in> set events. s \<le> t"
    "run p attempt = (if t \<le> unat (max_elapsed_seconds p) * second then (may (fst (attempt m)), events)
       else (Inl (Fails deadline_error), takeWhile (\<lambda>(s, _). s < unat (max_elapsed_seconds p) * second) events))"
proof -
  obtain r events t where loop: "session_loop p attempt [0..<Suc (unat (attempts p))] 0 = (r, events, t)"
    by (cases "session_loop p attempt [0..<Suc (unat (attempts p))] 0") auto
  from session_loop_spec [OF _ this] obtain m where m:
    "m \<le> unat (attempts p)" "attempts_made events = [0..<Suc m]" "\<forall>i < m. goes_on p attempt i"
    "\<not> goes_on p attempt m" "r = may (fst (attempt m))" "\<forall>(s, e) \<in> set events. s \<le> t"
    "\<forall>s w. (s, Sleep w) \<in> set events \<longrightarrow> (\<exists>i < m. w = delay p (word_of_nat i))"
    by auto
  moreover have "run p attempt = (if t \<le> unat (max_elapsed_seconds p) * second then (may (fst (attempt m)), events)
       else (Inl (Fails deadline_error), takeWhile (\<lambda>(s, _). s < unat (max_elapsed_seconds p) * second) events))"
    using assms m(5) loop by (simp add: run_def validate_policy_Inr [THEN iffD2] del: upt_Suc)
  ultimately show ?thesis using that by blast
qed

section \<open>Properties\<close>


text \<open>C39: What \<open>run\<close> returns. With an accepted policy that enables reconnecting there is a last
  session \<open>m\<close>: every earlier one failed with a retryable error, \<open>m\<close> itself succeeded, failed for good
  or was the last one allowed. The result is that of session \<open>m\<close>, after exactly the sessions up to
  \<open>m\<close>, or the deadline error after no more than these.\<close>

theorem run_result:
  assumes "validate_policy p = Inr ()" "attempts p \<noteq> 0"
  shows "\<exists>m \<le> unat (attempts p).
    (\<forall>i < m. \<exists>e. fst (attempt i) = Inl e \<and> retryable e)
    \<and> (m = unat (attempts p) \<or> (\<exists>v. fst (attempt m) = Inr v) \<or> (\<exists>e. fst (attempt m) = Inl e \<and> \<not> retryable e))
    \<and> (fst (run p attempt) = may (fst (attempt m)) \<and> attempts_made (snd (run p attempt)) = [0..<Suc m]
       \<or> fst (run p attempt) = Inl (Fails deadline_error)
         \<and> (\<exists>k \<le> Suc m. attempts_made (snd (run p attempt)) = [0..<k]))"
proof -
  from assms(1) have "policy_ok p" by (simp add: validate_policy_Inr)
  from run_loop [OF this assms(2), of attempt] obtain m events t where m:
    "m \<le> unat (attempts p)" "attempts_made events = [0..<Suc m]"
    "\<forall>i < m. goes_on p attempt i" "\<not> goes_on p attempt m"
    "run p attempt = (if t \<le> unat (max_elapsed_seconds p) * second then (may (fst (attempt m)), events)
         else (Inl (Fails deadline_error), takeWhile (\<lambda>(s, _). s < unat (max_elapsed_seconds p) * second) events))"
    by metis
  have "m = unat (attempts p) \<or> (\<exists>v. fst (attempt m) = Inr v) \<or> (\<exists>e. fst (attempt m) = Inl e \<and> \<not> retryable e)"
    using m(1,4) by (cases "fst (attempt m)") (auto simp: goes_on_def)
  moreover from attempts_made_takeWhile [of events "\<lambda>(s, _). s < unat (max_elapsed_seconds p) * second"]
  obtain k where "k \<le> Suc m"
    "attempts_made (takeWhile (\<lambda>(s, _). s < unat (max_elapsed_seconds p) * second) events) = [0..<k]"
    unfolding m(2) by (auto simp del: upt_Suc)
  ultimately show ?thesis
    using m by (intro exI [of _ m]) (auto simp: goes_on_def simp del: upt_Suc)
qed

text \<open>The delay before a retry: the first delay doubled per retry (at most 32 times), capped at the
  maximum; with an accepted policy no step of the 64-bit computation loses a bit.\<close>

theorem delay_doubles:
  assumes "validate_policy p = Inr ()"
  shows "unat (delay p n) = min (unat (delay_seconds p) * 2 ^ min (unat n) 32) (unat (max_delay_seconds p))"
  using delay_value [of p n] assms by (simp add: validate_policy_Inr)

section \<open>Witnesses\<close>

definition two_retries :: policy where
  "two_retries = \<lparr>attempts = 2, delay_seconds = 5, max_delay_seconds = 60, max_elapsed_seconds = 3600\<rparr>"

lemma two_retries_valid: "validate_policy two_retries = Inr ()" "attempts two_retries \<noteq> 0"
  by (simp_all add: two_retries_def validate_policy_def)

definition busy_once :: "nat \<Rightarrow> nat res \<times> nat" where
  "busy_once n = (if n = 0 then Inl Busy else Inr 7, 1000)"

lemma run_result_witness:
  "fst (run two_retries busy_once) \<in> {Inr 7, Inl (Fails deadline_error)}"
proof -
  from run_result [OF two_retries_valid, of busy_once] obtain m where m:
    "\<forall>i < m. \<exists>e. fst (busy_once i) = Inl e \<and> retryable e"
    "m = unat (attempts two_retries) \<or> (\<exists>v. fst (busy_once m) = Inr v)
       \<or> (\<exists>e. fst (busy_once m) = Inl e \<and> \<not> retryable e)"
    "fst (run two_retries busy_once) = may (fst (busy_once m))
       \<or> fst (run two_retries busy_once) = Inl (Fails deadline_error)"
    by blast
  have "m \<noteq> 0" using m(2) by (cases m) (auto simp: busy_once_def two_retries_def retryable_def)
  with m(3) show ?thesis by (auto simp: busy_once_def)
qed

lemma delay_doubles_witness: "unat (delay two_retries 3) = 40"
  using delay_doubles [OF two_retries_valid(1), of 3] by (simp add: two_retries_def)


end
