(* ===== verification/Chunk_Geometry.thy ===== *)
theory Chunk_Geometry
  imports Wire Manifests
begin

text \<open>
  \<open>Description\<close> of \<open>src/chunks.rs\<close>: how a file is cut into chunks, the table of chunk hashes and
  its pages, the scan that describes an existing file, and the inputs of the two digests that
  name a cache directory.

  SHA-256 (crate \<open>sha2\<close>) is the parameter \<open>sha\<close>; a digest in progress is the bytes fed to it so
  far. The table \<open>hashes: Arc<File>\<close> is an anonymous temporary file shared by all clones of a
  description, so it is not part of the record: it is passed and returned explicitly, and the
  holder of a description and the store that cloned it are given the same table.
  \<open>tmp\<close> is the outcome of creating the anonymous file.
\<close>

section \<open>Geometry\<close>

definition MIN_CHUNK_SIZE :: u32 where "MIN_CHUNK_SIZE = 4096"
definition MAX_CHUNK_SIZE :: u32 where "MAX_CHUNK_SIZE = 16777216"
definition PAGE_CHUNKS :: nat where "PAGE_CHUNKS = 128"
definition SHARD_CHUNKS :: nat where "SHARD_CHUNKS = 256"

record description =
  d_size :: u64
  d_chunk_size :: u32
  d_hash :: hash

definition div_ceil :: "nat \<Rightarrow> nat \<Rightarrow> nat" where
  "div_ceil a b = (if 0 < a mod b then a div b + 1 else a div b)"

definition count :: "u64 \<Rightarrow> u32 \<Rightarrow> nat res" where
  "count sz chunk_size =
     (if \<not> (MIN_CHUNK_SIZE \<le> chunk_size \<and> chunk_size \<le> MAX_CHUNK_SIZE) then
        Inl (Protocol (ascii ''chunk size outside safety bounds''))
      else let n = div_ceil (unat sz) (unat chunk_size) in
        if MAX_FILE < sz \<or> 2 ^ 32 \<le> n then Inl (Protocol (ascii ''chunk count limit exceeded''))
        else Inr n)"

definition header :: "(byte list \<Rightarrow> hash) \<Rightarrow> unit res \<Rightarrow> u64 \<Rightarrow> u32 \<Rightarrow> hash \<Rightarrow> description res" where
  "header sha tmp sz chunk_size h =
     bindR (count sz chunk_size) (\<lambda>_.
       if sz = 0 \<and> h \<noteq> sha [] then Inl (HashMismatch (ascii ''empty chunk description''))
       else bindR tmp (\<lambda>_. Inr \<lparr>d_size = sz, d_chunk_size = chunk_size, d_hash = h\<rparr>))"

definition chunks :: "description \<Rightarrow> nat outcome" where
  "chunks d = unwrap (count (d_size d) (d_chunk_size d))"

definition page_len :: "description \<Rightarrow> nat \<Rightarrow> nat outcome" where
  "page_len d start =
     bindR (chunks d) (\<lambda>n.
       if n \<le> start \<or> start mod PAGE_CHUNKS \<noteq> 0 then
         Inl (Fails (Protocol (ascii ''invalid hash page offset'')))
       else Inr (min (n - start) PAGE_CHUNKS))"

text \<open>\<open>length\<close> computes at 64 bits; that nothing wraps is \<open>chunk_length_value\<close>.\<close>

definition chunk_length :: "description \<Rightarrow> nat \<Rightarrow> u64 outcome" where
  "chunk_length d i =
     bindR (chunks d) (\<lambda>n.
       if n \<le> i then Inl (Fails (Protocol (ascii ''chunk index out of range'')))
       else Inr (min (d_size d - word_of_nat i * ucast (d_chunk_size d)) (ucast (d_chunk_size d))))"

section \<open>The hash table\<close>

text \<open>\<open>FileExt::write_all_at\<close> (a gap before the offset reads as zeros) and \<open>read_exact_at\<close>.\<close>

definition write_at :: "byte list \<Rightarrow> nat \<Rightarrow> byte list \<Rightarrow> byte list" where
  "write_at file off data =
     take off (file @ replicate (off - length file) 0) @ data @ drop (off + length data) file"

definition read_at :: "byte list \<Rightarrow> nat \<Rightarrow> nat \<Rightarrow> byte list res" where
  "read_at file off n =
     (if off + n \<le> length file then Inr (take n (drop off file)) else Inl (Io UnexpectedEof))"

fun write_hashes :: "nat \<Rightarrow> hash list \<Rightarrow> byte list \<Rightarrow> byte list" where
  "write_hashes i [] table = table"
| "write_hashes i (h # hs) table = write_hashes (Suc i) hs (write_at table (i * 32) (be_hash h))"

definition set_page :: "description \<Rightarrow> nat \<Rightarrow> hash list \<Rightarrow> byte list \<Rightarrow> byte list outcome" where
  "set_page d start hs table =
     bindR (page_len d start) (\<lambda>n.
       if length hs \<noteq> n then Inl (Fails (Protocol (ascii ''invalid hash page length'')))
       else Inr (write_hashes start hs table))"

definition chunk_hash :: "description \<Rightarrow> byte list \<Rightarrow> nat \<Rightarrow> hash outcome" where
  "chunk_hash d table i =
     bindR (chunk_length d i) (\<lambda>_.
       bindR (may (read_at table (i * 32) 32)) (\<lambda>bs. Inr (from_be_hash bs)))"

definition page :: "description \<Rightarrow> byte list \<Rightarrow> nat \<Rightarrow> hash list outcome" where
  "page d table start =
     bindR (page_len d start) (\<lambda>n. mapR (chunk_hash d table) [start..<start + n])"

section \<open>Describing a file\<close>

text \<open>Reading exactly \<open>todo\<close> bytes in blocks of 64 KiB, feeding them to whatever consumes \<open>acc\<close>.\<close>

function copy_blocks :: "nat \<Rightarrow> byte list \<Rightarrow> byte list \<Rightarrow> (byte list \<times> byte list) res" where
  "copy_blocks todo inp acc =
     (if todo = 0 then Inr (acc, inp)
      else let n = min todo 65536 in
        if length inp < n then Inl (Io UnexpectedEof)
        else copy_blocks (todo - n) (drop n inp) (acc @ take n inp))"
  by pat_completeness auto
termination
  by (relation "measure (\<lambda>(todo, inp, acc). todo)") auto

declare copy_blocks.simps [simp del]

lemma copy_blocks_eq:
  "copy_blocks todo inp acc =
     (if todo \<le> length inp then Inr (acc @ take todo inp, drop todo inp)
      else Inl (Io UnexpectedEof))"
proof (induction todo inp acc rule: copy_blocks.induct)
  case (1 todo inp acc)
  show ?case
  proof (cases "todo = 0")
    case True
    then show ?thesis by (subst copy_blocks.simps) simp
  next
    case False
    let ?n = "min todo 65536"
    show ?thesis
    proof (cases "length inp < ?n")
      case True
      with False show ?thesis by (subst copy_blocks.simps) (simp add: Let_def)
    next
      case len: False
      have "copy_blocks todo inp acc = copy_blocks (todo - ?n) (drop ?n inp) (acc @ take ?n inp)"
        unfolding copy_blocks.simps [of todo inp acc] Let_def by (simp only: False len if_False)
      also have "\<dots> = (if todo - ?n \<le> length (drop ?n inp)
          then Inr ((acc @ take ?n inp) @ take (todo - ?n) (drop ?n inp), drop (todo - ?n) (drop ?n inp))
          else Inl (Io UnexpectedEof))"
        using "1.IH" [OF False refl] len by simp
      also have "\<dots> = (if todo \<le> length inp then Inr (acc @ take todo inp, drop todo inp)
          else Inl (Io UnexpectedEof))"
      proof -
        have "take ?n inp @ take (todo - ?n) (drop ?n inp) = take todo inp"
          by (simp flip: take_add)
        then show ?thesis using len by auto
      qed
      finally show ?thesis .
    qed
  qed
qed

text \<open>
  \<open>scan_chunks\<close> is the outer loop of \<open>Description::scan\<close>: the rest of the file, what was fed to the
  whole-file digest and the table written so far.
\<close>

function scan_chunks ::
  "(byte list \<Rightarrow> hash) \<Rightarrow> nat \<Rightarrow> nat \<Rightarrow> byte list \<Rightarrow> byte list \<Rightarrow> byte list
     \<Rightarrow> (byte list \<times> byte list \<times> byte list) res" where
  "scan_chunks sha cs remaining file whole table =
     (if remaining = 0 \<or> cs = 0 then Inr (file, whole, table)
      else let len = min remaining cs in
        bindR (copy_blocks len file []) (\<lambda>(chunk, rest).
          scan_chunks sha cs (remaining - len) rest (whole @ chunk) (table @ be_hash (sha chunk))))"
  by pat_completeness auto
termination
  by (relation "measure (\<lambda>(sha, cs, remaining, file, whole, table). remaining)") auto

declare scan_chunks.simps [simp del]

text \<open>
  \<open>scan\<close> on an open file: \<open>before\<close> is the size in the stamp taken first, \<open>content\<close> what the reads
  return, \<open>unchanged\<close> whether the stamp taken last equals the first.
\<close>

definition scan ::
  "(byte list \<Rightarrow> hash) \<Rightarrow> unit res \<Rightarrow> u64 \<Rightarrow> byte list \<Rightarrow> bool \<Rightarrow> u32 \<Rightarrow> (description \<times> byte list) res" where
  "scan sha tmp before content unchanged chunk_size =
     bindR (count before chunk_size) (\<lambda>_.
     bindR tmp (\<lambda>_.
     bindR (scan_chunks sha (unat chunk_size) (unat before) content [] []) (\<lambda>(rest, whole, table).
       if rest \<noteq> [] \<or> \<not> unchanged then Inl (Changed (ascii ''chunk source''))
       else Inr (\<lparr>d_size = before, d_chunk_size = chunk_size, d_hash = sha whole\<rparr>, table))))"

section \<open>Names of cache directories\<close>

definition key_input :: "description \<Rightarrow> hash \<Rightarrow> byte list" where
  "key_input d scope =
     ascii ''rrsync-local-chunks-paged'' @ [0] @ be_hash scope @ be64 (d_size d)
     @ be32 (d_chunk_size d) @ be_hash (d_hash d)"

definition key :: "(byte list \<Rightarrow> hash) \<Rightarrow> (byte list \<Rightarrow> str) \<Rightarrow> description \<Rightarrow> hash \<Rightarrow> str" where
  "key sha hex d scope = hex (be_hash (sha (key_input d scope)))"

definition field_bytes :: "str \<Rightarrow> byte list" where
  "field_bytes s = be32 (word_of_nat (length s)) @ s"

definition scope_input :: "ident \<Rightarrow> bool \<Rightarrow> str \<Rightarrow> str \<Rightarrow> byte list" where
  "scope_input peer push root path =
     ascii ''rrsync-local-scope-v1'' @ [0] @ be_ident peer @ [bool_byte push]
     @ concat (map field_bytes [root, path])"

definition scope :: "(byte list \<Rightarrow> hash) \<Rightarrow> ident \<Rightarrow> bool \<Rightarrow> str \<Rightarrow> str \<Rightarrow> hash res" where
  "scope sha peer push root path =
     bindR (validate path) (\<lambda>_.
       if root = [] \<or> MAX_PATH < length root \<or> 0 \<in> set root then Inl (InvalidPath root)
       else Inr (sha (scope_input peer push root path)))"

section \<open>Geometry: counts, lengths, pages\<close>

lemma div_ceil_gt: "0 < b \<Longrightarrow> i < div_ceil a b \<longleftrightarrow> i * b < a"
proof -
  assume b: "0 < b"
  have a: "a = a div b * b + a mod b" by simp
  have r: "a mod b < b" using b by simp
  show ?thesis
  proof (cases "a mod b = 0")
    case True
    then have "a = a div b * b" using a by simp
    then have "i * b < a \<longleftrightarrow> i * b < a div b * b" by simp
    with True b show ?thesis by (simp add: div_ceil_def)
  next
    case False
    have "i \<le> a div b \<longleftrightarrow> i * b < a"
    proof
      assume "i \<le> a div b"
      then have "i * b \<le> a div b * b" by simp
      with a False show "i * b < a" by linarith
    next
      assume "i * b < a"
      moreover have "a < Suc (a div b) * b"
        using a r by (metis add.commute add_less_cancel_left mult_Suc)
      ultimately have "i * b < Suc (a div b) * b" by (rule less_trans)
      then show "i \<le> a div b" by (metis less_Suc_eq_le mult_less_cancel2)
    qed
    with False show ?thesis by (simp add: div_ceil_def less_Suc_eq_le)
  qed
qed

lemma div_ceil_le: "0 < b \<Longrightarrow> div_ceil a b \<le> k \<longleftrightarrow> a \<le> k * b"
  using div_ceil_gt [of b k a] by (simp add: not_less [symmetric])

lemma div_ceil_0 [simp]: "div_ceil 0 b = 0"
  by (simp add: div_ceil_def)

definition desc_ok :: "description \<Rightarrow> bool" where
  "desc_ok d \<longleftrightarrow> MIN_CHUNK_SIZE \<le> d_chunk_size d \<and> d_chunk_size d \<le> MAX_CHUNK_SIZE \<and> d_size d \<le> MAX_FILE"

definition n_chunks :: "description \<Rightarrow> nat" where
  "n_chunks d = div_ceil (unat (d_size d)) (unat (d_chunk_size d))"

lemma chunk_size_bounds: "MIN_CHUNK_SIZE \<le> cs \<Longrightarrow> cs \<le> MAX_CHUNK_SIZE \<Longrightarrow> 4096 \<le> unat cs \<and> unat cs \<le> 16777216"
  by (simp add: MIN_CHUNK_SIZE_def MAX_CHUNK_SIZE_def word_le_nat_alt)

lemma max_file_bound: "sz \<le> MAX_FILE \<Longrightarrow> unat sz \<le> 134217727"
  by (simp add: MAX_FILE_def word_le_nat_alt)

lemma chunk_count_bound:
  assumes "4096 \<le> c" "s \<le> 134217727"
  shows "div_ceil s c \<le> 32768"
proof -
  have "s \<le> 32768 * 4096" using assms(2) by simp
  also have "\<dots> \<le> 32768 * c" using assms(1) by simp
  finally show ?thesis using assms(1) by (subst div_ceil_le) auto
qed

text \<open>The limit on the count is implied by the other two: at most 32768 chunks.\<close>

lemma count_Inr:
  "count sz cs = Inr n \<longleftrightarrow>
     MIN_CHUNK_SIZE \<le> cs \<and> cs \<le> MAX_CHUNK_SIZE \<and> sz \<le> MAX_FILE \<and> n = div_ceil (unat sz) (unat cs)"
  using chunk_count_bound [of "unat cs" "unat sz"] chunk_size_bounds [of cs] max_file_bound [of sz]
  by (auto simp: count_def Let_def not_less not_le)

lemma header_Inr:
  "header sha tmp sz cs h = Inr d \<longleftrightarrow>
     d = \<lparr>d_size = sz, d_chunk_size = cs, d_hash = h\<rparr> \<and> desc_ok d \<and> (sz = 0 \<longrightarrow> h = sha []) \<and> tmp = Inr ()"
  by (auto simp: header_def result_simps count_Inr desc_ok_def)

lemma chunks_ok: "desc_ok d \<Longrightarrow> chunks d = Inr (n_chunks d)"
  by (simp add: chunks_def desc_ok_def n_chunks_def count_Inr)

lemma desc_ok_bounds:
  assumes "desc_ok d"
  shows "4096 \<le> unat (d_chunk_size d)" "unat (d_chunk_size d) \<le> 16777216"
    "unat (d_size d) \<le> 134217727" "n_chunks d \<le> 32768"
  using assms chunk_size_bounds [of "d_chunk_size d"] max_file_bound [of "d_size d"]
    chunk_count_bound [of "unat (d_chunk_size d)" "unat (d_size d)"]
  by (auto simp: desc_ok_def n_chunks_def)

lemma n_chunks_gt: "desc_ok d \<Longrightarrow> i < n_chunks d \<longleftrightarrow> i * unat (d_chunk_size d) < unat (d_size d)"
  using desc_ok_bounds(1) [of d] by (simp add: n_chunks_def div_ceil_gt)

text \<open>The length of a chunk as a number, and that the 64-bit computation gives it.\<close>

definition chunk_len :: "description \<Rightarrow> nat \<Rightarrow> nat" where
  "chunk_len d i = min (unat (d_size d) - i * unat (d_chunk_size d)) (unat (d_chunk_size d))"

lemma chunk_length_value:
  assumes "desc_ok d" "i < n_chunks d"
  shows "chunk_length d i = Inr (word_of_nat (chunk_len d i))"
proof -
  let ?s = "d_size d" and ?c = "ucast (d_chunk_size d) :: u64"
  have "unat (d_chunk_size d) < 2 ^ 64"
    using unsigned_less [of "d_chunk_size d", where ?'a = nat] by simp
  then have c: "unat ?c = unat (d_chunk_size d)"
    by (simp add: unsigned_ucast_eq take_bit_nat_eq_self)
  have lt: "i * unat (d_chunk_size d) < unat ?s" using assms by (simp add: n_chunks_gt)
  then have "i * unat (d_chunk_size d) < 2 ^ 64"
    using unsigned_less [of ?s, where ?'a = nat] by simp
  moreover have "i \<le> 32768" using assms desc_ok_bounds(4) [of d] by simp
  ultimately have mul: "unat (word_of_nat i * ?c) = i * unat (d_chunk_size d)"
    using c by (simp add: unat_word_ariths unat_of_nat)
  then have "unat (?s - word_of_nat i * ?c) = unat ?s - i * unat (d_chunk_size d)"
    using lt by (subst unat_sub) (simp_all add: word_le_nat_alt)
  then have "unat (min (?s - word_of_nat i * ?c) ?c) = chunk_len d i"
    using c by (simp add: chunk_len_def min_def word_le_nat_alt)
  then have "min (?s - word_of_nat i * ?c) ?c = word_of_nat (chunk_len d i)"
    by (metis of_nat_unat ucast_id)
  with assms show ?thesis by (simp add: chunk_length_def chunks_ok)
qed

lemma chunk_length_out: "desc_ok d \<Longrightarrow> n_chunks d \<le> i \<Longrightarrow>
    chunk_length d i = Inl (Fails (Protocol (ascii ''chunk index out of range'')))"
  by (simp add: chunk_length_def chunks_ok)

lemma chunk_len_bounds:
  "desc_ok d \<Longrightarrow> i < n_chunks d \<Longrightarrow> 0 < chunk_len d i \<and> chunk_len d i \<le> unat (d_chunk_size d)"
  using desc_ok_bounds(1) [of d] by (simp add: chunk_len_def n_chunks_gt)

lemma sum_chunk_len: "(\<Sum>i<m. min (s - i * c) c) = min s (m * c)" for s c :: nat
  by (induction m) (auto simp: min_def)

text \<open>The chunks of a file have its size together.\<close>

lemma chunk_len_total: "desc_ok d \<Longrightarrow> (\<Sum>i<n_chunks d. chunk_len d i) = unat (d_size d)"
  using desc_ok_bounds(1) [of d]
    div_ceil_le [of "unat (d_chunk_size d)" "unat (d_size d)" "n_chunks d"]
  by (simp add: chunk_len_def sum_chunk_len n_chunks_def min_absorb1)

lemma page_len_Inr:
  "desc_ok d \<Longrightarrow> page_len d start = Inr n \<longleftrightarrow>
     start < n_chunks d \<and> 128 dvd start \<and> n = min (n_chunks d - start) 128"
  by (auto simp: page_len_def chunks_ok PAGE_CHUNKS_def not_le dvd_eq_mod_eq_0)

lemma page_len_pos: "desc_ok d \<Longrightarrow> page_len d start = Inr n \<Longrightarrow> 0 < n \<and> n \<le> 128 \<and> start + n \<le> n_chunks d"
  by (auto simp: page_len_Inr)

text \<open>The next page starts where a page ends, unless the table is complete.\<close>

lemma page_len_next:
  "desc_ok d \<Longrightarrow> page_len d start = Inr n \<Longrightarrow> start + n \<noteq> n_chunks d \<Longrightarrow> n = 128 \<and> 128 dvd start + n"
  by (auto simp: page_len_Inr min_def split: if_splits)

section \<open>The table keeps what was negotiated\<close>

lemma length_write_at [simp]: "length (write_at f off data) = max (length f) (off + length data)"
  by (auto simp: write_at_def)

lemma nth_write_at:
  assumes "k < max (length f) (off + length data)"
  shows "write_at f off data ! k =
    (if k < off then (if k < length f then f ! k else 0)
     else if k < off + length data then data ! (k - off) else f ! k)"
proof -
  have len: "length (take off (f @ replicate (off - length f) 0)) = off" by simp
  show ?thesis
    using assms unfolding write_at_def nth_append len
    by (auto simp: nth_append)
qed

lemma read_at_iff:
  "read_at f off n = Inr r \<longleftrightarrow> off + n \<le> length f \<and> length r = n \<and> (\<forall>k < n. r ! k = f ! (off + k))"
  by (auto simp: read_at_def intro: nth_equalityI)

lemma read_at_write_at_same: "read_at (write_at f off data) off (length data) = Inr data"
  by (auto simp: read_at_iff nth_write_at)

lemma read_at_write_at_other:
  "read_at f off n = Inr r \<Longrightarrow> off + n \<le> off' \<or> off' + length data \<le> off
     \<Longrightarrow> read_at (write_at f off' data) off n = Inr r"
  by (auto simp: read_at_iff nth_write_at)

definition table_hash :: "byte list \<Rightarrow> nat \<Rightarrow> hash option" where
  "table_hash table i =
     (case read_at table (i * 32) 32 of Inl _ \<Rightarrow> None | Inr bs \<Rightarrow> Some (from_be_hash bs))"

lemma read_at_table: "table_hash table i = Some h \<longleftrightarrow> read_at table (i * 32) 32 = Inr (be_hash h)"
proof (cases "read_at table (i * 32) 32")
  case (Inr bs)
  then have "length bs = 32" by (simp add: read_at_iff)
  with Inr show ?thesis by (auto simp: table_hash_def be_from_be)
qed (simp add: table_hash_def)

lemma table_hash_write_same: "table_hash (write_at table (i * 32) (be_hash h)) i = Some h"
  using read_at_write_at_same [of table "i * 32" "be_hash h"] by (simp add: read_at_table)

lemma table_hash_write_other:
  assumes "table_hash table j = Some h'" "i \<noteq> j"
  shows "table_hash (write_at table (i * 32) (be_hash h)) j = Some h'"
proof -
  have "j * 32 + 32 \<le> i * 32 \<or> i * 32 + length (be_hash h) \<le> j * 32"
    using assms(2) by (cases "i < j") auto
  with assms(1) show ?thesis
    unfolding read_at_table by (rule read_at_write_at_other)
qed

lemma table_hash_write_hashes_other:
  "table_hash table j = Some h \<Longrightarrow> j < i \<or> i + length hs \<le> j
     \<Longrightarrow> table_hash (write_hashes i hs table) j = Some h"
proof (induction i hs table rule: write_hashes.induct)
  case (2 i x hs table)
  then show ?case using table_hash_write_other [of table j h i x] by auto
qed simp

lemma table_hash_write_hashes:
  "k < length hs \<Longrightarrow> table_hash (write_hashes i hs table) (i + k) = Some (hs ! k)"
proof (induction i hs table arbitrary: k rule: write_hashes.induct)
  case (2 i x hs table)
  show ?case
  proof (cases k)
    case 0
    have "table_hash (write_hashes (Suc i) hs (write_at table (i * 32) (be_hash x))) i = Some x"
      by (rule table_hash_write_hashes_other) (simp_all add: table_hash_write_same)
    with 0 show ?thesis by simp
  next
    case (Suc k')
    with 2 show ?thesis by simp
  qed
qed simp

lemma chunk_hash_Inr:
  "desc_ok d \<Longrightarrow> chunk_hash d table i = Inr h \<longleftrightarrow> i < n_chunks d \<and> table_hash table i = Some h"
proof -
  assume d: "desc_ok d"
  show ?thesis
  proof (cases "i < n_chunks d")
    case True
    then show ?thesis
      by (auto simp: chunk_hash_def chunk_length_value [OF d] table_hash_def split: sum.splits)
  next
    case False
    then show ?thesis using chunk_length_out [OF d] by (simp add: chunk_hash_def not_less)
  qed
qed

text \<open>What \<open>set_page\<close> stores is what \<open>page\<close> and \<open>chunk_hash\<close> give back; other pages are kept.\<close>

lemma set_page_Inr:
  "desc_ok d \<Longrightarrow> set_page d start hs table = Inr t \<longleftrightarrow>
     page_len d start = Inr (length hs) \<and> t = write_hashes start hs table"
  by (auto simp: set_page_def result_simps)

lemma set_page_chunk_hash:
  assumes "desc_ok d" "set_page d start hs table = Inr t" "k < length hs"
  shows "chunk_hash d t (start + k) = Inr (hs ! k)"
proof -
  from assms have "page_len d start = Inr (length hs)" "t = write_hashes start hs table"
    by (simp_all add: set_page_Inr)
  with page_len_pos [OF assms(1)] assms(3) show ?thesis
    using assms(1) by (force simp: chunk_hash_Inr table_hash_write_hashes)
qed

lemma set_page_other:
  assumes "desc_ok d" "set_page d start hs table = Inr t" "chunk_hash d table i = Inr h"
    "i < start \<or> start + length hs \<le> i"
  shows "chunk_hash d t i = Inr h"
  using assms table_hash_write_hashes_other [of table i h start hs]
  by (auto simp: chunk_hash_Inr set_page_Inr)

lemma page_Inr:
  "desc_ok d \<Longrightarrow> page d table start = Inr hs \<longleftrightarrow>
     page_len d start = Inr (length hs) \<and> (\<forall>k < length hs. chunk_hash d table (start + k) = Inr (hs ! k))"
  by (auto simp: page_def result_simps mapR_eq_Inr)

theorem set_page_page:
  "desc_ok d \<Longrightarrow> set_page d start hs table = Inr t \<Longrightarrow> page d t start = Inr hs"
  by (auto simp: page_Inr set_page_chunk_hash) (simp add: set_page_Inr)

section \<open>The scan describes the file\<close>

text \<open>The specification: the file is cut every \<open>cs\<close> bytes.\<close>

function pieces :: "nat \<Rightarrow> 'a list \<Rightarrow> 'a list list" where
  "pieces cs xs = (if xs = [] \<or> cs = 0 then [] else take cs xs # pieces cs (drop cs xs))"
  by pat_completeness auto
termination
  by (relation "measure (\<lambda>(cs, xs). length xs)") auto

declare pieces.simps [simp del]

lemma pieces_Nil [simp]: "pieces cs [] = []"
  by (simp add: pieces.simps)

lemma pieces_Cons: "xs \<noteq> [] \<Longrightarrow> 0 < cs \<Longrightarrow> pieces cs xs = take cs xs # pieces cs (drop cs xs)"
  by (subst pieces.simps) simp

lemma concat_pieces: "0 < cs \<Longrightarrow> concat (pieces cs xs) = xs"
proof (induction cs xs rule: pieces.induct)
  case (1 cs xs)
  then show ?case by (cases "xs = []") (simp_all add: pieces_Cons)
qed

lemma div_ceil_diff: "0 < b \<Longrightarrow> 0 < a \<Longrightarrow> div_ceil a b = Suc (div_ceil (a - b) b)"
proof -
  assume b: "0 < b" and a: "0 < a"
  have "i < div_ceil a b \<longleftrightarrow> i < Suc (div_ceil (a - b) b)" for i
  proof (cases i)
    case 0
    with a b show ?thesis by (simp add: div_ceil_gt)
  next
    case (Suc k)
    with b show ?thesis by (auto simp: div_ceil_gt)
  qed
  then show ?thesis by (metis less_irrefl less_antisym linorder_neqE_nat)
qed

lemma length_pieces: "0 < cs \<Longrightarrow> length (pieces cs xs) = div_ceil (length xs) cs"
proof (induction cs xs rule: pieces.induct)
  case (1 cs xs)
  then show ?case by (cases "xs = []") (simp_all add: pieces_Cons div_ceil_diff [of cs "length xs"])
qed

lemma nth_pieces: "0 < cs \<Longrightarrow> i < length (pieces cs xs) \<Longrightarrow> pieces cs xs ! i = take cs (drop (i * cs) xs)"
proof (induction cs xs arbitrary: i rule: pieces.induct)
  case (1 cs xs)
  then show ?case
    by (cases "xs = []"; cases i) (auto simp: pieces_Cons add.commute)
qed

lemma scan_chunks_eq:
  "0 < cs \<Longrightarrow> scan_chunks sha cs n file whole table =
     (if n \<le> length file
      then Inr (drop n file, whole @ take n file, table @ concat (map (be_hash \<circ> sha) (pieces cs (take n file))))
      else Inl (Io UnexpectedEof))"
proof (induction sha cs n "file" whole table rule: scan_chunks.induct)
  case (1 sha cs n inp whole table)
  show ?case
  proof (cases "n = 0")
    case True
    then show ?thesis by (subst scan_chunks.simps) simp
  next
    case False
    let ?l = "min n cs"
    have step: "scan_chunks sha cs n inp whole table =
        (if ?l \<le> length inp then scan_chunks sha cs (n - ?l) (drop ?l inp) (whole @ take ?l inp)
             (table @ be_hash (sha (take ?l inp)))
         else Inl (Io UnexpectedEof))"
      using False "1.prems" by (subst scan_chunks.simps) (simp add: Let_def copy_blocks_eq)
    show ?thesis
    proof (cases "?l \<le> length inp")
      case False
      then show ?thesis unfolding step by auto
    next
      case True
      have IH: "scan_chunks sha cs (n - ?l) (drop ?l inp) (whole @ take ?l inp)
             (table @ be_hash (sha (take ?l inp))) =
          (if n - ?l \<le> length (drop ?l inp)
           then Inr (drop (n - ?l) (drop ?l inp), (whole @ take ?l inp) @ take (n - ?l) (drop ?l inp),
               (table @ be_hash (sha (take ?l inp)))
               @ concat (map (be_hash \<circ> sha) (pieces cs (take (n - ?l) (drop ?l inp)))))
           else Inl (Io UnexpectedEof))"
        using "1.IH" [OF _ refl, of "(take ?l inp, drop ?l inp)" "take ?l inp" "drop ?l inp"]
          False "1.prems" True by (simp add: copy_blocks_eq)
      have whole: "take ?l inp @ take (n - ?l) (drop ?l inp) = take n inp"
        by (simp flip: take_add)
      have pcs: "pieces cs (take n inp) = take ?l inp # pieces cs (take (n - ?l) (drop ?l inp))"
        if "n \<le> length inp"
      proof -
        have "take cs (take n inp) = take ?l inp" by (simp add: min.commute)
        moreover have "drop cs (take n inp) = take (n - ?l) (drop ?l inp)"
          by (cases "n \<le> cs") (simp_all add: drop_take)
        moreover have "take n inp \<noteq> []" using that \<open>n \<noteq> 0\<close> by auto
        ultimately show ?thesis
          using pieces_Cons [of "take n inp" cs] "1.prems" by simp
      qed
      have fits: "n - ?l \<le> length (drop ?l inp) \<longleftrightarrow> n \<le> length inp" using True by auto
      have rest: "drop (n - ?l) (drop ?l inp) = drop n inp" by simp
      show ?thesis
        unfolding step IH fits rest
        by (cases "n \<le> length inp") (simp_all only: True pcs append_assoc whole if_True if_False
            list.map concat.simps comp_def)
    qed
  qed
qed

lemma read_concat_hashes:
  "i < length hs \<Longrightarrow> table_hash (concat (map be_hash hs)) i = Some (hs ! i)"
proof (induction hs arbitrary: i)
  case (Cons h hs)
  show ?case
  proof (cases i)
    case 0
    then show ?thesis by (simp add: read_at_table read_at_def)
  next
    case (Suc k)
    with Cons.IH [of k] Cons.prems show ?thesis
      by (simp add: read_at_table read_at_def split: if_splits)
  qed
qed simp

text \<open>
  A successful scan has read the whole file: the description carries its size and digest, and
  entry \<open>i\<close> of the table is the digest of chunk \<open>i\<close>.
\<close>

theorem scan_describes:
  assumes "scan sha tmp before content unchanged cs = Inr (d, table)"
  shows "desc_ok d" "d_size d = before" "d_chunk_size d = cs" "length content = unat before"
    "d_hash d = sha content"
    "i < n_chunks d \<Longrightarrow> chunk_hash d table i = Inr (sha (take (unat cs) (drop (i * unat cs) content)))"
proof -
  from assms have cnt: "count before cs = Inr (div_ceil (unat before) (unat cs))"
    by (auto simp: scan_def result_simps count_Inr)
  then have pos: "0 < unat cs"
    using chunk_size_bounds [of cs] by (auto simp: count_Inr)
  from assms pos have len: "length content = unat before" and d: "d = \<lparr>d_size = before, d_chunk_size = cs, d_hash = sha content\<rparr>"
    and t: "table = concat (map be_hash (map sha (pieces (unat cs) content)))"
    by (auto simp: scan_def result_simps scan_chunks_eq split: if_splits)
  show ok: "desc_ok d" using cnt d by (simp add: desc_ok_def count_Inr)
  show "d_size d = before" "d_chunk_size d = cs" "length content = unat before" "d_hash d = sha content"
    using d len by simp_all
  assume i: "i < n_chunks d"
  then have "i < length (pieces (unat cs) content)"
    using d len pos by (simp add: n_chunks_def length_pieces)
  then show "chunk_hash d table i = Inr (sha (take (unat cs) (drop (i * unat cs) content)))"
    using ok i pos read_concat_hashes [of i "map sha (pieces (unat cs) content)"]
    by (simp add: chunk_hash_Inr t nth_pieces)
qed

section \<open>Cache names are injective in what they bind\<close>

lemma u32_length_inj: "length s < 2 ^ 32 \<Longrightarrow> unat (word_of_nat (length s) :: u32) = length s"
  by (simp add: unat_of_nat)

definition read_field :: "str parser" where
  "read_field r = bindR (read_u32 r) (\<lambda>(n, r). take_bytes (unat n) r)"

interpretation field_name_codec: field_codec field_bytes read_field "\<lambda>s. length s < 2 ^ 32"
proof (rule field_codecI, rule iffI)
  fix bs x r
  assume "read_field bs = Inr (x, r)"
  then obtain n where n: "length x = unat (n :: u32)" "bs = be32 n @ x @ r"
    by (auto simp: read_field_def result_simps codec_iff take_bytes_Inr)
  then show "length x < 2 ^ 32 \<and> bs = field_bytes x @ r"
    using unsigned_less [of n, where ?'a = nat] by (simp add: field_bytes_def)
next
  fix bs x r
  assume "length (x :: str) < 2 ^ 32 \<and> bs = field_bytes x @ r"
  then show "read_field bs = Inr (x, r)"
    by (simp add: read_field_def field_bytes_def u32_codec.get_put u32_length_inj)
qed

theorem scope_input_inj:
  assumes "length root < 2 ^ 32" "length path < 2 ^ 32" "length root' < 2 ^ 32" "length path' < 2 ^ 32"
    and "scope_input peer push root path = scope_input peer' push' root' path'"
  shows "peer = peer' \<and> push = push' \<and> root = root' \<and> path = path'"
proof -
  from assms(5) have "be_ident peer = be_ident peer'" and "bool_byte push = bool_byte push'"
    and f: "concat (map field_bytes [root, path]) = concat (map field_bytes [root', path'])"
    by (simp_all add: scope_input_def)
  then have "peer = peer'" by (metis from_be_be(4))
  moreover have "push = push'"
    using \<open>bool_byte push = bool_byte push'\<close> by (auto simp: bool_byte_def split: if_splits)
  ultimately show ?thesis using field_name_codec.concat_put_inj [of "[root, path]" "[root', path']" "[]" "[]"] f assms(1-4)
    by simp
qed

theorem key_input_inj:
  "key_input d sc = key_input d' sc' \<Longrightarrow> d = d' \<and> sc = sc'"
proof -
  assume "key_input d sc = key_input d' sc'"
  then have "be_hash sc = be_hash sc'" "be64 (d_size d) = be64 (d_size d')"
    "be32 (d_chunk_size d) = be32 (d_chunk_size d')" "be_hash (d_hash d) = be_hash (d_hash d')"
    by (simp_all add: key_input_def)
  then have "sc = sc'" "d_size d = d_size d'" "d_chunk_size d = d_chunk_size d'" "d_hash d = d_hash d'"
    by (metis from_be_be)+
  then show ?thesis by (cases d; cases d') simp
qed

section \<open>Properties\<close>

text \<open>C38: The geometry of a described file. When the count of chunks is accepted there are at most 32768
  of them; the 64-bit length of each is computed without wrapping, is positive and at most the chunk
  size; the lengths add up to the size of the file; and an index past the last chunk is an error.\<close>

theorem chunk_lengths:
  assumes "count (d_size d) (d_chunk_size d) = Inr n"
  shows "n \<le> 32768
    \<and> (\<forall>i < n. \<exists>l. chunk_length d i = Inr l \<and> 0 < unat l \<and> unat l \<le> unat (d_chunk_size d))
    \<and> (\<Sum>i<n. case chunk_length d i of Inr l \<Rightarrow> unat l | Inl _ \<Rightarrow> 0) = unat (d_size d)
    \<and> (\<forall>i \<ge> n. chunk_length d i = Inl (Fails (Protocol (ascii ''chunk index out of range''))))"
proof -
  from assms have d: "desc_ok d" and n: "n = n_chunks d"
    by (auto simp: count_Inr desc_ok_def n_chunks_def)
  have fit: "unat (word_of_nat (chunk_len d i) :: u64) = chunk_len d i" if "i < n" for i
    using chunk_len_bounds [OF d, of i] that n desc_ok_bounds(2) [OF d] by (simp add: unat_of_nat)
  have "(\<Sum>i<n. case chunk_length d i of Inr l \<Rightarrow> unat l | Inl _ \<Rightarrow> 0) = (\<Sum>i<n. chunk_len d i)"
    by (rule sum.cong) (use fit n in \<open>simp_all add: chunk_length_value [OF d]\<close>)
  moreover have "\<exists>l. chunk_length d i = Inr l \<and> 0 < unat l \<and> unat l \<le> unat (d_chunk_size d)" if "i < n" for i
    using chunk_length_value [OF d] chunk_len_bounds [OF d] fit that n by auto
  ultimately show ?thesis
    using desc_ok_bounds(4) [OF d] chunk_len_total [OF d] chunk_length_out [OF d] n by simp
qed

lemma chunk_lengths_witness:
  "\<exists>l. chunk_length \<lparr>d_size = 5000, d_chunk_size = 4096, d_hash = 0\<rparr> 1 = Inr l \<and> 0 < unat l"
proof -
  have "count (d_size \<lparr>d_size = 5000, d_chunk_size = 4096, d_hash = 0\<rparr>)
      (d_chunk_size \<lparr>d_size = 5000, d_chunk_size = 4096, d_hash = 0\<rparr>) = Inr 2"
    by (simp add: count_Inr MIN_CHUNK_SIZE_def MAX_CHUNK_SIZE_def MAX_FILE_def div_ceil_def)
  from chunk_lengths [OF this]
  have "\<forall>i < 2. \<exists>l. chunk_length \<lparr>d_size = 5000, d_chunk_size = 4096, d_hash = 0\<rparr> i = Inr l \<and> 0 < unat l"
    by blast
  then show ?thesis by (rule allE [where x = 1]) simp
qed

text \<open>The table of hashes is what was negotiated: a page that \<open>set_page\<close> accepts is read back
  unchanged, chunk by chunk and as a page, and every hash stored before at another index stays.\<close>

theorem pages_kept:
  assumes "count (d_size d) (d_chunk_size d) = Inr n" "set_page d start hs table = Inr table'"
  shows "page d table' start = Inr hs
    \<and> (\<forall>k < length hs. chunk_hash d table' (start + k) = Inr (hs ! k))
    \<and> (\<forall>i h. (i < start \<or> start + length hs \<le> i) \<and> chunk_hash d table i = Inr h
          \<longrightarrow> chunk_hash d table' i = Inr h)"
proof -
  from assms(1) have d: "desc_ok d" by (auto simp: count_Inr desc_ok_def)
  show ?thesis
    using set_page_page [OF d assms(2)] set_page_chunk_hash [OF d assms(2)] set_page_other [OF d assms(2)]
    by blast
qed

lemma pages_kept_witness:
  "\<exists>table. page \<lparr>d_size = 5000, d_chunk_size = 4096, d_hash = 0\<rparr> table 0 = Inr [7, 8]"
proof -
  let ?d = "\<lparr>d_size = 5000, d_chunk_size = 4096, d_hash = 0\<rparr>"
  have c: "count (d_size ?d) (d_chunk_size ?d) = Inr 2"
    by (simp add: count_Inr MIN_CHUNK_SIZE_def MAX_CHUNK_SIZE_def MAX_FILE_def div_ceil_def)
  then have "set_page ?d 0 [7, 8] [] = Inr (write_hashes 0 [7, 8] [])"
    by (simp add: set_page_def page_len_def chunks_def PAGE_CHUNKS_def)
  from pages_kept [OF c this] show ?thesis by blast
qed

text \<open>A scan describes the file it read. When it succeeds, the description has the size of the file
  and the digest of its whole content, and hash \<open>i\<close> of the table is the digest of the bytes of chunk
  \<open>i\<close>; a file that was longer or shorter than its first stamp, or changed, is not described.\<close>

theorem scan_exact:
  assumes "scan sha tmp before content unchanged cs = Inr (d, table)"
  shows "unchanged \<and> d = \<lparr>d_size = before, d_chunk_size = cs, d_hash = sha content\<rparr>
    \<and> length content = unat before
    \<and> (\<forall>i. i * unat cs < unat before \<longrightarrow>
         chunk_hash d table i = Inr (sha (take (unat cs) (drop (i * unat cs) content))))"
proof -
  note * = scan_describes [OF assms]
  have "unchanged" using assms by (auto simp: scan_def result_simps split: if_splits)
  moreover have "i * unat cs < unat before \<longleftrightarrow> i < n_chunks d" for i
    using *(1-3) by (simp add: n_chunks_gt)
  ultimately show ?thesis using * by (cases d) simp
qed

lemma scan_exact_witness:
  "chunk_hash \<lparr>d_size = 1, d_chunk_size = 4096, d_hash = 5\<rparr> (be_hash 5) 0 = Inr 5"
proof -
  have cnt: "count 1 4096 = Inr 1"
    by (simp add: count_Inr MIN_CHUNK_SIZE_def MAX_CHUNK_SIZE_def MAX_FILE_def div_ceil_def)
  have "scan (\<lambda>_. 5) (Inr ()) 1 [65] True 4096
      = Inr (\<lparr>d_size = 1, d_chunk_size = 4096, d_hash = 5\<rparr>, be_hash 5)"
    by (simp add: scan_def cnt scan_chunks_eq pieces.simps)
  from scan_exact [OF this] show ?thesis by simp
qed

text \<open>The names of cache directories bind what they should: two descriptions with two scopes feed
  the same bytes to the digest that names the directory only if size, chunk size, digest and scope all
  agree, and two scopes only if peer, direction, root and path do.\<close>

theorem cache_names_bind:
  "(key_input d sc = key_input d' sc' \<longleftrightarrow> d = d' \<and> sc = sc')
   \<and> (validate path = Inr () \<and> validate path' = Inr () \<and> length root \<le> MAX_PATH \<and> length root' \<le> MAX_PATH \<longrightarrow>
      (scope_input peer push root path = scope_input peer' push' root' path'
       \<longleftrightarrow> peer = peer' \<and> push = push' \<and> root = root' \<and> path = path'))"
proof -
  have "length p < 2 ^ 32" if "validate p = Inr ()" for p
    using that by (auto simp: validate_def MAX_PATH_def split: if_splits)
  moreover have "length r < 2 ^ 32" if "length r \<le> MAX_PATH" for r :: str
    using that by (simp add: MAX_PATH_def)
  ultimately have "scope_input peer push root path = scope_input peer' push' root' path'
      \<longleftrightarrow> peer = peer' \<and> push = push' \<and> root = root' \<and> path = path'"
    if "validate path = Inr ()" "validate path' = Inr ()" "length root \<le> MAX_PATH" "length root' \<le> MAX_PATH"
    using scope_input_inj [of root path root' path' peer push peer' push'] that by blast
  moreover have "key_input d sc = key_input d' sc' \<longleftrightarrow> d = d' \<and> sc = sc'"
    using key_input_inj by blast
  ultimately show ?thesis by blast
qed

lemma cache_names_bind_witness:
  "scope_input 1 True (ascii ''r'') (ascii ''p'') \<noteq> scope_input 2 True (ascii ''r'') (ascii ''p'')"
proof -
  have "validate (ascii ''p'') = Inr ()"
    by (simp add: validate_def bad_component_def ascii_def dot_def dotdot_def MAX_PATH_def)
  then show ?thesis
    using cache_names_bind [of undefined undefined undefined undefined "ascii ''p''" "ascii ''p''" "ascii ''r''"
        "ascii ''r''" 1 True 2 True] by (simp add: MAX_PATH_def)
qed

end
