(* ===== verification/Access.thy ===== *)
theory Access
  imports Reconnection Chunk_Geometry
begin

text \<open>
  Configuration and authorization (\<open>src/config.rs\<close>, \<open>src/main.rs\<close>): the permission an identity has
  under an ordered list of rules, the checks a configuration passes before it is used, and the
  command line's remote argument. \<open>hex::decode\<close> (crate \<open>hex\<close>) is the parameter \<open>hex_decode\<close>, the
  YAML parser (crate \<open>serde-saphyr\<close>) the parameter \<open>parse\<close>. A \<open>PathBuf\<close> is its bytes.
\<close>

section \<open>Permissions\<close>

datatype permission = Full | Read | Deny

text \<open>Permissions are ordered by what they allow.\<close>

instantiation permission :: linorder
begin

fun permission_rank :: "permission \<Rightarrow> nat" where
  "permission_rank Deny = 0"
| "permission_rank Read = 1"
| "permission_rank Full = 2"

definition less_eq_permission :: "permission \<Rightarrow> permission \<Rightarrow> bool" where
  "less_eq_permission p q \<longleftrightarrow> permission_rank p \<le> permission_rank q"

definition less_permission :: "permission \<Rightarrow> permission \<Rightarrow> bool" where
  "less_permission p q \<longleftrightarrow> permission_rank p < permission_rank q"

instance
proof
  fix p q :: permission
  assume "p \<le> q" "q \<le> p"
  then show "p = q" by (cases p; cases q) (auto simp: less_eq_permission_def)
qed (auto simp: less_eq_permission_def less_permission_def)

end

record resume_config =
  chunk_size :: u32
  directory :: str
  max_bytes :: u64
  max_transfers :: u64
  retention_seconds :: u64

record config =
  permits :: "(str, permission) btree list"
  identity :: str
  reticulum_config :: "str option"
  timeout_seconds :: u64
  announce_seconds :: u64
  protocol :: byte
  resume :: "resume_config option"
  reconnect :: policy

definition default_config :: config where
  "default_config = \<lparr>permits = [], identity = ascii ''identity'', reticulum_config = None,
     timeout_seconds = 600, announce_seconds = 600, protocol = 1, resume = None,
     reconnect = default_policy\<rparr>"

definition others :: str where "others = ascii ''others''"

definition address :: "(str \<Rightarrow> byte list option) \<Rightarrow> str \<Rightarrow> ident res" where
  "address hex_decode s =
     (case hex_decode s of
        Some b \<Rightarrow>
          if length b = 16 then Inr (from_be_ident b)
          else Inl (Config (ascii ''expected 32 hexadecimal characters''))
      | None \<Rightarrow> Inl (Config (ascii ''expected 32 hexadecimal characters'')))"

text \<open>The two nested loops of \<open>permission\<close>; \<open>Inl\<close> is the early return.\<close>

definition permission_rule ::
  "(str \<Rightarrow> byte list option) \<Rightarrow> ident \<Rightarrow> str \<times> permission \<Rightarrow> permission option \<Rightarrow> permission + permission option" where
  "permission_rule hex_decode i kv fallback =
     (let (k, v) = kv in
      if k = others then Inr (case fallback of None \<Rightarrow> Some v | Some w \<Rightarrow> Some w)
      else if address hex_decode k = Inr i then Inl v
      else Inr fallback)"

definition permission_of :: "(str \<Rightarrow> byte list option) \<Rightarrow> config \<Rightarrow> ident \<Rightarrow> permission" where
  "permission_of hex_decode c i =
     (case foldR (foldR (permission_rule hex_decode i)) (permits c) None of
        Inl v \<Rightarrow> v
      | Inr fallback \<Rightarrow> (case fallback of Some v \<Rightarrow> v | None \<Rightarrow> Deny))"

definition permits_peer :: "(str \<Rightarrow> byte list option) \<Rightarrow> config \<Rightarrow> ident \<Rightarrow> bool" where
  "permits_peer hex_decode c i \<longleftrightarrow> permission_of hex_decode c i \<noteq> Deny"

section \<open>Checking a configuration\<close>

definition is_relative :: "str \<Rightarrow> bool" where
  "is_relative p \<longleftrightarrow> \<not> starts_with [slash] p"

definition path_join :: "str \<Rightarrow> str \<Rightarrow> str" where
  "path_join a b =
     (if \<not> is_relative b then b
      else if a = [] \<or> last a = slash then a @ b
      else a @ slash # b)"

definition check_rule :: "(str \<Rightarrow> byte list option) \<Rightarrow> (str, permission) btree \<Rightarrow> unit \<Rightarrow> unit res" where
  "check_rule hex_decode rule _ =
     (if length rule \<noteq> 1 then Inl (Config (ascii ''each permits item must contain exactly one address''))
      else let k = fst (hd rule) in
        if k \<noteq> others then bindR (address hex_decode k) (\<lambda>_. Inr ()) else Inr ())"

definition check_resume :: "(io_kind \<Rightarrow> str) \<Rightarrow> str \<Rightarrow> resume_config \<Rightarrow> resume_config res" where
  "check_resume io_text dir r =
     (case count 0 (chunk_size r) of
        Inl e \<Rightarrow> Inl (Config (error_text io_text e))
      | Inr _ \<Rightarrow>
          if max_bytes r = 0 \<or> max_transfers r = 0 \<or> MAX_ENTRIES \<le> unat (max_transfers r) then
            Inl (Config (ascii ''invalid resume cache limits''))
          else if is_relative (directory r) then Inr (r\<lparr>directory := path_join dir (directory r)\<rparr>)
          else Inr r)"

definition check_config ::
  "(str \<Rightarrow> byte list option) \<Rightarrow> (io_kind \<Rightarrow> str) \<Rightarrow> str \<Rightarrow> config \<Rightarrow> config res" where
  "check_config hex_decode io_text dir c =
     bindR (foldR (check_rule hex_decode) (permits c) ()) (\<lambda>_.
       if timeout_seconds c = 0 \<or> announce_seconds c = 0 then
         Inl (Config (ascii ''timeouts must be positive''))
       else let c = c\<lparr>identity := path_join dir (ascii ''identity'')\<rparr> in
         bindR (validate_policy (reconnect c)) (\<lambda>_.
           if 0 < attempts (reconnect c) \<and> protocol c \<noteq> 2 then
             Inl (Config (ascii ''automatic reconnect requires protocol 2''))
           else if (protocol c \<noteq> 1 \<and> protocol c \<noteq> 2) \<or> (protocol c = 2 \<and> resume c = None) then
             Inl (Config (ascii ''protocol must be 1 or 2; protocol 2 requires resume configuration''))
           else case resume c of
               None \<Rightarrow> Inr c
             | Some r \<Rightarrow> bindR (check_resume io_text dir r) (\<lambda>r. Inr (c\<lparr>resume := Some r\<rparr>))))"

text \<open>\<open>load_directory\<close> without the bootstrap of the default directory: \<open>contents\<close> is what reading
  \<open>config.yaml\<close> gives.\<close>

definition load_config ::
  "(str \<Rightarrow> byte list option) \<Rightarrow> (io_kind \<Rightarrow> str) \<Rightarrow> (str \<Rightarrow> str + config) \<Rightarrow> str \<Rightarrow> str res \<Rightarrow> config res" where
  "load_config hex_decode io_text parse dir contents =
     bindR contents (\<lambda>txt.
     bindR (case parse txt of Inl e \<Rightarrow> Inl (Config e) | Inr c \<Rightarrow> Inr c) (\<lambda>c.
       check_config hex_decode io_text dir c))"

section \<open>Which rule decides\<close>

definition specific :: "(str \<Rightarrow> byte list option) \<Rightarrow> ident \<Rightarrow> str \<times> permission \<Rightarrow> bool" where
  "specific hex_decode i kv \<longleftrightarrow> fst kv \<noteq> others \<and> address hex_decode (fst kv) = Inr i"

lemma foldR_concat: "foldR (foldR f) xss s = foldR f (concat xss) s"
  by (induction xss arbitrary: s) (auto simp: foldR_append intro: bindR_cong)

lemma permission_loop:
  "foldR (permission_rule hex i) kvs fallback =
     (case find (specific hex i) kvs of
        Some (k, v) \<Rightarrow> Inl v
      | None \<Rightarrow> Inr (case fallback of Some w \<Rightarrow> Some w
                     | None \<Rightarrow> map_option snd (find (\<lambda>(k, v). k = others) kvs)))"
proof (induction kvs arbitrary: fallback)
  case Nil
  then show ?case by (simp split: option.split)
next
  case (Cons kv kvs)
  then show ?case
    by (cases kv) (auto simp: permission_rule_def specific_def split: option.split)
qed

lemma check_rules:
  "foldR (check_rule hex) rules () = Inr () \<longleftrightarrow>
     (\<forall>rule \<in> set rules. \<exists>k v. rule = [(k, v)] \<and> (k = others \<or> (\<exists>i. address hex k = Inr i)))"
proof (induction rules)
  case (Cons rule rules)
  have "check_rule hex rule () = Inr () \<longleftrightarrow>
      (\<exists>k v. rule = [(k, v)] \<and> (k = others \<or> (\<exists>i. address hex k = Inr i)))"
    by (cases rule) (auto simp: check_rule_def result_simps Let_def)
  with Cons.IH show ?case by (auto simp: result_simps)
qed simp

definition resume_ok :: "resume_config \<Rightarrow> bool" where
  "resume_ok r \<longleftrightarrow>
     MIN_CHUNK_SIZE \<le> chunk_size r \<and> chunk_size r \<le> MAX_CHUNK_SIZE
     \<and> max_bytes r \<noteq> 0 \<and> 0 < unat (max_transfers r) \<and> unat (max_transfers r) < MAX_ENTRIES"

lemma check_resume_Inr:
  "check_resume io_text dir r = Inr r' \<longleftrightarrow>
     resume_ok r \<and> r' = r\<lparr>directory := path_join dir (directory r)\<rparr>"
proof (cases "count 0 (chunk_size r)")
  case (Inl e)
  then have "\<not> resume_ok r"
    using count_Inr [of 0 "chunk_size r" 0] by (auto simp: resume_ok_def MAX_FILE_def)
  with Inl show ?thesis by (simp add: check_resume_def)
next
  case (Inr n)
  then have cs: "MIN_CHUNK_SIZE \<le> chunk_size r" "chunk_size r \<le> MAX_CHUNK_SIZE"
    by (simp_all add: count_Inr)
  show ?thesis
  proof (cases "max_bytes r = 0 \<or> max_transfers r = 0 \<or> MAX_ENTRIES \<le> unat (max_transfers r)")
    case True
    with Inr show ?thesis by (auto simp: check_resume_def resume_ok_def)
  next
    case False
    then have "resume_ok r" using cs by (simp add: resume_ok_def unat_gt_0)
    moreover have "r\<lparr>directory := path_join dir (directory r)\<rparr> = r" if "\<not> is_relative (directory r)"
      using that by (simp add: path_join_def)
    ultimately show ?thesis
      using Inr False by (cases "is_relative (directory r)") (auto simp: check_resume_def)
  qed
qed

section \<open>Properties\<close>

text \<open>C32: Authorization. The first rule that names the identity's own address decides, wherever it
  stands; otherwise the first rule for \<open>others\<close>; otherwise access is denied.\<close>

theorem permission_decided:
  "permission_of hex_decode c i =
     (case find (specific hex_decode i) (concat (permits c)) of
        Some (k, v) \<Rightarrow> v
      | None \<Rightarrow> (case find (\<lambda>(k, v). k = others) (concat (permits c)) of
            Some (k, v) \<Rightarrow> v
          | None \<Rightarrow> Deny))"
  unfolding permission_of_def foldR_concat permission_loop
  by (auto split: option.split)

text \<open>The configurations that are accepted, and what they are changed to: one well-formed rule
  per item, positive timeouts, a bounded reconnect policy, which only protocol 2 may enable, a known
  protocol with a chunk cache of bounded geometry when it needs one, and every file of the program
  inside the configuration directory unless given as absolute.\<close>

theorem check_config_iff:
  "check_config hex_decode io_text dir c = Inr c' \<longleftrightarrow>
     (\<forall>rule \<in> set (permits c). \<exists>k v. rule = [(k, v)] \<and> (k = others \<or> (\<exists>i. address hex_decode k = Inr i)))
     \<and> timeout_seconds c \<noteq> 0 \<and> announce_seconds c \<noteq> 0
     \<and> policy_ok (reconnect c)
     \<and> (protocol c = 2 \<and> resume c \<noteq> None \<or> protocol c = 1 \<and> attempts (reconnect c) = 0)
     \<and> (case resume c of None \<Rightarrow> True | Some r \<Rightarrow> resume_ok r)
     \<and> c' = c\<lparr>identity := path_join dir (ascii ''identity''),
              resume := map_option (\<lambda>r. r\<lparr>directory := path_join dir (directory r)\<rparr>) (resume c)\<rparr>"
proof -
  have pos: "0 < w \<longleftrightarrow> w \<noteq> 0" for w :: u32 by (simp add: word_neq_0_conv)
  show ?thesis
  proof (cases "resume c")
    case None
    then have "resume (c\<lparr>identity := x\<rparr>) = None" and "c\<lparr>identity := x, resume := None\<rparr> = c\<lparr>identity := x\<rparr>" for x
      by simp_all
    with None show ?thesis
      by (auto simp: check_config_def result_simps check_rules validate_policy_Inr Let_def pos)
  next
    case (Some r)
    then show ?thesis
      by (auto simp: check_config_def result_simps check_rules validate_policy_Inr Let_def pos
          check_resume_Inr)
  qed
qed

text \<open>The remote argument of the command line: what is accepted is an address of 16 bytes before
  the first colon and, after an optional leading slash, the empty path (the export's root) or a valid
  relative path.\<close>

theorem remote_iff:
  "remote (address hex_decode) s = Inr (i, path) \<longleftrightarrow>
     (\<exists>a rest b. s = a @ colon # rest \<and> colon \<notin> set a
        \<and> (rest = slash # path \<or> rest = path \<and> \<not> starts_with [slash] path)
        \<and> (path = [] \<or> valid_path path)
        \<and> hex_decode a = Some b \<and> length b = 16 \<and> i = from_be_ident b)"
proof -
  have split: "split_once colon s = Some (a, rest) \<longleftrightarrow> s = a @ colon # rest \<and> colon \<notin> set a" for a rest
    by (rule split_once_Some)
  have addr: "address hex_decode a = Inr i \<longleftrightarrow> (\<exists>b. hex_decode a = Some b \<and> length b = 16 \<and> i = from_be_ident b)" for a
    by (auto simp: address_def split: option.split)
  have strip: "(case strip_prefix [slash] rest of Some r \<Rightarrow> r | None \<Rightarrow> rest) = path \<longleftrightarrow>
      rest = slash # path \<or> rest = path \<and> \<not> starts_with [slash] path" for rest
    by (cases rest) (auto simp: strip_prefix_def starts_with_def)
  show ?thesis
  proof (cases "split_once colon s")
    case None
    then have "\<not> (\<exists>a rest. s = a @ colon # rest \<and> colon \<notin> set a)" using split by auto
    with None show ?thesis by (auto simp: remote_def)
  next
    case (Some ar)
    obtain a rest where ar: "ar = (a, rest)" by (cases ar)
    with Some have here: "(s = a' @ colon # rest' \<and> colon \<notin> set a') \<longleftrightarrow> a' = a \<and> rest' = rest" for a' rest'
      using split [of a' rest'] by auto
    have only: "(\<exists>a rest b. s = a @ colon # rest \<and> colon \<notin> set a \<and> P a rest b) \<longleftrightarrow> (\<exists>b. P a rest b)" for P
      unfolding conj_assoc [symmetric] here by auto
    moreover have "remote (address hex_decode) s = Inr (i, path) \<longleftrightarrow>
        (case strip_prefix [slash] rest of Some r \<Rightarrow> r | None \<Rightarrow> rest) = path
        \<and> (path = [] \<or> valid_path path) \<and> address hex_decode a = Inr i"
      using Some ar by (auto simp: remote_def Let_def result_simps valid_path_def split: if_splits)
    ultimately show ?thesis unfolding strip addr only by simp
  qed
qed

section \<open>Witnesses\<close>

definition open_config :: config where
  "open_config = default_config\<lparr>permits := [[(others, Read)]]\<rparr>"

lemma check_config_iff_witness:
  "check_config (\<lambda>_. None) (\<lambda>_. []) (ascii ''c'') open_config
     = Inr (open_config\<lparr>identity := ascii ''c/identity''\<rparr>)"
proof -
  have "path_join (ascii ''c'') (ascii ''identity'') = ascii ''c/identity''"
    by (simp add: path_join_def is_relative_def starts_with_def ascii_def)
  then show ?thesis
    unfolding check_config_iff
    by (simp add: open_config_def default_config_def default_policy_def policy_ok_def)
qed

lemma remote_iff_witness:
  "remote (address (\<lambda>_. Some (replicate 16 0))) (ascii ''ab:/x'') = Inr (from_be_ident (replicate 16 0), ascii ''x'')"
  unfolding remote_iff
  by (intro exI [of _ "ascii ''ab''"] exI [of _ "ascii ''/x''"] exI [of _ "replicate 16 0"])
    (simp add: ascii_def valid_path_def validate_def bad_component_def dot_def dotdot_def MAX_PATH_def)

end
