(* ===== verification/Engine1.thy ===== *)
theory Engine1
  imports Sync_Ops Codec1 Access
begin

text \<open>
  The server of protocol version 1 (\<open>src/engine.rs\<close>): one session at a time, owned by the connection
  that started it, driven by the messages of that connection, by file completions, disconnects and
  the inactivity lease. Every handler has the source's guards in the source's order.

  \<open>handle\<close> drops the session of the requesting connection when \<open>handle_inner\<close> fails, so what a failing
  handler has already changed in its session is lost; \<open>handle_inner\<close> therefore returns the new server
  only on success.
\<close>

section \<open>State\<close>

record received_file =
  rf_transfer :: hash
  rf_file :: fd
  rf_size :: u64
  rf_metadata :: bool

datatype reply = Reply message | Reply_file message fd

record session =
  s_connection :: ident
  s_push :: bool
  s_options :: options
  s_root :: root
  s_source :: manifest
  s_destination :: manifest
  s_scan :: scan_result
  s_plan :: sync_plan
  s_prepared :: bool
  s_pending :: "nat option"
  s_received :: "received_file option"
  s_done :: "nat fset"
  s_activity :: nat

record server =
  v_root :: root
  v_session :: "session option"

definition active :: "server \<Rightarrow> bool" where
  "active v \<longleftrightarrow> v_session v \<noteq> None"

definition new_server :: "root \<Rightarrow> server" where
  "new_server r = \<lparr>v_root = r, v_session = None\<rparr>"

section \<open>Events of the connection\<close>

definition disconnect :: "ident \<Rightarrow> server \<Rightarrow> server" where
  "disconnect c v =
     (if (case v_session v of None \<Rightarrow> False | Some s \<Rightarrow> s_connection s = c)
      then v\<lparr>v_session := None\<rparr> else v)"

definition touch :: "ident \<Rightarrow> nat \<Rightarrow> server \<Rightarrow> server" where
  "touch c now v =
     (case v_session v of
        Some s \<Rightarrow> if s_connection s = c then v\<lparr>v_session := Some (s\<lparr>s_activity := now\<rparr>)\<rparr> else v
      | None \<Rightarrow> v)"

text \<open>\<open>saturating_duration_since\<close> is the truncated difference.\<close>

definition expire :: "nat \<Rightarrow> nat \<Rightarrow> server \<Rightarrow> ident option \<times> server" where
  "expire now timeout v =
     (case v_session v of
        Some s \<Rightarrow>
          if timeout < now - s_activity s then (Some (s_connection s), v\<lparr>v_session := None\<rparr>)
          else (None, v)
      | None \<Rightarrow> (None, v))"

definition accepts_file :: "server \<Rightarrow> ident \<Rightarrow> u64 \<Rightarrow> bool \<Rightarrow> bool outcome" where
  "accepts_file v c sz has_metadata =
     (case v_session v of
        None \<Rightarrow> Inr False
      | Some s \<Rightarrow>
          if s_connection s = c \<and> s_push s \<and> \<not> dry_run (s_options s) \<and> \<not> has_metadata then
            (case s_pending s of
               None \<Rightarrow> Inr False
             | Some index \<Rightarrow>
                 if index < length (s_source s) then Inr (e_size (s_source s ! index) = sz) else Inl Panics)
          else Inr False)"

definition receive :: "ident \<Rightarrow> received_file \<Rightarrow> server \<Rightarrow> server outcome" where
  "receive c f v =
     bindR (accepts_file v c (rf_size f) (rf_metadata f)) (\<lambda>accepted.
       case v_session v of
         Some s \<Rightarrow>
           if accepted \<and> s_received s = None then Inr (v\<lparr>v_session := Some (s\<lparr>s_received := Some f\<rparr>)\<rparr>)
           else Inr v
       | None \<Rightarrow> Inr v)"

section \<open>Commands\<close>

definition protocol_error :: "string \<Rightarrow> ('w, 'a) io" where
  "protocol_error t = failI (Protocol (ascii t))"

definition require_file :: "session \<Rightarrow> nat \<Rightarrow> bool \<Rightarrow> ('w, unit) io" where
  "require_file s index push =
     (if s_push s \<noteq> push \<or> index \<notin> set (files (s_plan s)) \<or> index |\<in>| s_done s
      then protocol_error ''file not in pending plan'' else returnI ())"

definition check_source_entry :: "'w os \<Rightarrow> root \<Rightarrow> scan_result \<Rightarrow> entry \<Rightarrow> ('w, unit) io" where
  "check_source_entry os r sc e =
     (if e_kind e \<noteq> Protected then
        bindI (presentI (bt_get (sc_stamps sc) (e_path e))) (\<lambda>st. ensure_unchanged os r (e_path e) st)
      else returnI ())"

definition check_source :: "'w os \<Rightarrow> root \<Rightarrow> scan_result \<Rightarrow> ('w, unit) io" where
  "check_source os r sc =
     bindI (case bt_get (sc_stamps sc) [] of
              Some st \<Rightarrow> ensure_unchanged os r [] st
            | None \<Rightarrow> returnI ()) (\<lambda>_.
       eachI (check_source_entry os r sc) (sc_entries sc))"

definition begin_file :: "'w os \<Rightarrow> session \<Rightarrow> nat \<Rightarrow> ('w, session) io" where
  "begin_file os s i =
     bindI (require_file s i True) (\<lambda>_.
       if s_pending s \<noteq> None then protocol_error ''file already pending''
       else bindI (if s_prepared s then returnI ()
                   else prepare os (s_root s) (s_source s) (s_plan s)) (\<lambda>_.
            returnI (s\<lparr>s_prepared := True, s_pending := Some i\<rparr>)))"

definition commit_file :: "'w os \<Rightarrow> (byte list \<Rightarrow> hash) \<Rightarrow> session \<Rightarrow> nat \<Rightarrow> hash \<Rightarrow> ('w, session) io" where
  "commit_file os sha s i resource =
     bindI (require_file s i True) (\<lambda>_.
       if s_pending s \<noteq> Some i then protocol_error ''unexpected file commit''
       else case s_received s of
         None \<Rightarrow> protocol_error ''file Resource not received''
       | Some f \<Rightarrow>
           bindI (indexI (s_source s) i) (\<lambda>e.
             if rf_transfer f \<noteq> resource \<or> rf_size f \<noteq> e_size e \<or> rf_metadata f
             then protocol_error ''unexpected Resource metadata/hash/size''
             else bindI (install os sha (s_root s) e (s_destination s) (s_plan s) (rf_file f)) (\<lambda>_.
                  returnI (s\<lparr>s_received := None, s_pending := None, s_done := finsert i (s_done s)\<rparr>))))"

definition get_file :: "'w os \<Rightarrow> session \<Rightarrow> nat \<Rightarrow> ('w, fd \<times> session) io" where
  "get_file os s i =
     bindI (require_file s i False) (\<lambda>_.
       if s_pending s \<noteq> None then protocol_error ''file already pending''
       else bindI (indexI (s_source s) i) (\<lambda>e.
            bindI (presentI (bt_get (sc_stamps (s_scan s)) (e_path e))) (\<lambda>st.
            bindI (snapshot os (s_root s) (e_path e) st) (\<lambda>f.
              returnI (f, s\<lparr>s_pending := Some i\<rparr>)))))"

definition verify_file :: "'w os \<Rightarrow> session \<Rightarrow> nat \<Rightarrow> ('w, session) io" where
  "verify_file os s i =
     bindI (require_file s i False) (\<lambda>_.
       if s_pending s \<noteq> Some i then protocol_error ''unexpected verification''
       else bindI (indexI (s_source s) i) (\<lambda>e.
            bindI (presentI (bt_get (sc_stamps (s_scan s)) (e_path e))) (\<lambda>st.
            bindI (ensure_unchanged os (s_root s) (e_path e) st) (\<lambda>_.
              returnI (s\<lparr>s_pending := None, s_done := finsert i (s_done s)\<rparr>)))))"

definition finish_session :: "'w os \<Rightarrow> session \<Rightarrow> ('w, unit) io" where
  "finish_session os s =
     (if dry_run (s_options s) then returnI ()
      else if s_pending s \<noteq> None \<or> fcard (s_done s) \<noteq> length (files (s_plan s))
      then protocol_error ''unfinished file transfers''
      else if s_push s then
        bindI (if s_prepared s then returnI ()
               else prepare os (s_root s) (s_source s) (s_plan s)) (\<lambda>_.
          finish os (s_root s) (s_source s) (s_plan s))
      else check_source os (s_root s) (s_scan s))"

definition start_session ::
  "'w os \<Rightarrow> (byte list \<Rightarrow> hash) \<Rightarrow> ident \<Rightarrow> permission \<Rightarrow> bool \<Rightarrow> options \<Rightarrow> str \<Rightarrow> manifest \<Rightarrow> server
     \<Rightarrow> ('w, reply \<times> server) io" where
  "start_session os sha c perm push opt path m v =
     (if push \<and> perm \<noteq> Full then failI PermissionDenied
      else if v_session v \<noteq> None then failI Busy
      else bindI (liftI (subtree (v_root v) path)) (\<lambda>r.
           bindI (if push then returnI True else exists_path os r []) (\<lambda>there.
             if \<not> there then failI (Io NotFound)
             else bindI (scan_root os sha r (checksum opt)) (\<lambda>sc.
               let (src, dst) = (if push then (m, sc_entries sc) else (sc_entries sc, m)) in
               bindI (liftI (plan src dst opt)) (\<lambda>p.
               bindI (nowI os) (\<lambda>now.
                 returnI (Reply (Manifest (sc_entries sc)),
                   v\<lparr>v_session := Some \<lparr>s_connection = c, s_push = push, s_options = opt, s_root = r,
                     s_source = src, s_destination = dst, s_scan = sc, s_plan = p, s_prepared = False,
                     s_pending = None, s_received = None, s_done = {||}, s_activity = now\<rparr>\<rparr>)))))))"

definition command ::
  "'w os \<Rightarrow> (byte list \<Rightarrow> hash) \<Rightarrow> message \<Rightarrow> session \<Rightarrow> ('w, reply \<times> session option) io" where
  "command os sha req s =
     (case req of
        Begin i \<Rightarrow> bindI (begin_file os s (unat i)) (\<lambda>s. returnI (Reply Ok, Some s))
      | Commit i resource \<Rightarrow>
          bindI (commit_file os sha s (unat i) resource) (\<lambda>s. returnI (Reply Ok, Some s))
      | Get i \<Rightarrow> bindI (get_file os s (unat i)) (\<lambda>(f, s). returnI (Reply_file Ok f, Some s))
      | Verified i \<Rightarrow> bindI (verify_file os s (unat i)) (\<lambda>s. returnI (Reply Ok, Some s))
      | Finish \<Rightarrow> bindI (finish_session os s) (\<lambda>_. returnI (Reply Ok, None))
      | _ \<Rightarrow> protocol_error ''unexpected request'')"

definition handle_command ::
  "'w os \<Rightarrow> (byte list \<Rightarrow> hash) \<Rightarrow> ident \<Rightarrow> message \<Rightarrow> server \<Rightarrow> ('w, reply \<times> server) io" where
  "handle_command os sha c req v =
     (case v_session v of
        None \<Rightarrow> protocol_error ''no active session''
      | Some s \<Rightarrow>
          if s_connection s \<noteq> c then protocol_error ''no active session''
          else bindI (nowI os) (\<lambda>now.
            let s = s\<lparr>s_activity := now\<rparr> in
            if dry_run (s_options s) \<and> req \<noteq> Finish then protocol_error ''mutating command in dry-run''
            else bindI (command os sha req s) (\<lambda>(rep, s). returnI (rep, v\<lparr>v_session := s\<rparr>))))"

definition handle_inner ::
  "'w os \<Rightarrow> (byte list \<Rightarrow> hash) \<Rightarrow> ident \<Rightarrow> permission \<Rightarrow> message \<Rightarrow> server \<Rightarrow> ('w, reply \<times> server) io" where
  "handle_inner os sha c perm req v =
     (if perm = Deny then failI PermissionDenied
      else case req of
        Start push opt path m \<Rightarrow> start_session os sha c perm push opt path m v
      | _ \<Rightarrow> handle_command os sha c req v)"

definition handle ::
  "'w os \<Rightarrow> (byte list \<Rightarrow> hash) \<Rightarrow> ident \<Rightarrow> permission \<Rightarrow> message \<Rightarrow> server \<Rightarrow> 'w
     \<Rightarrow> (reply outcome \<times> server) \<times> 'w" where
  "handle os sha c perm req v w =
     (case handle_inner os sha c perm req v w of
        (Inr (rep, v'), w') \<Rightarrow> ((Inr rep, v'), w')
      | (Inl e, w') \<Rightarrow> ((Inl e, disconnect c v), w'))"

section \<open>Reachable servers\<close>

text \<open>
  What can happen to a server of the export \<open>r\<close>, when the adapter gives each connection the
  permission \<open>perms\<close> of its identity. The world at each step is arbitrary: between two steps anything
  may have happened to the file system and the clock.
\<close>

inductive step ::
  "'w os \<Rightarrow> (byte list \<Rightarrow> hash) \<Rightarrow> (ident \<Rightarrow> permission) \<Rightarrow> server \<Rightarrow> server \<Rightarrow> bool"
  for os :: "'w os" and sha perms where
  request: "handle os sha c (perms c) req v w = ((r, v'), w') \<Longrightarrow> step os sha perms v v'"
| completion: "receive c f v = Inr v' \<Longrightarrow> step os sha perms v v'"
| lost: "step os sha perms v (disconnect c v)"
| traffic: "step os sha perms v (touch c now v)"
| lease: "step os sha perms v (snd (expire now timeout v))"

definition reachable ::
  "'w os \<Rightarrow> (byte list \<Rightarrow> hash) \<Rightarrow> (ident \<Rightarrow> permission) \<Rightarrow> root \<Rightarrow> server \<Rightarrow> bool" where
  "reachable os sha perms r v \<longleftrightarrow> (step os sha perms)\<^sup>*\<^sup>* (new_server r) v"

section \<open>The invariant of a session\<close>

text \<open>\<open>session_core\<close> is the part that the sessions of protocol version 2 share.\<close>

definition session_core :: "(ident \<Rightarrow> permission) \<Rightarrow> session \<Rightarrow> bool" where
  "session_core perms s \<longleftrightarrow>
     perms (s_connection s) \<noteq> Deny \<and> (s_push s \<longrightarrow> perms (s_connection s) = Full)
     \<and> scan_ok (checksum (s_options s)) (s_scan s)
     \<and> plan (s_source s) (s_destination s) (s_options s) = Inr (s_plan s)
     \<and> sc_entries (s_scan s) = (if s_push s then s_destination s else s_source s)
     \<and> fset (s_done s) \<subseteq> set (files (s_plan s))
     \<and> (\<forall>i. s_pending s = Some i \<longrightarrow> i \<in> set (files (s_plan s)) \<and> i |\<notin>| s_done s)
     \<and> (dry_run (s_options s) \<longrightarrow> s_pending s = None \<and> s_done s = {||} \<and> \<not> s_prepared s)
     \<and> (s_prepared s \<longrightarrow> s_push s)
     \<and> (s_push s \<longrightarrow> s_prepared s \<or> s_done s = {||})"

definition session_ok :: "(ident \<Rightarrow> permission) \<Rightarrow> session \<Rightarrow> bool" where
  "session_ok perms s \<longleftrightarrow>
     session_core perms s
     \<and> (\<forall>f. s_received s = Some f \<longrightarrow>
          s_push s \<and> \<not> rf_metadata f
          \<and> (\<exists>i. s_pending s = Some i \<and> rf_size f = e_size (s_source s ! i)))
     \<and> (s_push s \<longrightarrow> s_prepared s \<or> s_pending s = None)"

lemmas session_ok_defs = session_ok_def session_core_def

lemma session_ok_core: "session_ok perms s \<Longrightarrow> session_core perms s"
  by (simp add: session_ok_def)

definition server_ok :: "(ident \<Rightarrow> permission) \<Rightarrow> server \<Rightarrow> bool" where
  "server_ok perms v \<longleftrightarrow> (\<forall>s. v_session v = Some s \<longrightarrow> session_ok perms s)"

lemma core_permission:
  assumes "session_core perms s"
  shows "perms (s_connection s) \<noteq> Deny" "s_push s \<Longrightarrow> perms (s_connection s) = Full"
  using assms unfolding session_core_def by blast+

lemma core_plan:
  assumes "session_core perms s"
  shows "plan (s_source s) (s_destination s) (s_options s) = Inr (s_plan s)"
  using assms by (simp add: session_core_def)

lemma core_file:
  assumes "session_core perms s" "i \<in> set (files (s_plan s))"
  shows "i < length (s_source s)" "e_kind (s_source s ! i) = File" "e_size (s_source s ! i) \<le> MAX_FILE"
proof -
  note p = core_plan [OF assms(1)]
  from assms(2) show "i < length (s_source s)" "e_kind (s_source s ! i) = File"
    by (simp_all add: planD(3) [OF p] planned_files transferred_def)
  then show "e_size (s_source s ! i) \<le> MAX_FILE"
    using manifest_ok_entry [OF planD(1) [OF p], of "s_source s ! i"] by (simp add: entry_ok_def)
qed

lemma core_directories:
  "session_core perms s \<Longrightarrow> i \<in> set (directories (s_plan s)) \<Longrightarrow> i < length (s_source s)"
  using planD(3) [OF core_plan] by (simp add: planned_directories)

lemma core_pending:
  assumes "session_core perms s" "s_pending s = Some i"
  shows "i \<in> set (files (s_plan s))" "i |\<notin>| s_done s" "i < length (s_source s)"
proof -
  show i: "i \<in> set (files (s_plan s))" "i |\<notin>| s_done s" using assms by (simp_all add: session_core_def)
  show "i < length (s_source s)" by (rule core_file(1) [OF assms(1) i(1)])
qed

lemma core_stamp:
  assumes "session_core perms s" "\<not> s_push s" "i \<in> set (files (s_plan s))"
  obtains st where "bt_get (sc_stamps (s_scan s)) (e_path (s_source s ! i)) = Some st"
    "st_size st \<le> MAX_FILE"
proof -
  note f = core_file [OF assms(1,3)]
  have "s_source s ! i \<in> set (sc_entries (s_scan s))"
    using assms(1,2) f(1) by (simp add: session_core_def)
  then show ?thesis
    using assms(1) f that unfolding session_core_def scan_ok_def by metis
qed

lemma distinct_files: "plan src dst opt = Inr p \<Longrightarrow> distinct (files p)"
  using planD(3) [of src dst opt p] by (simp add: planned_def Let_def)

lemma core_all_done:
  assumes ok: "session_core perms s" and n: "fcard (s_done s) = length (files (s_plan s))"
  shows "fset (s_done s) = set (files (s_plan s))"
proof (rule card_subset_eq)
  show "fset (s_done s) \<subseteq> set (files (s_plan s))" using ok by (simp add: session_core_def)
  show "card (fset (s_done s)) = card (set (files (s_plan s)))"
    using n distinct_card [OF distinct_files [OF core_plan [OF ok]]] by (simp add: fcard.rep_eq)
qed simp

lemmas session_permission = core_permission [OF session_ok_core]
lemmas session_plan = core_plan [OF session_ok_core]
lemmas session_file = core_file [OF session_ok_core]
lemmas session_directories = core_directories [OF session_ok_core]
lemmas session_pending = core_pending [OF session_ok_core]
lemmas session_all_done = core_all_done [OF session_ok_core]
lemmas session_stamp = core_stamp [OF session_ok_core]

section \<open>Every operation keeps the invariant\<close>

lemma require_file_Inr [io_simps]:
  "require_file s i push w = (Inr u, w') \<longleftrightarrow>
     s_push s = push \<and> i \<in> set (files (s_plan s)) \<and> i |\<notin>| s_done s \<and> w' = w"
  by (auto simp: require_file_def protocol_error_def)

lemma protocol_error_Inr [simp]: "protocol_error t w \<noteq> (Inr x, w')"
  by (simp add: protocol_error_def)

lemma if_protocol_error_Inr [io_simps]:
  "(if b then protocol_error t else m) w = (Inr x, w') \<longleftrightarrow> \<not> b \<and> m w = (Inr x, w')"
  by simp

lemma begin_file_Inr:
  "begin_file os s i w = (Inr s', w') \<longleftrightarrow>
     s_push s \<and> i \<in> set (files (s_plan s)) \<and> i |\<notin>| s_done s \<and> s_pending s = None
     \<and> s' = s\<lparr>s_prepared := True, s_pending := Some i\<rparr>
     \<and> (if s_prepared s then w' = w else prepare os (s_root s) (s_source s) (s_plan s) w = (Inr (), w'))"
  by (auto simp: begin_file_def io_simps)

lemma commit_file_Inr:
  "commit_file os sha s i resource w = (Inr s', w') \<longleftrightarrow>
     s_push s \<and> i \<in> set (files (s_plan s)) \<and> i |\<notin>| s_done s \<and> s_pending s = Some i
     \<and> i < length (s_source s)
     \<and> (\<exists>f. s_received s = Some f \<and> rf_transfer f = resource \<and> rf_size f = e_size (s_source s ! i)
          \<and> \<not> rf_metadata f
          \<and> install os sha (s_root s) (s_source s ! i) (s_destination s) (s_plan s) (rf_file f) w = (Inr (), w'))
     \<and> s' = s\<lparr>s_received := None, s_pending := None, s_done := finsert i (s_done s)\<rparr>"
  by (cases "s_received s") (auto simp: commit_file_def io_simps)

lemma get_file_Inr:
  "get_file os s i w = (Inr (f, s'), w') \<longleftrightarrow>
     \<not> s_push s \<and> i \<in> set (files (s_plan s)) \<and> i |\<notin>| s_done s \<and> s_pending s = None
     \<and> i < length (s_source s)
     \<and> (\<exists>st. bt_get (sc_stamps (s_scan s)) (e_path (s_source s ! i)) = Some st
          \<and> snapshot os (s_root s) (e_path (s_source s ! i)) st w = (Inr f, w'))
     \<and> s' = s\<lparr>s_pending := Some i\<rparr>"
  by (auto simp: get_file_def io_simps)

lemma verify_file_Inr:
  "verify_file os s i w = (Inr s', w') \<longleftrightarrow>
     \<not> s_push s \<and> i \<in> set (files (s_plan s)) \<and> i |\<notin>| s_done s \<and> s_pending s = Some i
     \<and> i < length (s_source s)
     \<and> (\<exists>st. bt_get (sc_stamps (s_scan s)) (e_path (s_source s ! i)) = Some st
          \<and> ensure_unchanged os (s_root s) (e_path (s_source s ! i)) st w = (Inr (), w'))
     \<and> s' = s\<lparr>s_pending := None, s_done := finsert i (s_done s)\<rparr>"
  by (auto simp: verify_file_def io_simps)

lemma session_begin:
  "session_ok perms s \<Longrightarrow> \<not> dry_run (s_options s) \<Longrightarrow> begin_file os s i w = (Inr s', w') \<Longrightarrow> session_ok perms s'"
  unfolding begin_file_Inr by (auto simp: session_ok_defs)

lemma session_commit:
  "session_ok perms s \<Longrightarrow> \<not> dry_run (s_options s) \<Longrightarrow> commit_file os sha s i resource w = (Inr s', w')
     \<Longrightarrow> session_ok perms s'"
  unfolding commit_file_Inr by (auto simp: session_ok_defs)

lemma session_get:
  "session_ok perms s \<Longrightarrow> \<not> dry_run (s_options s) \<Longrightarrow> get_file os s i w = (Inr (f, s'), w') \<Longrightarrow> session_ok perms s'"
  unfolding get_file_Inr by (auto simp: session_ok_defs)

lemma session_verify:
  "session_ok perms s \<Longrightarrow> \<not> dry_run (s_options s) \<Longrightarrow> verify_file os s i w = (Inr s', w') \<Longrightarrow> session_ok perms s'"
  unfolding verify_file_Inr by (auto simp: session_ok_defs)

lemma session_activity: "session_ok perms (s\<lparr>s_activity := now\<rparr>) \<longleftrightarrow> session_ok perms s"
  by (simp add: session_ok_defs)

lemma command_Inr:
  "command os sha req s w = (Inr (rep, next), w') \<longleftrightarrow>
     (case req of
        Begin i \<Rightarrow> \<exists>s'. begin_file os s (unat i) w = (Inr s', w') \<and> rep = Reply Ok \<and> next = Some s'
      | Commit i h \<Rightarrow> \<exists>s'. commit_file os sha s (unat i) h w = (Inr s', w') \<and> rep = Reply Ok \<and> next = Some s'
      | Get i \<Rightarrow> \<exists>f s'. get_file os s (unat i) w = (Inr (f, s'), w') \<and> rep = Reply_file Ok f \<and> next = Some s'
      | Verified i \<Rightarrow> \<exists>s'. verify_file os s (unat i) w = (Inr s', w') \<and> rep = Reply Ok \<and> next = Some s'
      | Finish \<Rightarrow> finish_session os s w = (Inr (), w') \<and> rep = Reply Ok \<and> next = None
      | _ \<Rightarrow> False)"
  by (cases req) (auto simp: command_def io_simps)

lemma command_session_ok:
  assumes "session_ok perms s" "\<not> dry_run (s_options s) \<or> req = Finish"
    "command os sha req s w = (Inr (rep, Some s'), w')"
  shows "session_ok perms s'"
  using assms(3) assms(1,2) session_begin session_commit session_get session_verify
  unfolding command_Inr by (cases req) auto

definition fresh_session ::
  "ident \<Rightarrow> bool \<Rightarrow> options \<Rightarrow> root \<Rightarrow> manifest \<Rightarrow> scan_result \<Rightarrow> sync_plan \<Rightarrow> nat \<Rightarrow> session" where
  "fresh_session c push opt r m sc p now =
     \<lparr>s_connection = c, s_push = push, s_options = opt, s_root = r,
      s_source = (if push then m else sc_entries sc), s_destination = (if push then sc_entries sc else m),
      s_scan = sc, s_plan = p, s_prepared = False, s_pending = None, s_received = None, s_done = {||},
      s_activity = now\<rparr>"

lemma start_session_Inr:
  assumes "start_session os sha c perm push opt path m v w = (Inr (rep, v'), w')"
  shows "\<exists>r sc p now w1 w2. (push \<longrightarrow> perm = Full) \<and> v_session v = None \<and> subtree (v_root v) path = Inr r
    \<and> scan_root os sha r (checksum opt) w1 = (Inr sc, w2) \<and> rep = Reply (Manifest (sc_entries sc))
    \<and> plan (if push then m else sc_entries sc) (if push then sc_entries sc else m) opt = Inr p
    \<and> v' = v\<lparr>v_session := Some (fresh_session c push opt r m sc p now)\<rparr>"
proof (cases push)
  case True
  with assms show ?thesis
    by (auto simp: start_session_def fresh_session_def io_simps Let_def)
next
  case False
  with assms show ?thesis
    by (auto simp: start_session_def fresh_session_def io_simps Let_def)
qed

lemma fresh_session_ok:
  assumes "scan_root os sha r (checksum opt) w1 = (Inr sc, w2)"
    "plan (if push then m else sc_entries sc) (if push then sc_entries sc else m) opt = Inr p"
    "perms c \<noteq> Deny" "push \<longrightarrow> perms c = Full"
  shows "session_ok perms (fresh_session c push opt r m sc p now)"
  using assms scan_root_ok [OF assms(1)] by (auto simp: session_ok_defs fresh_session_def)

lemma handle_inner_ok:
  assumes "handle_inner os sha c (perms c) req v w = (Inr (rep, v'), w')" "server_ok perms v"
  shows "server_ok perms v'"
proof (cases "\<exists>push opt path m. req = Start push opt path m")
  case True
  then obtain push opt path m where req: "req = Start push opt path m" by blast
  with assms(1) have perm: "perms c \<noteq> Deny"
    and run: "start_session os sha c (perms c) push opt path m v w = (Inr (rep, v'), w')"
    by (auto simp: handle_inner_def split: if_splits)
  from start_session_Inr [OF run] obtain r sc p now w1 w2 where st:
    "push \<longrightarrow> perms c = Full" "scan_root os sha r (checksum opt) w1 = (Inr sc, w2)"
    "plan (if push then m else sc_entries sc) (if push then sc_entries sc else m) opt = Inr p"
    "v' = v\<lparr>v_session := Some (fresh_session c push opt r m sc p now)\<rparr>" by blast
  have "session_ok perms (fresh_session c push opt r m sc p now)"
    by (rule fresh_session_ok [OF st(2,3)]) (use perm st(1) in simp_all)
  with st(4) show ?thesis by (simp add: server_ok_def)
next
  case False
  with assms(1) have run: "handle_command os sha c req v w = (Inr (rep, v'), w')"
    by (cases req) (auto simp: handle_inner_def split: if_splits)
  then obtain s now w1 nx where s: "v_session v = Some s" "s_connection s = c"
    "\<not> dry_run (s_options s) \<or> req = Finish"
    "command os sha req (s\<lparr>s_activity := now\<rparr>) w1 = (Inr (rep, nx), w')" "v' = v\<lparr>v_session := nx\<rparr>"
    by (auto simp: handle_command_def io_simps Let_def split: option.splits if_splits)
  have "session_ok perms (s\<lparr>s_activity := now\<rparr>)"
    using assms(2) s(1) by (simp add: server_ok_def session_activity)
  with command_session_ok [of perms "s\<lparr>s_activity := now\<rparr>" req os sha w1 rep _ w'] s show ?thesis
    by (auto simp: server_ok_def)
qed

lemma receive_ok:
  assumes "receive c f v = Inr v'" "server_ok perms v"
  shows "server_ok perms v'"
proof (cases "v_session v")
  case (Some s)
  with assms(2) have s: "session_ok perms s" by (simp add: server_ok_def)
  show ?thesis
  proof (cases "s_received s = None \<and> accepts_file v c (rf_size f) (rf_metadata f) = Inr True")
    case True
    then obtain i where "s_push s" "\<not> dry_run (s_options s)" "\<not> rf_metadata f" "s_pending s = Some i"
      "e_size (s_source s ! i) = rf_size f"
      using Some by (auto simp: accepts_file_def split: if_splits option.splits)
    then have "session_ok perms (s\<lparr>s_received := Some f\<rparr>)"
      using s by (auto simp: session_ok_defs)
    moreover have "v' = v\<lparr>v_session := Some (s\<lparr>s_received := Some f\<rparr>)\<rparr>"
      using assms(1) Some True by (simp add: receive_def)
    ultimately show ?thesis by (simp add: server_ok_def)
  next
    case False
    then have "v' = v"
      using assms(1) Some by (auto simp: receive_def result_simps split: if_splits)
    with assms(2) show ?thesis by simp
  qed
next
  case None
  then have "v' = v" using assms(1) by (simp add: receive_def accepts_file_def)
  with assms(2) show ?thesis by simp
qed

lemma disconnect_ok: "server_ok perms v \<Longrightarrow> server_ok perms (disconnect c v)"
  by (simp add: disconnect_def server_ok_def)

lemma step_ok: "step os sha perms v v' \<Longrightarrow> server_ok perms v \<Longrightarrow> server_ok perms v'"
proof (induction rule: step.induct)
  case (request c req v w r v' w')
  obtain x w1 where x: "handle_inner os sha c (perms c) req v w = (x, w1)" by fastforce
  show ?case
  proof (cases x)
    case (Inl e)
    with request x show ?thesis by (auto simp: handle_def intro: disconnect_ok)
  next
    case (Inr y)
    obtain rep v2 where "y = (rep, v2)" by (cases y)
    with Inr request x show ?thesis by (auto simp: handle_def intro: handle_inner_ok)
  qed
next
  case (traffic v c now)
  then show ?case by (auto simp: touch_def server_ok_def session_activity split: option.split)
next
  case (lease v now timeout)
  then show ?case by (auto simp: expire_def server_ok_def split: option.split)
qed (auto intro: receive_ok disconnect_ok)

interpretation v1: machine "step os sha perms" "new_server r" "server_ok perms" for os sha perms r
  by unfold_locales (simp add: server_ok_def new_server_def, erule (1) step_ok)

lemma reachable_ok: "reachable os sha perms r v \<Longrightarrow> server_ok perms v"
  unfolding reachable_def by (rule v1.reach_inv)

section \<open>No input makes a reachable server panic\<close>

lemma never_protocol_error [never_rules]: "fault f \<Longrightarrow> never f (protocol_error t)"
  by (simp add: protocol_error_def never_rules)

lemma safe_require: "safe (require_file s i push)"
  by (auto simp: require_file_def intro!: never_rules)

lemma ensures_require: "ensures (require_file s i push) (\<lambda>_. s_push s = push \<and> i \<in> set (files (s_plan s)) \<and> i |\<notin>| s_done s)"
  by (auto simp: ensures_def require_file_Inr)

lemma safe_check_source:
  assumes "scan_ok cks sc"
  shows "safe (check_source os r sc)"
proof -
  have "bt_get (sc_stamps sc) (e_path e) \<noteq> None" if "e \<in> set (sc_entries sc)" for e
    using assms that by (auto simp: scan_ok_def)
  then show ?thesis
    by (auto simp: check_source_def check_source_entry_def intro!: never_rules)
qed

lemma safe_begin: "session_ok perms s \<Longrightarrow> safe (begin_file os s i)"
  unfolding begin_file_def
  by (intro never_bind [OF safe_require ensures_require] never_rules) (auto intro: session_directories)

lemma safe_commit: "session_ok perms s \<Longrightarrow> safe (commit_file os sha s i resource)"
  unfolding commit_file_def
  by (intro never_bind [OF safe_require ensures_require] never_rules)
    (auto intro: session_directories session_file(1))

lemma safe_get:
  assumes s: "session_ok perms s"
  shows "safe (get_file os s i)"
  unfolding get_file_def
proof (rule never_bind [OF safe_require ensures_require], elim conjE)
  assume i: "s_push s = False" "i \<in> set (files (s_plan s))"
  from session_stamp [OF s _ i(2)] i(1) obtain st where
    st: "bt_get (sc_stamps (s_scan s)) (e_path (s_source s ! i)) = Some st" "st_size st \<le> MAX_FILE"
    by auto
  have "unat (st_size st) + 1 \<noteq> 2 ^ 64"
    using st(2) by (simp add: MAX_FILE_def word_le_nat_alt)
  from safe_snapshot [OF this] st(1) session_file(1) [OF s i(2)]
  show "safe (if s_pending s \<noteq> None then protocol_error ''file already pending''
        else bindI (indexI (s_source s) i) (\<lambda>e.
             bindI (presentI (bt_get (sc_stamps (s_scan s)) (e_path e))) (\<lambda>st.
             bindI (snapshot os (s_root s) (e_path e) st) (\<lambda>f. returnI (f, s\<lparr>s_pending := Some i\<rparr>)))))"
    by (auto simp: indexI_def presentI_def intro!: never_rules)
qed

lemma safe_verify:
  assumes s: "session_ok perms s"
  shows "safe (verify_file os s i)"
  unfolding verify_file_def
proof (rule never_bind [OF safe_require ensures_require], elim conjE)
  assume i: "s_push s = False" "i \<in> set (files (s_plan s))"
  from session_stamp [OF s _ i(2)] i(1) obtain st where
    "bt_get (sc_stamps (s_scan s)) (e_path (s_source s ! i)) = Some st" by auto
  with session_file(1) [OF s i(2)]
  show "safe (if s_pending s \<noteq> Some i then protocol_error ''unexpected verification''
        else bindI (indexI (s_source s) i) (\<lambda>e.
             bindI (presentI (bt_get (sc_stamps (s_scan s)) (e_path e))) (\<lambda>st.
             bindI (ensure_unchanged os (s_root s) (e_path e) st) (\<lambda>_.
               returnI (s\<lparr>s_pending := None, s_done := finsert i (s_done s)\<rparr>)))))"
    by (auto simp: indexI_def presentI_def intro!: never_rules)
qed

lemma safe_finish: "session_core perms s \<Longrightarrow> safe (finish_session os s)"
  unfolding finish_session_def
  by (intro never_rules) (auto intro: core_directories safe_check_source simp: session_core_def)

lemma safe_command:
  "session_ok perms s \<Longrightarrow> safe (command os sha req s)"
  unfolding command_def
  by (cases req)
    (auto intro!: never_rules safe_begin safe_commit safe_get safe_verify safe_finish [OF session_ok_core] split: prod.split)

lemma safe_handle_inner:
  assumes "server_ok perms v"
  shows "safe (handle_inner os sha c p req v)"
proof -
  have "safe (start_session os sha c p push opt path m v)" for push opt path m
    by (auto simp: start_session_def Let_def intro!: never_rules)
  moreover have "safe (handle_command os sha c req v)"
  proof (cases "v_session v")
    case (Some s)
    then have "session_ok perms (s\<lparr>s_activity := now\<rparr>)" for now
      using assms by (simp add: server_ok_def session_activity)
    from safe_command [OF this] Some show ?thesis
      by (auto simp: handle_command_def Let_def intro!: never_rules split: prod.split)
  qed (auto simp: handle_command_def intro!: never_rules)
  ultimately show ?thesis
    by (auto simp: handle_inner_def intro!: never_rules split: message.split)
qed

section \<open>Who can change the export\<close>

lemma keeps_check_source [keeps_rules]: "reads_keep os view \<Longrightarrow> keeps view (check_source os r sc)"
  by (auto simp: check_source_def check_source_entry_def intro!: keeps_rules)

lemma keeps_protocol_error [keeps_rules]: "keeps view (protocol_error t)"
  by (simp add: protocol_error_def keeps_rules)

lemma keeps_pull_commands:
  assumes "\<not> s_push s" "reads_keep os view" "anonymous_keep os view"
  shows "keeps view (command os sha req s)"
  using assms
  by (cases req)
    (auto simp: command_def begin_file_def commit_file_def get_file_def verify_file_def finish_session_def
      require_file_def protocol_error_def intro!: keeps_rules split: prod.split)

lemma keeps_handle_inner:
  assumes r: "reads_keep os view" and a: "anonymous_keep os view"
    and s: "\<And>s. v_session v = Some s \<Longrightarrow> s_connection s = c \<Longrightarrow> \<not> s_push s \<or> dry_run (s_options s)"
  shows "keeps view (handle_inner os sha c p req v)"
proof -
  have "keeps view (start_session os sha c p push opt path m v)" for push opt path m
    using r by (auto simp: start_session_def Let_def intro!: keeps_rules keeps_reads)
  moreover have "keeps view (handle_command os sha c req v)"
  proof (cases "\<exists>s. v_session v = Some s \<and> s_connection s = c")
    case True
    then obtain s where sv: "v_session v = Some s" "s_connection s = c" by blast
    from s [OF sv] have "keeps view (command os sha req (s\<lparr>s_activity := now\<rparr>))"
      if "dry_run (s_options s) \<longrightarrow> req = Finish" for now
    proof (cases "s_push s")
      case True
      with \<open>\<not> s_push s \<or> dry_run (s_options s)\<close> that have "dry_run (s_options s)" "req = Finish" by auto
      then show ?thesis by (auto simp: command_def finish_session_def intro!: keeps_rules)
    next
      case False
      then show ?thesis using keeps_pull_commands [OF _ r a] by simp
    qed
    then show ?thesis
      using sv r by (auto simp: handle_command_def Let_def intro!: keeps_rules keeps_reads split: prod.split)
  next
    case False
    then show ?thesis by (auto simp: handle_command_def intro!: keeps_rules split: option.split)
  qed
  ultimately show ?thesis
    by (auto simp: handle_inner_def intro!: keeps_rules split: message.split)
qed

lemma handle_world: "snd (handle os sha c p req v w) = snd (handle_inner os sha c p req v w)"
  by (simp add: handle_def split: prod.split sum.split)

lemma handle_Inr:
  "handle os sha c p req v w = ((Inr rep, v'), w') \<longleftrightarrow> handle_inner os sha c p req v w = (Inr (rep, v'), w')"
  by (auto simp: handle_def split: prod.splits sum.splits)

lemma handle_failure:
  "fst (fst (handle os sha c p req v w)) = Inl e \<longleftrightarrow> fst (handle_inner os sha c p req v w) = Inl e"
  by (auto simp: handle_def split: prod.split sum.split)

lemma handle_command_Inr:
  assumes "handle_inner os sha c p req v w = (Inr (rep, v'), w')"
    "\<And>push opt path m. req \<noteq> Start push opt path m"
  shows "\<exists>s now w1 nx. v_session v = Some s \<and> s_connection s = c \<and> nowI os w = (Inr now, w1)
    \<and> (\<not> dry_run (s_options s) \<or> req = Finish)
    \<and> command os sha req (s\<lparr>s_activity := now\<rparr>) w1 = (Inr (rep, nx), w') \<and> v' = v\<lparr>v_session := nx\<rparr>"
proof -
  from assms have "handle_command os sha c req v w = (Inr (rep, v'), w')"
    by (cases req) (auto simp: handle_inner_def split: if_splits)
  then show ?thesis
    by (auto simp: handle_command_def io_simps Let_def split: option.splits if_splits)
qed

lemma foreign_inner:
  "v_session v = Some s \<Longrightarrow> s_connection s \<noteq> c \<Longrightarrow> \<exists>e. handle_inner os sha c p req v w = (Inl (Fails e), w)"
  by (cases req) (auto simp: handle_inner_def handle_command_def start_session_def protocol_error_def)

lemma server_safe:
  assumes ok: "server_ok perms v"
  shows "fst (fst (handle os sha c p req v w)) \<noteq> Inl Panics" "accepts_file v c sz has_metadata \<noteq> Inl Panics"
    "receive c f v \<noteq> Inl Panics"
proof -
  show "fst (fst (handle os sha c p req v w)) \<noteq> Inl Panics"
    unfolding handle_failure using safe_handle_inner [OF ok, of os sha c p req] by (simp add: never_def)
  have acc: "accepts_file v c sz h \<noteq> Inl Panics" for sz h
    using ok session_pending(3)
    by (auto simp: accepts_file_def server_ok_def split: option.split)
  then show "accepts_file v c sz has_metadata \<noteq> Inl Panics" .
  show "receive c f v \<noteq> Inl Panics"
    using acc by (auto simp: receive_def result_simps split: option.splits if_splits)
qed

section \<open>Properties\<close>

text \<open>C10: The invariant of the server. Whatever sequence of requests, file completions, disconnects and
  expirations a server has seen, and whatever happened to the file system in between, its session is
  consistent: the plan is the plan of its two manifests, the scanned manifest is valid and every entry
  of it has its stamp, the pending file is an unfinished file of the plan, a received file belongs to
  the pending one, a dry run has done nothing, and a push belongs to a peer with full permission.\<close>

theorem server_invariant:
  assumes "reachable os sha perms r v"
  shows "server_ok perms v"
  using assms by (rule reachable_ok)

text \<open>No input makes the server panic. In every reachable state, for every request of every
  connection and every behaviour of the file system, no index, lookup or arithmetic fails, and neither
  does the handling of a received file.\<close>

theorem server_never_panics:
  assumes "reachable os sha perms r v"
  shows "fst (fst (handle os sha c p req v w)) \<noteq> Inl Panics
    \<and> accepts_file v c sz has_metadata \<noteq> Inl Panics \<and> receive c f v \<noteq> Inl Panics"
  by (intro conjI server_safe [OF reachable_ok [OF assms]])


text \<open>Sessions are isolated. While one connection owns the session, any request of another
  connection is refused, and neither the server nor anything outside it changes.\<close>

theorem foreign_requests_refused:
  assumes "v_session v = Some s" "s_connection s \<noteq> c"
  shows "\<exists>e. handle os sha c p req v w = ((Inl (Fails e), v), w)"
proof -
  have "\<exists>e. handle_inner os sha c p req v w = (Inl (Fails e), w)"
    using assms by (rule foreign_inner)
  moreover have "disconnect c v = v" using assms by (simp add: disconnect_def)
  ultimately show ?thesis by (auto simp: handle_def)
qed

text \<open>C16: A file is installed only as agreed. A COMMIT that is answered with success was sent by the owner
  of a push session that is no dry run, for the pending file of the plan, not installed before; the
  completed transfer has the announced identifier and exactly the size of the source entry; installing
  it succeeded; and the session then counts it as done and awaits the next file.\<close>

theorem commit_guarded:
  assumes "handle os sha c p (Commit i resource) v w = ((Inr rep, v'), w')"
  shows "\<exists>s f s' w1. v_session v = Some s \<and> s_connection s = c \<and> s_push s \<and> \<not> dry_run (s_options s)
    \<and> unat i \<in> set (files (s_plan s)) \<and> unat i |\<notin>| s_done s \<and> s_pending s = Some (unat i)
    \<and> s_received s = Some f \<and> rf_transfer f = resource \<and> rf_size f = e_size (s_source s ! unat i)
    \<and> install os sha (s_root s) (s_source s ! unat i) (s_destination s) (s_plan s) (rf_file f) w1 = (Inr (), w')
    \<and> v_session v' = Some s' \<and> s_done s' = finsert (unat i) (s_done s) \<and> s_pending s' = None \<and> s_received s' = None"
proof -
  from assms have run: "handle_inner os sha c p (Commit i resource) v w = (Inr (rep, v'), w')"
    by (simp add: handle_Inr)
  have "\<And>push opt path m. Commit i resource \<noteq> Start push opt path m" by simp
  from handle_command_Inr [OF run this] obtain s now w1 nx where s:
    "v_session v = Some s" "s_connection s = c" "\<not> dry_run (s_options s)"
    "command os sha (Commit i resource) (s\<lparr>s_activity := now\<rparr>) w1 = (Inr (rep, nx), w')"
    "v' = v\<lparr>v_session := nx\<rparr>"
    by auto
  from s(4) show ?thesis
    unfolding command_Inr message.case commit_file_Inr using s(1,2,3,5) by auto
qed

text \<open>FINISH means finished. A FINISH that is answered with success outside a dry run comes from the
  owner of the session when every planned file was transferred and none is pending; for a push the
  directories were prepared and the removals and times of the plan applied; and the session is over.\<close>

theorem finish_complete:
  assumes "reachable os sha perms r v" "v_session v = Some s" "\<not> dry_run (s_options s)"
    and "handle os sha c p Finish v w = ((Inr rep, v'), w')"
  shows "s_connection s = c \<and> fset (s_done s) = set (files (s_plan s)) \<and> s_pending s = None
    \<and> v_session v' = None
    \<and> (s_push s \<longrightarrow> (\<exists>w1 w2. (s_prepared s \<or> prepare os (s_root s) (s_source s) (s_plan s) w1 = (Inr (), w2))
          \<and> finish os (s_root s) (s_source s) (s_plan s) w2 = (Inr (), w')))"
proof -
  from assms(4) have run: "handle_inner os sha c p Finish v w = (Inr (rep, v'), w')"
    by (simp add: handle_Inr)
  have "\<And>push opt path m. Finish \<noteq> Start push opt path m" by simp
  from handle_command_Inr [OF run this] assms(2) obtain now w1 nx where h:
    "s_connection s = c" "command os sha Finish (s\<lparr>s_activity := now\<rparr>) w1 = (Inr (rep, nx), w')"
    "v' = v\<lparr>v_session := nx\<rparr>" by auto
  from h(2) have nx: "nx = None" and fin: "finish_session os (s\<lparr>s_activity := now\<rparr>) w1 = (Inr (), w')"
    by (simp_all add: command_Inr)
  then have all: "s_pending s = None" "fcard (s_done s) = length (files (s_plan s))"
    using assms(3) by (auto simp: finish_session_def protocol_error_def split: if_splits)
  have ok: "session_ok perms s"
    using reachable_ok [OF assms(1)] assms(2) by (simp add: server_ok_def)
  from session_all_done [OF this all(2)] have "fset (s_done s) = set (files (s_plan s))" .
  with h all nx fin assms(3) show ?thesis
    by (auto simp: finish_session_def io_simps split: if_splits)
qed

section \<open>Witnesses\<close>

text \<open>A push of one file of three bytes to the blank file system, in its successive states.\<close>

definition demo_root :: root where
  "demo_root = \<lparr>root_fd = 0, root_prefix = []\<rparr>"

definition demo_file :: entry where
  "demo_file = \<lparr>e_path = ascii ''f'', e_kind = File, e_size = 3, e_mtime = 9, e_ns = 2, e_hash = None\<rparr>"

definition demo_options :: options where
  "demo_options = \<lparr>delete = False, checksum = False, dry_run = False\<rparr>"

definition demo_plan :: sync_plan where
  "demo_plan = \<lparr>operations = [\<lparr>o_action = Create, o_path = ascii ''f''\<rparr>], files = [0], directories = [],
     removals = [], conflicts = []\<rparr>"

definition demo_session :: session where
  "demo_session = \<lparr>s_connection = 1, s_push = True, s_options = demo_options, s_root = demo_root,
     s_source = [demo_file], s_destination = [], s_scan = \<lparr>sc_entries = [], sc_stamps = []\<rparr>,
     s_plan = demo_plan, s_prepared = False, s_pending = None, s_received = None, s_done = {||}, s_activity = 5\<rparr>"

definition demo_received :: received_file where
  "demo_received = \<lparr>rf_transfer = 42, rf_file = 7, rf_size = 3, rf_metadata = False\<rparr>"

definition demo_server :: "session \<Rightarrow> server" where
  "demo_server s = \<lparr>v_root = demo_root, v_session = Some s\<rparr>"

abbreviation demo_handle :: "message \<Rightarrow> server \<Rightarrow> str list \<times> byte list \<Rightarrow> (reply outcome \<times> server) \<times> str list \<times> byte list" where
  "demo_handle \<equiv> handle blank_os (\<lambda>_. 0) 1 Full"

lemmas run_defs =
  handle_def handle_inner_def handle_command_def command_def begin_file_def commit_file_def require_file_def
  finish_session_def start_session_def scan_root_def prepare_def finish_def install_def stage_def
  stage_inner_def stage_body_def commit_def parent_def open_full_def mkdir_def clear_conflict_def
  exists_path_def metadata_def set_mtime_def drop_staged_def remove_def bindI_def pureI_def resultI_def
  on_failI_def finallyI_def indexI_def presentI_def sysI_def nowI_def Let_def

lemmas demo_defs =
  demo_root_def demo_file_def demo_options_def demo_plan_def demo_session_def demo_received_def
  demo_server_def blank_os_def

lemma demo_paths:
  "full demo_root (ascii ''f'') = Inr (ascii ''f'')" "validate (ascii ''f'') = Inr ()"
  "full demo_root [] = Inr []" "subtree demo_root [] = Inr demo_root" "rsplit_once slash (ascii ''f'') = None"
  by code_simp+

lemma demo_planned:
  "plan [demo_file] [] demo_options = Inr demo_plan"
  by code_simp

lemma demo_start:
  "demo_handle (Start True demo_options [] [demo_file]) (new_server demo_root) w
     = ((Inr (Reply (Manifest [])), demo_server demo_session), w)"
  using demo_paths demo_planned
  by (simp add: run_defs demo_defs new_server_def)

lemma demo_begin:
  "demo_handle (Begin 0) (demo_server demo_session) w
     = ((Inr (Reply Ok), demo_server (demo_session\<lparr>s_prepared := True, s_pending := Some 0\<rparr>)), w)"
  using demo_paths
  by (simp add: run_defs demo_defs bt_get_def)

lemma demo_receive:
  "receive 1 demo_received (demo_server (demo_session\<lparr>s_prepared := True, s_pending := Some 0\<rparr>))
     = Inr (demo_server (demo_session\<lparr>s_prepared := True, s_pending := Some 0, s_received := Some demo_received\<rparr>))"
  by (simp add: receive_def accepts_file_def demo_defs)

lemma demo_commit:
  "demo_handle (Commit 0 42)
       (demo_server (demo_session\<lparr>s_prepared := True, s_pending := Some 0, s_received := Some demo_received\<rparr>))
       (log, [1, 2, 3])
     = ((Inr (Reply Ok), demo_server (demo_session\<lparr>s_prepared := True, s_done := {|0|}\<rparr>)),
        log @ [ascii ''f'', reserved_prefix @ ascii ''x''], [])"
  using demo_paths
  by (simp add: run_defs demo_defs bt_get_def stage_loop.simps read_from_def)

lemma demo_finish:
  "demo_handle Finish (demo_server (demo_session\<lparr>s_prepared := True, s_done := {|0|}\<rparr>)) w
     = ((Inr (Reply Ok), new_server demo_root), w)"
  by (simp add: run_defs demo_defs new_server_def fcard.rep_eq)

text \<open>All of these servers are reachable.\<close>

abbreviation demo_reachable :: "server \<Rightarrow> bool" where
  "demo_reachable \<equiv> reachable blank_os (\<lambda>_. 0) (\<lambda>_. Full) demo_root"

lemma reachable_step: "reachable os sha perms r v \<Longrightarrow> step os sha perms v v' \<Longrightarrow> reachable os sha perms r v'"
  unfolding reachable_def by (rule rtranclp.rtrancl_into_rtrancl)

lemma demo_reachable:
  "demo_reachable (demo_server demo_session)"
  "demo_reachable (demo_server (demo_session\<lparr>s_prepared := True, s_pending := Some 0\<rparr>))"
  "demo_reachable (demo_server (demo_session\<lparr>s_prepared := True, s_done := {|0|}\<rparr>))"
proof -
  have "demo_reachable (new_server demo_root)" by (simp add: reachable_def)
  from reachable_step [OF this step.request [OF demo_start]]
  show 1: "demo_reachable (demo_server demo_session)" .
  from reachable_step [OF 1 step.request [OF demo_begin]]
  show 2: "demo_reachable (demo_server (demo_session\<lparr>s_prepared := True, s_pending := Some 0\<rparr>))" .
  from reachable_step [OF reachable_step [OF 2 step.completion [OF demo_receive]] step.request [OF demo_commit]]
  show "demo_reachable (demo_server (demo_session\<lparr>s_prepared := True, s_done := {|0|}\<rparr>))" .
qed

lemma server_invariant_witness: "server_ok (\<lambda>_. Full) (demo_server demo_session)"
  by (rule server_invariant [OF demo_reachable(1)])

lemma server_never_panics_witness:
  "fst (fst (demo_handle (Begin 0) (demo_server demo_session) ([], []))) \<noteq> Inl Panics"
  using server_never_panics [OF demo_reachable(1), of 1 "Full" "Begin 0" "([], [])"] by blast


lemma foreign_requests_refused_witness:
  "\<exists>e. handle blank_os (\<lambda>_. 0) 2 Full Finish (demo_server demo_session) ([], []) = ((Inl (Fails e), demo_server demo_session), ([], []))"
  by (rule foreign_requests_refused [of _ demo_session]) (simp_all add: demo_server_def demo_session_def)

lemma commit_guarded_witness:
  "\<exists>s. v_session (demo_server (demo_session\<lparr>s_prepared := True, s_pending := Some 0, s_received := Some demo_received\<rparr>)) = Some s
     \<and> s_connection s = 1 \<and> s_push s \<and> s_pending s = Some 0"
  using commit_guarded [OF demo_commit] by auto

lemma finish_complete_witness: "fset {|0 :: nat|} = set (files demo_plan)"
proof -
  have "v_session (demo_server s) = Some s" for s by (simp add: demo_server_def)
  moreover have "\<not> dry_run (s_options (demo_session\<lparr>s_prepared := True, s_done := {|0|}\<rparr>))"
    by (simp add: demo_session_def demo_options_def)
  ultimately have "fset (s_done (demo_session\<lparr>s_prepared := True, s_done := {|0|}\<rparr>))
      = set (files (s_plan (demo_session\<lparr>s_prepared := True, s_done := {|0|}\<rparr>)))"
    using finish_complete [OF demo_reachable(3) _ _ demo_finish] by blast
  then show ?thesis by (simp add: demo_session_def)
qed

end
