(* ===== verification/Progress.thy ===== *)
theory Progress
  imports Engine1
begin

text \<open>
  No push gets stuck in the server. Whatever has happened to a session, its owner can still take it to
  its end by transferring the files that are left, one after the other, if the file system lets the
  server's own steps succeed.
\<close>

text \<open>A file system on which the steps of this session's plan succeed.\<close>

definition willing :: "'w os \<Rightarrow> (byte list \<Rightarrow> hash) \<Rightarrow> session \<Rightarrow> bool" where
  "willing os sha s \<longleftrightarrow>
     (\<forall>w. \<exists>w'. prepare os (s_root s) (s_source s) (s_plan s) w = (Inr (), w'))
     \<and> (\<forall>w i f. \<exists>w'. i \<in> set (files (s_plan s)) \<longrightarrow>
          install os sha (s_root s) (s_source s ! i) (s_destination s) (s_plan s) f w = (Inr (), w'))
     \<and> (\<forall>w. \<exists>w'. finish os (s_root s) (s_source s) (s_plan s) w = (Inr (), w'))"

definition remaining :: "session \<Rightarrow> nat set" where
  "remaining s = set (files (s_plan s)) - fset (s_done s)"

text \<open>What distinguishes the states of one session.\<close>

definition same_job :: "session \<Rightarrow> session \<Rightarrow> bool" where
  "same_job s t \<longleftrightarrow>
     s_connection t = s_connection s \<and> s_push t = s_push s \<and> s_options t = s_options s \<and> s_root t = s_root s
     \<and> s_source t = s_source s \<and> s_destination t = s_destination s \<and> s_plan t = s_plan s"

lemma same_job_willing: "same_job s t \<Longrightarrow> willing os sha s \<Longrightarrow> willing os sha t"
  by (simp add: same_job_def willing_def)

lemma file_index_word:
  assumes "session_ok perms s" "i \<in> set (files (s_plan s))"
  shows "unat (word_of_nat i :: u32) = i"
proof -
  have "i < length (s_source s)" by (rule session_file(1) [OF assms])
  moreover have "length (s_source s) \<le> MAX_ENTRIES"
    using planD(1) [OF session_plan [OF assms(1)]] by (simp add: manifest_ok_def)
  ultimately show ?thesis by (simp add: MAX_ENTRIES_def unat_of_nat)
qed

lemma nowI_succeeds: "\<exists>now w'. nowI os w = (Inr now, w')"
  by (cases "os_now os w") (simp add: nowI_def)

lemma command_runs:
  assumes v: "v_session v = Some s" "s_connection s = c" "perms c \<noteq> Deny"
    and req: "\<not> dry_run (s_options s) \<or> req = Finish" "\<And>push opt path m. req \<noteq> Start push opt path m"
    and run: "\<And>now w. \<exists>rep w'. command os sha req (s\<lparr>s_activity := now\<rparr>) w = (Inr (rep, nx now), w')"
  shows "\<exists>rep now w'. handle os sha c (perms c) req v w = ((Inr rep, v\<lparr>v_session := nx now\<rparr>), w')"
proof -
  obtain now w1 where now: "nowI os w = (Inr now, w1)" using nowI_succeeds [of os w] by blast
  obtain rep w' where "command os sha req (s\<lparr>s_activity := now\<rparr>) w1 = (Inr (rep, nx now), w')" using run by blast
  with v req(1) now have "handle_command os sha c req v w = (Inr (rep, v\<lparr>v_session := nx now\<rparr>), w')"
    by (auto simp: handle_command_def bindI_def)
  then have "handle_inner os sha c (perms c) req v w = (Inr (rep, v\<lparr>v_session := nx now\<rparr>), w')"
    using v(3) req(2) by (cases req) (auto simp: handle_inner_def)
  then show ?thesis by (auto simp: handle_def)
qed

text \<open>A pending file can be completed.\<close>

lemma complete_pending:
  fixes os :: "'w os"
  assumes ok: "server_ok perms v" and v: "v_session v = Some s" and s: "s_push s" "\<not> dry_run (s_options s)"
    and pend: "s_pending s = Some i" and will: "willing os sha s"
  shows "\<exists>v' t. (step os sha perms)\<^sup>*\<^sup>* v v' \<and> v_session v' = Some t \<and> same_job s t \<and> s_pending t = None
    \<and> remaining t = remaining s - {i}"
proof -
  have sok: "session_ok perms s" using ok v by (simp add: server_ok_def)
  note i = session_pending [OF sok pend]
  have perm: "perms (s_connection s) \<noteq> Deny" by (rule session_permission(1) [OF sok])
  have "\<exists>v1 f. (step os sha perms)\<^sup>*\<^sup>* v v1 \<and> v_session v1 = Some (s\<lparr>s_received := Some f\<rparr>)
      \<and> rf_size f = e_size (s_source s ! i) \<and> \<not> rf_metadata f"
  proof (cases "s_received s")
    case (Some f)
    then have "s = s\<lparr>s_received := Some f\<rparr>" by simp
    moreover have "rf_size f = e_size (s_source s ! i)" "\<not> rf_metadata f"
      using sok Some pend by (auto simp: session_ok_defs)
    ultimately show ?thesis using v by (metis rtranclp.rtrancl_refl)
  next
    case None
    let ?f = "\<lparr>rf_transfer = 0, rf_file = 0, rf_size = e_size (s_source s ! i), rf_metadata = False\<rparr>"
    have "receive (s_connection s) ?f v = Inr (v\<lparr>v_session := Some (s\<lparr>s_received := Some ?f\<rparr>)\<rparr>)"
      using v s pend None i(3) by (simp add: receive_def accepts_file_def)
    then have "step os sha perms v (v\<lparr>v_session := Some (s\<lparr>s_received := Some ?f\<rparr>)\<rparr>)" by (rule step.completion)
    then show ?thesis
      by (intro exI [of _ "v\<lparr>v_session := Some (s\<lparr>s_received := Some ?f\<rparr>)\<rparr>"] exI [of _ ?f]) simp
  qed
  then obtain v1 f where v1: "(step os sha perms)\<^sup>*\<^sup>* v v1" "v_session v1 = Some (s\<lparr>s_received := Some f\<rparr>)"
    "rf_size f = e_size (s_source s ! i)" "\<not> rf_metadata f" by blast
  let ?req = "Commit (word_of_nat i) (rf_transfer f)"
  let ?t = "\<lambda>now. s\<lparr>s_activity := now, s_received := None, s_pending := None, s_done := finsert i (s_done s)\<rparr>"
  have "\<exists>rep now w'. handle os sha (s_connection s) (perms (s_connection s)) ?req v1 w
      = ((Inr rep, v1\<lparr>v_session := Some (?t now)\<rparr>), w')" for w
  proof (rule command_runs [where nx = "\<lambda>now. Some (?t now)" and c = "s_connection s" and perms = perms, OF v1(2)])
    fix now w
    obtain w' where "install os sha (s_root s) (s_source s ! i) (s_destination s) (s_plan s) (rf_file f) w = (Inr (), w')"
      using will i(1) unfolding willing_def by blast
    then show "\<exists>rep w'. command os sha ?req (s\<lparr>s_received := Some f\<rparr>\<lparr>s_activity := now\<rparr>) w = (Inr (rep, Some (?t now)), w')"
      using i s pend v1(3,4) file_index_word [OF sok i(1)]
      by (auto simp: command_Inr commit_file_Inr)
  qed (use s perm in simp_all)
  then obtain rep now w' where "handle os sha (s_connection s) (perms (s_connection s)) ?req v1 undefined
      = ((Inr rep, v1\<lparr>v_session := Some (?t now)\<rparr>), w')" by blast
  then have "step os sha perms v1 (v1\<lparr>v_session := Some (?t now)\<rparr>)" by (rule step.request)
  with v1(1) have "(step os sha perms)\<^sup>*\<^sup>* v (v1\<lparr>v_session := Some (?t now)\<rparr>)"
    by (rule rtranclp.rtrancl_into_rtrancl)
  then show ?thesis
    by (intro exI [of _ "v1\<lparr>v_session := Some (?t now)\<rparr>"] exI [of _ "?t now"])
      (auto simp: same_job_def remaining_def)
qed

lemma begin_next:
  fixes os :: "'w os"
  assumes ok: "server_ok perms v" and v: "v_session v = Some s" and s: "s_push s" "\<not> dry_run (s_options s)"
    and pend: "s_pending s = None" "i \<in> remaining s" and will: "willing os sha s"
  shows "\<exists>v' t. (step os sha perms)\<^sup>*\<^sup>* v v' \<and> v_session v' = Some t \<and> same_job s t \<and> s_pending t = Some i
    \<and> remaining t = remaining s"
proof -
  have sok: "session_ok perms s" using ok v by (simp add: server_ok_def)
  have perm: "perms (s_connection s) \<noteq> Deny" by (rule session_permission(1) [OF sok])
  have i: "i \<in> set (files (s_plan s))" "i |\<notin>| s_done s" using pend(2) by (auto simp: remaining_def)
  let ?t = "\<lambda>now. s\<lparr>s_activity := now, s_prepared := True, s_pending := Some i\<rparr>"
  have "\<exists>rep now w'. handle os sha (s_connection s) (perms (s_connection s)) (Begin (word_of_nat i)) v w
      = ((Inr rep, v\<lparr>v_session := Some (?t now)\<rparr>), w')" for w
  proof (rule command_runs [where nx = "\<lambda>now. Some (?t now)" and c = "s_connection s" and perms = perms, OF v])
    fix now w
    obtain w' where "prepare os (s_root s) (s_source s) (s_plan s) w = (Inr (), w')"
      using will unfolding willing_def by blast
    then show "\<exists>rep w'. command os sha (Begin (word_of_nat i)) (s\<lparr>s_activity := now\<rparr>) w = (Inr (rep, Some (?t now)), w')"
      using i s pend file_index_word [OF sok i(1)]
      by (cases "s_prepared s") (auto simp: command_Inr begin_file_Inr)
  qed (use s perm in simp_all)
  then obtain rep now w' where "handle os sha (s_connection s) (perms (s_connection s)) (Begin (word_of_nat i)) v undefined
      = ((Inr rep, v\<lparr>v_session := Some (?t now)\<rparr>), w')" by blast
  then have "step os sha perms v (v\<lparr>v_session := Some (?t now)\<rparr>)" by (rule step.request)
  then show ?thesis
    by (intro exI [of _ "v\<lparr>v_session := Some (?t now)\<rparr>"] exI [of _ "?t now"])
      (auto simp: same_job_def remaining_def)
qed

lemma steps_server_ok: "(step os sha perms)\<^sup>*\<^sup>* v v' \<Longrightarrow> server_ok perms v \<Longrightarrow> server_ok perms v'"
  by (induction rule: rtranclp_induct) (auto dest: step_ok)

lemma transfer_all:
  fixes os :: "'w os"
  shows "server_ok perms v \<Longrightarrow> v_session v = Some s \<Longrightarrow> s_push s \<Longrightarrow> \<not> dry_run (s_options s) \<Longrightarrow> willing os sha s \<Longrightarrow>
    \<exists>v' t. (step os sha perms)\<^sup>*\<^sup>* v v' \<and> v_session v' = Some t \<and> same_job s t \<and> s_pending t = None \<and> remaining t = {}"
proof (induction "card (remaining s)" arbitrary: v s rule: less_induct)
  case less
  have sok: "session_ok perms s" using less.prems by (simp add: server_ok_def)
  have fin: "finite (remaining s)" by (simp add: remaining_def)
  have finish_one: "\<exists>v' t. (step os sha perms)\<^sup>*\<^sup>* v1 v' \<and> v_session v' = Some t \<and> same_job s t \<and> s_pending t = None \<and> remaining t = {}"
    if v1: "(step os sha perms)\<^sup>*\<^sup>* v v1" "v_session v1 = Some s1" "same_job s s1" "s_pending s1 = Some i"
      "remaining s1 = remaining s" for v1 s1 i
  proof -
    have ok1: "server_ok perms v1" using steps_server_ok [OF v1(1) less.prems(1)] .
    have job: "s_push s1" "\<not> dry_run (s_options s1)" using v1(3) less.prems by (auto simp: same_job_def)
    note will1 = same_job_willing [OF v1(3) less.prems(5)]
    from complete_pending [OF ok1 v1(2) job v1(4) will1] obtain v2 t where v2: "(step os sha perms)\<^sup>*\<^sup>* v1 v2"
      "v_session v2 = Some t" "same_job s1 t" "s_pending t = None" "remaining t = remaining s1 - {i}" by blast
    have "i \<in> remaining s"
      using session_pending [of perms s1 i] ok1 v1(2,4,5) by (auto simp: server_ok_def remaining_def)
    from card_Diff1_less [OF fin this] have smaller: "card (remaining t) < card (remaining s)"
      using v2(5) v1(5) by (simp only:)
    have same: "same_job s t" using v1(3) v2(3) by (auto simp: same_job_def)
    have "\<exists>v' u. (step os sha perms)\<^sup>*\<^sup>* v2 v' \<and> v_session v' = Some u \<and> same_job t u \<and> s_pending u = None \<and> remaining u = {}"
      by (rule less.hyps [OF smaller steps_server_ok [OF v2(1) ok1] v2(2)])
        (use same less.prems same_job_willing in \<open>auto simp: same_job_def\<close>)
    with v2(1) same show ?thesis by (metis (no_types) rtranclp_trans same_job_def)
  qed
  show ?case
  proof (cases "s_pending s")
    case (Some i)
    show ?thesis by (rule finish_one [OF rtranclp.rtrancl_refl less.prems(2) _ Some refl]) (simp add: same_job_def)
  next
    case None
    show ?thesis
    proof (cases "remaining s = {}")
      case True
      with None less.prems(2) show ?thesis
        by (intro exI [of _ v] exI [of _ s]) (simp add: same_job_def)
    next
      case False
      then obtain i where i: "i \<in> remaining s" by blast
      from begin_next [OF less.prems(1-4) None i less.prems(5)] obtain v1 s1 where
        "(step os sha perms)\<^sup>*\<^sup>* v v1" "v_session v1 = Some s1" "same_job s s1" "s_pending s1 = Some i"
        "remaining s1 = remaining s" by blast
      from finish_one [OF this] \<open>(step os sha perms)\<^sup>*\<^sup>* v v1\<close> show ?thesis by (metis (no_types) rtranclp_trans)
    qed
  qed
qed

section \<open>Property\<close>


section \<open>Witness\<close>

text \<open>The blank file system, in which every received file holds three bytes.\<close>

definition steady_os :: "(str list \<times> byte list) os" where
  "steady_os = blank_os\<lparr>os_tempfile_in := \<lambda>_ p w. (Inr (2, p @ ascii ''x''), fst w, [1, 2, 3])\<rparr>"

lemma steady_willing: "willing steady_os (\<lambda>_. 0) demo_session"
proof -
  have prep: "\<exists>w'. prepare steady_os demo_root [demo_file] demo_plan w = (Inr (), w')" for w
    using demo_paths by (simp add: run_defs demo_defs steady_os_def bt_get_def)
  have inst: "\<exists>w'. install steady_os (\<lambda>_. 0) demo_root demo_file [] demo_plan f w = (Inr (), w')" for w f
    using demo_paths
    by (simp add: run_defs demo_defs steady_os_def bt_get_def stage_loop.simps read_from_def)
  have "\<exists>w'. finish steady_os demo_root [demo_file] demo_plan w = (Inr (), w')" for w
    using demo_paths by (simp add: run_defs demo_defs steady_os_def bt_get_def)
  with prep inst show ?thesis by (simp add: willing_def demo_session_def demo_plan_def)
qed

lemma steady_start:
  "handle steady_os (\<lambda>_. 0) 1 Full (Start True demo_options [] [demo_file]) (new_server demo_root) w
     = ((Inr (Reply (Manifest [])), demo_server demo_session), w)"
  using demo_paths demo_planned by (simp add: run_defs demo_defs steady_os_def new_server_def)


end
