(* ===== verification/Chunk_Store.thy ===== *)
theory Chunk_Store
  imports Root_Ops Chunk_Geometry
begin

text \<open>
  The persistent chunk cache of protocol version 2 (\<open>src/chunks.rs\<close>: \<open>Store\<close>, \<open>expire\<close>, \<open>payload_bytes\<close>,
  \<open>remove_payload\<close>) and the description of a file on disk (\<open>Description::scan\<close>), over the system calls of
  \<open>Os\<close>.

  A store holds a clone of its description, whose table of hashes is the same file as that of the
  description it was cloned from; the operations of a store therefore take the current table as an
  argument, as the operations of \<open>Chunk_Geometry\<close> do. The time of the last activity is behind a mutex;
  it is a field here, and an operation that sets it returns the store. Closing a descriptor, which also
  gives up its lock, is not a call of the model. The hex encoding of a digest (crate \<open>hex\<close>) is the
  parameter \<open>hex\<close>. Log messages are left out.
\<close>

section \<open>Names\<close>

definition hex_digit :: "nat \<Rightarrow> byte" where
  "hex_digit n = (if n < 10 then word_of_nat (48 + n) else word_of_nat (87 + n))"

fun hex_text :: "nat \<Rightarrow> str" where
  "hex_text n = (if n < 16 then [hex_digit n] else hex_text (n div 16) @ [hex_digit (n mod 16)])"

declare hex_text.simps [simp del]

text \<open>\<open>format!("{:08x}", n)\<close>.\<close>

definition hex08 :: "nat \<Rightarrow> str" where
  "hex08 n = replicate (8 - length (hex_text n)) 48 @ hex_text n"

definition is_hexdigit :: "byte \<Rightarrow> bool" where
  "is_hexdigit b \<longleftrightarrow> 48 \<le> b \<and> b \<le> 57 \<or> 97 \<le> b \<and> b \<le> 102 \<or> 65 \<le> b \<and> b \<le> 70"

definition hex_value :: "byte \<Rightarrow> nat" where
  "hex_value b = (if b \<le> 57 then unat b - 48 else if b \<le> 70 then unat b - 55 else unat b - 87)"

text \<open>\<open>from_str_radix(s, 16)\<close> of a text of hexadecimal digits that fits.\<close>

definition parse_hex :: "str \<Rightarrow> nat" where
  "parse_hex s = foldl (\<lambda>n b. n * 16 + hex_value b) 0 s"

definition strip_suffix :: "str \<Rightarrow> str \<Rightarrow> str option" where
  "strip_suffix suf s =
     (if length suf \<le> length s \<and> drop (length s - length suf) s = suf
      then Some (take (length s - length suf) s) else None)"

definition shard_name :: "str \<Rightarrow> bool" where
  "shard_name name \<longleftrightarrow> length name = 8 \<and> list_all is_hexdigit name"

definition chunk_name :: "str \<Rightarrow> bool" where
  "chunk_name name \<longleftrightarrow>
     (case strip_suffix (ascii ''.chunk'') name of
        None \<Rightarrow> False | Some s \<Rightarrow> length s = 8 \<and> list_all is_hexdigit s)"

definition transfer_name :: "str \<Rightarrow> bool" where
  "transfer_name name \<longleftrightarrow> length name = 64 \<and> list_all is_hexdigit name"

definition config_error :: "string \<Rightarrow> ('w, 'a) io" where
  "config_error t = failI (Config (ascii t))"

section \<open>Reading files\<close>

text \<open>\<open>Read::read_exact\<close>: as many reads as it takes.\<close>

function read_exact :: "'w os \<Rightarrow> fd \<Rightarrow> nat \<Rightarrow> byte list \<Rightarrow> ('w, byte list) io" where
  "read_exact os f todo acc w =
     (if todo = 0 then (Inr acc, w)
      else case sysI (os_read os f todo) w of
        (Inl e, w) \<Rightarrow> (Inl e, w)
      | (Inr b, w) \<Rightarrow>
          if b = [] then (Inl (Fails (Io UnexpectedEof)), w)
          else read_exact os f (todo - length b) (acc @ b) w)"
  by pat_completeness auto
termination
  by (relation "measure (\<lambda>(os, f, todo, acc, w). todo)") (auto simp: neq_Nil_conv)

text \<open>A file of \<open>todo\<close> bytes in blocks of 64 KiB, each handed to \<open>put\<close>; \<open>acc\<close> is what a digest was fed.\<close>

function read_blocks ::
  "'w os \<Rightarrow> fd \<Rightarrow> (byte list \<Rightarrow> ('w, unit) io) \<Rightarrow> nat \<Rightarrow> byte list \<Rightarrow> ('w, byte list) io" where
  "read_blocks os f put todo acc w =
     (if todo = 0 then (Inr acc, w)
      else case read_exact os f (min todo 65536) [] w of
        (Inl e, w) \<Rightarrow> (Inl e, w)
      | (Inr b, w) \<Rightarrow>
          (case put b w of
             (Inl e, w) \<Rightarrow> (Inl e, w)
           | (Inr _, w) \<Rightarrow> read_blocks os f put (todo - min todo 65536) (acc @ b) w))"
  by pat_completeness auto
termination
  by (relation "measure (\<lambda>(os, f, put, todo, acc, w). todo)") auto

declare read_exact.simps [simp del] read_blocks.simps [simp del]

section \<open>Describing a file\<close>

text \<open>The outer loop of \<open>Description::scan\<close>; \<open>whole\<close> was fed to the digest of the file.\<close>

function scan_file_chunks ::
  "'w os \<Rightarrow> (byte list \<Rightarrow> hash) \<Rightarrow> fd \<Rightarrow> nat \<Rightarrow> nat \<Rightarrow> byte list \<Rightarrow> byte list
     \<Rightarrow> ('w, byte list \<times> byte list) io" where
  "scan_file_chunks os sha f cs remaining whole table w =
     (if remaining = 0 \<or> cs = 0 then (Inr (whole, table), w)
      else case read_blocks os f (\<lambda>_. returnI ()) (min remaining cs) [] w of
        (Inl e, w) \<Rightarrow> (Inl e, w)
      | (Inr chunk, w) \<Rightarrow>
          scan_file_chunks os sha f cs (remaining - min remaining cs) (whole @ chunk)
            (table @ be_hash (sha chunk)) w)"
  by pat_completeness auto
termination
  by (relation "measure (\<lambda>(os, sha, f, cs, remaining, whole, table, w). remaining)") auto

declare scan_file_chunks.simps [simp del]

definition scan_file ::
  "'w os \<Rightarrow> (byte list \<Rightarrow> hash) \<Rightarrow> fd \<Rightarrow> u32 \<Rightarrow> ('w, description \<times> byte list) io" where
  "scan_file os sha f chunk_size =
     bindI (sysI (os_metadata os f)) (\<lambda>m.
       let before = stamp_of m in
       bindI (liftI (count (st_size before) chunk_size)) (\<lambda>_.
       bindI (sysI (os_rewind os f)) (\<lambda>_.
       bindI (sysI (os_tempfile os)) (\<lambda>_.
       bindI (scan_file_chunks os sha f (unat chunk_size) (unat (st_size before)) [] []) (\<lambda>(whole, table).
       bindI (sysI (os_read os f 1)) (\<lambda>b.
       bindI (if b \<noteq> [] then returnI True
              else bindI (sysI (os_metadata os f)) (\<lambda>m. returnI (stamp_of m \<noteq> before))) (\<lambda>changed.
         if changed then failI (Changed (ascii ''chunk source''))
         else bindI (sysI (os_rewind os f)) (\<lambda>_.
              returnI (\<lparr>d_size = st_size before, d_chunk_size = chunk_size, d_hash = sha whole\<rparr>, table)))))))))"

section \<open>Activity records\<close>

definition now_seconds :: "'w os \<Rightarrow> ('w, u64) io" where
  "now_seconds os w =
     (case os_clock os w of
        (Some t, w) \<Rightarrow> (Inr t, w)
      | (None, w) \<Rightarrow> config_error ''system clock is before Unix epoch'' w)"

definition activity_magic :: str where "activity_magic = ascii ''RRSYNC01''"

definition activity_record :: "u64 \<Rightarrow> byte list" where
  "activity_record seconds = activity_magic @ be64 seconds"

definition write_activity :: "'w os \<Rightarrow> (byte list \<Rightarrow> hash) \<Rightarrow> root \<Rightarrow> u64 \<Rightarrow> ('w, unit) io" where
  "write_activity os sha r seconds =
     (let rec = activity_record seconds in
      bindI (stage_content os sha r (ascii ''activity'') (Bytes_reader rec) 16 (sha rec)) (commit os))"

definition parse_activity :: "byte list \<Rightarrow> u64 option" where
  "parse_activity rec = (if take 8 rec \<noteq> activity_magic then None else Some (from_be64 (drop 8 rec)))"

definition read_activity :: "'w os \<Rightarrow> root \<Rightarrow> ('w, u64 option) io" where
  "read_activity os r =
     bindI (resultI (open_file os r (ascii ''activity''))) (\<lambda>x.
       case x of
         Inl e \<Rightarrow> if e = Io NotFound then returnI None else failI e
       | Inr f \<Rightarrow>
           bindI (sysI (os_metadata os f)) (\<lambda>m.
             if m_len m \<noteq> 16 then returnI None
             else bindI (read_exact os f 16 []) (\<lambda>rec. returnI (parse_activity rec))))"

text \<open>\<open>persist\<close> publishes the time; the result is the time that suppresses the next publication.\<close>

definition refresh_activity :: "u64 \<Rightarrow> u64 \<Rightarrow> (u64 \<Rightarrow> ('w, unit) io) \<Rightarrow> ('w, u64) io" where
  "refresh_activity last_seconds seconds persist =
     (if last_seconds \<noteq> seconds then bindI (persist seconds) (\<lambda>_. returnI seconds)
      else returnI last_seconds)"

section \<open>What a cache directory holds\<close>

text \<open>
  The sum of the staging files is not checked for overflow in the source; where it overflows a checked
  build panics.
\<close>

definition payload_chunk :: "nat \<Rightarrow> str \<times> metadata \<Rightarrow> u64 \<Rightarrow> ('w, u64) io" where
  "payload_chunk shard item bytes =
     (let (child, m) = item;
          valid = chunk_name child \<and> parse_hex (take 8 child) div SHARD_CHUNKS = shard in
      if m_type m \<noteq> Regular \<or> \<not> (valid \<or> starts_with reserved_prefix child)
      then config_error ''unexpected object in chunk shard''
      else if 2 ^ 64 \<le> unat bytes + unat (m_len m) then config_error ''cache size overflow''
      else returnI (bytes + m_len m))"

definition payload_item :: "'w os \<Rightarrow> root \<Rightarrow> str \<times> metadata \<Rightarrow> u64 \<Rightarrow> ('w, u64) io" where
  "payload_item os r item bytes =
     (let (name, m) = item in
      if m_type m = Regular \<and> (name = ascii ''lock'' \<or> name = ascii ''activity'') then returnI bytes
      else if m_type m = Regular \<and> starts_with reserved_prefix name then
        if 2 ^ 64 \<le> unat bytes + unat (m_len m) then panicI else returnI (bytes + m_len m)
      else if m_type m \<noteq> Dir \<or> \<not> shard_name name then config_error ''unexpected object in chunk cache''
      else bindI (children os r name) (\<lambda>items. foldI (payload_chunk (parse_hex name)) items bytes))"

definition payload_bytes :: "'w os \<Rightarrow> root \<Rightarrow> ('w, u64) io" where
  "payload_bytes os r = bindI (children os r []) (\<lambda>items. foldI (payload_item os r) items 0)"

definition remove_payload_item :: "'w os \<Rightarrow> root \<Rightarrow> str \<times> metadata \<Rightarrow> str list \<Rightarrow> ('w, str list) io" where
  "remove_payload_item os r item staging =
     (let (name, m) = item in
      if name = ascii ''lock'' \<or> name = ascii ''activity'' then returnI staging
      else if m_type m = Dir then
        bindI (children os r name) (\<lambda>items.
        bindI (remove_files os r name (map fst items)) (\<lambda>_.
        bindI (remove os r name True) (\<lambda>_. returnI staging)))
      else returnI (staging @ [name]))"

definition remove_payload :: "'w os \<Rightarrow> root \<Rightarrow> ('w, unit) io" where
  "remove_payload os r =
     bindI (children os r []) (\<lambda>items.
     bindI (foldI (remove_payload_item os r) items []) (\<lambda>staging.
       if staging \<noteq> [] then remove_files os r [] staging else returnI ()))"

section \<open>Expiry\<close>

definition expire_transfer ::
  "'w os \<Rightarrow> (byte list \<Rightarrow> hash) \<Rightarrow> root \<Rightarrow> str \<Rightarrow> u64 \<Rightarrow> u64 \<Rightarrow> str \<times> metadata \<Rightarrow> ('w, unit) io" where
  "expire_transfer os sha parent_root current retention now item =
     (let (name, m) = item in
      if name = ascii ''cache.lock'' \<or> name = current then returnI ()
      else if \<not> transfer_name name \<or> m_type m \<noteq> Dir then config_error ''unexpected object in chunk cache''
      else bindI (liftI (subtree parent_root name)) (\<lambda>r.
           bindI (lock_state_with os r (ascii ''lock'') False) (\<lambda>_.
           bindI (payload_bytes os r) (\<lambda>_.
           bindI (read_activity os r) (\<lambda>activity.
             case activity of
               None \<Rightarrow> write_activity os sha r now
             | Some last_seconds \<Rightarrow>
                 if now < last_seconds \<or> now - last_seconds < retention then returnI ()
                 else bindI (remove_payload os r) (\<lambda>_.
                      bindI (remove os r (ascii ''activity'') False) (\<lambda>_.
                      bindI (remove os r (ascii ''lock'') False) (\<lambda>_.
                        remove os parent_root name True))))))))"

definition expire_cache ::
  "'w os \<Rightarrow> (byte list \<Rightarrow> hash) \<Rightarrow> root \<Rightarrow> str \<Rightarrow> u64 \<Rightarrow> u64 \<Rightarrow> ('w, unit) io" where
  "expire_cache os sha parent_root current retention now =
     bindI (children os parent_root []) (eachI (expire_transfer os sha parent_root current retention now))"

section \<open>The store\<close>

record limits =
  max_bytes :: u64
  max_transfers :: nat
  retention_seconds :: u64

record store =
  cs_root :: root
  cs_description :: description
  cs_last_activity :: u64
  cs_lock :: fd
  cs_cache_lock :: fd

definition root_open :: "'w os \<Rightarrow> str \<Rightarrow> ('w, root) io" where
  "root_open os path =
     bindI (sysI (os_open_root os path)) (\<lambda>f. returnI \<lparr>root_fd = f, root_prefix = []\<rparr>)"

definition store_touch :: "'w os \<Rightarrow> (byte list \<Rightarrow> hash) \<Rightarrow> store \<Rightarrow> ('w, store) io" where
  "store_touch os sha s =
     bindI (now_seconds os) (\<lambda>now.
     bindI (refresh_activity (cs_last_activity s) now (write_activity os sha (cs_root s))) (\<lambda>t.
       returnI (s\<lparr>cs_last_activity := t\<rparr>)))"

text \<open>\<open>Drop\<close> touches once more and ignores the result.\<close>

definition store_drop :: "'w os \<Rightarrow> (byte list \<Rightarrow> hash) \<Rightarrow> store \<Rightarrow> 'w \<Rightarrow> 'w" where
  "store_drop os sha s w = snd (store_touch os sha s w)"

definition open_locked ::
  "'w os \<Rightarrow> (byte list \<Rightarrow> hash) \<Rightarrow> (byte list \<Rightarrow> str) \<Rightarrow> root \<Rightarrow> hash \<Rightarrow> description \<Rightarrow> fd \<Rightarrow> ('w, store) io" where
  "open_locked os sha hex parent_root sc d cache_lock =
     (let k = key sha hex d sc in
      bindI (mkdir os parent_root k) (\<lambda>_.
      bindI (liftI (subtree parent_root k)) (\<lambda>r.
      bindI (lock_state_with os r (ascii ''lock'') False) (\<lambda>lock.
      bindI (now_seconds os) (\<lambda>activity.
      bindI (write_activity os sha r activity) (\<lambda>_.
        returnI \<lparr>cs_root = r, cs_description = d, cs_last_activity = activity, cs_lock = lock,
          cs_cache_lock = cache_lock\<rparr>))))))"

definition store_open ::
  "'w os \<Rightarrow> (byte list \<Rightarrow> hash) \<Rightarrow> (byte list \<Rightarrow> str) \<Rightarrow> str \<Rightarrow> hash \<Rightarrow> description \<Rightarrow> ('w, store) io" where
  "store_open os sha hex directory sc d =
     bindI (root_open os directory) (\<lambda>r.
     bindI (lock_state_with os r (ascii ''cache.lock'') True) (\<lambda>lock.
       open_locked os sha hex r sc d lock))"

definition store_name :: "store \<Rightarrow> nat \<Rightarrow> str outcome" where
  "store_name s index =
     bindR (chunk_length (cs_description s) index) (\<lambda>_.
       Inr (hex08 (index div SHARD_CHUNKS) @ slash # hex08 index @ ascii ''.chunk''))"

definition store_verified ::
  "'w os \<Rightarrow> (byte list \<Rightarrow> hash) \<Rightarrow> store \<Rightarrow> byte list \<Rightarrow> nat \<Rightarrow> ('w, fd option) io" where
  "store_verified os sha s table index =
     bindI (pureI (store_name s index)) (\<lambda>name.
     bindI (resultI (open_file os (cs_root s) name)) (\<lambda>x.
       case x of
         Inl e \<Rightarrow> if e = Io NotFound then returnI None else failI e
       | Inr f \<Rightarrow>
           bindI (sysI (os_metadata os f)) (\<lambda>m.
           bindI (pureI (chunk_length (cs_description s) index)) (\<lambda>len.
           bindI (if m_len m \<noteq> len then returnI True
                  else bindI (hash_file os sha f) (\<lambda>h.
                       bindI (pureI (chunk_hash (cs_description s) table index)) (\<lambda>h'. returnI (h \<noteq> h')))) (\<lambda>bad.
             returnI (if bad then None else Some f))))))"

definition store_missing ::
  "'w os \<Rightarrow> (byte list \<Rightarrow> hash) \<Rightarrow> store \<Rightarrow> byte list \<Rightarrow> nat \<Rightarrow> ('w, nat list) io" where
  "store_missing os sha s table start =
     bindI (pureI (chunks (cs_description s))) (\<lambda>n.
       if n = 0 \<and> start = 0 then returnI []
       else bindI (pureI (page_len (cs_description s) start)) (\<lambda>cnt.
         foldI (\<lambda>index missing.
           bindI (store_verified os sha s table index) (\<lambda>v.
             returnI (if v = None then missing @ [index] else missing))) [start..<start + cnt] []))"

text \<open>The name has a slash, so that \<open>split_once(..).unwrap()\<close> does not panic.\<close>

definition store_receive ::
  "'w os \<Rightarrow> (byte list \<Rightarrow> hash) \<Rightarrow> store \<Rightarrow> byte list \<Rightarrow> nat \<Rightarrow> reader \<Rightarrow> ('w, store) io" where
  "store_receive os sha s table index rd =
     bindI (pureI (store_name s index)) (\<lambda>name.
     bindI (presentI (split_once slash name)) (\<lambda>(shard, _).
     bindI (mkdir os (cs_root s) shard) (\<lambda>_.
     bindI (pureI (chunk_length (cs_description s) index)) (\<lambda>len.
     bindI (pureI (chunk_hash (cs_description s) table index)) (\<lambda>h.
     bindI (stage_content os sha (cs_root s) name rd len h) (\<lambda>staged.
     bindI (commit os staged) (\<lambda>_. store_touch os sha s)))))))"

definition assemble_chunk ::
  "'w os \<Rightarrow> (byte list \<Rightarrow> hash) \<Rightarrow> store \<Rightarrow> byte list \<Rightarrow> fd \<Rightarrow> nat \<Rightarrow> byte list \<Rightarrow> ('w, byte list) io" where
  "assemble_chunk os sha s table out index whole =
     bindI (store_verified os sha s table index) (\<lambda>v.
       case v of
         None \<Rightarrow> failI (HashMismatch (ascii ''missing or damaged chunk '' @ decimal index))
       | Some f \<Rightarrow>
           bindI (pureI (chunk_length (cs_description s) index)) (\<lambda>len.
             read_blocks os f (\<lambda>b. sysI (os_write os out b)) (unat len) whole))"

definition store_assemble :: "'w os \<Rightarrow> (byte list \<Rightarrow> hash) \<Rightarrow> store \<Rightarrow> byte list \<Rightarrow> ('w, fd) io" where
  "store_assemble os sha s table =
     bindI (sysI (os_tempfile os)) (\<lambda>out.
     bindI (pureI (chunks (cs_description s))) (\<lambda>n.
     bindI (foldI (assemble_chunk os sha s table out) [0..<n] []) (\<lambda>whole.
       if sha whole \<noteq> d_hash (cs_description s) then failI (HashMismatch (ascii ''assembled file''))
       else bindI (sysI (os_rewind os out)) (\<lambda>_. returnI out))))"

definition store_clear :: "'w os \<Rightarrow> (byte list \<Rightarrow> hash) \<Rightarrow> store \<Rightarrow> ('w, store) io" where
  "store_clear os sha s =
     bindI (payload_bytes os (cs_root s)) (\<lambda>_.
     bindI (remove_payload os (cs_root s)) (\<lambda>_. store_touch os sha s))"

section \<open>Opening with a quota\<close>

text \<open>The bytes and the number of the transfers counted so far, and whether the wanted one is among them.\<close>

definition quota_item ::
  "'w os \<Rightarrow> root \<Rightarrow> str \<Rightarrow> str \<times> metadata \<Rightarrow> u64 \<times> nat \<times> bool \<Rightarrow> ('w, u64 \<times> nat \<times> bool) io" where
  "quota_item os r k item state =
     (let (name, m) = item; (bytes, transfers, found) = state in
      if name = ascii ''cache.lock'' then returnI state
      else if \<not> transfer_name name \<or> m_type m \<noteq> Dir then config_error ''unexpected object in chunk cache''
      else bindI (liftI (subtree r name)) (\<lambda>sub.
           bindI (payload_bytes os sub) (\<lambda>b.
             if 2 ^ 64 \<le> unat bytes + unat b then config_error ''cache size overflow''
             else returnI (bytes + b, transfers + 1, found \<or> name = k))))"

definition needed_chunk :: "'w os \<Rightarrow> store \<Rightarrow> nat \<Rightarrow> u64 \<Rightarrow> ('w, u64) io" where
  "needed_chunk os s i needed =
     bindI (pureI (store_name s i)) (\<lambda>name.
     bindI (pureI (chunk_length (cs_description s) i)) (\<lambda>len.
     bindI (bindI (exists_path os (cs_root s) name) (\<lambda>there.
              if \<not> there then returnI True
              else bindI (metadata os (cs_root s) name) (\<lambda>m. returnI (m_len m \<noteq> len)))) (\<lambda>absent.
       if \<not> absent then returnI needed
       else if 2 ^ 64 \<le> unat needed + unat len then panicI
       else returnI (needed + len))))"

text \<open>A failure after the store was opened drops it. \<open>max_bytes - bytes\<close> does not wrap: it was compared.\<close>

definition open_limited ::
  "'w os \<Rightarrow> (byte list \<Rightarrow> hash) \<Rightarrow> (byte list \<Rightarrow> str) \<Rightarrow> str \<Rightarrow> hash \<Rightarrow> description \<Rightarrow> limits \<Rightarrow> ('w, store) io" where
  "open_limited os sha hex directory sc d lim =
     bindI (root_open os directory) (\<lambda>r.
     bindI (lock_state_with os r (ascii ''cache.lock'') False) (\<lambda>lock.
       let k = key sha hex d sc in
       bindI (if 0 < retention_seconds lim
              then bindI (now_seconds os) (expire_cache os sha r k (retention_seconds lim))
              else returnI ()) (\<lambda>_.
       bindI (children os r []) (\<lambda>items.
       bindI (foldI (quota_item os r k) items (0, 0, False)) (\<lambda>(bytes, transfers, found).
         if max_transfers lim < transfers + (if found then 0 else 1) \<or> max_bytes lim < bytes
         then config_error ''chunk cache quota exceeded; clean stale state while all users are stopped''
         else bindI (open_locked os sha hex r sc d lock) (\<lambda>s.
              on_failI
                (bindI (pureI (chunks d)) (\<lambda>n.
                 bindI (foldI (needed_chunk os s) [0..<n] 0) (\<lambda>needed.
                   if max_bytes lim - bytes < needed then config_error ''chunk cache byte quota exceeded''
                   else returnI s)))
                (store_drop os sha s)))))))"

section \<open>One turn of the loops\<close>

lemma read_exact_unfold:
  "read_exact os f todo acc =
     (if todo = 0 then returnI acc
      else bindI (sysI (os_read os f todo)) (\<lambda>b.
        if b = [] then failI (Io UnexpectedEof) else read_exact os f (todo - length b) (acc @ b)))"
  by (rule ext, subst read_exact.simps) (auto simp: bindI_def split: prod.split sum.split)

lemma read_blocks_unfold:
  "read_blocks os f put todo acc =
     (if todo = 0 then returnI acc
      else bindI (read_exact os f (min todo 65536) []) (\<lambda>b.
           bindI (put b) (\<lambda>_. read_blocks os f put (todo - min todo 65536) (acc @ b))))"
  by (rule ext, subst read_blocks.simps) (auto simp: bindI_def split: prod.split sum.split)

lemma scan_file_chunks_unfold:
  "scan_file_chunks os sha f cs remaining whole table =
     (if remaining = 0 \<or> cs = 0 then returnI (whole, table)
      else bindI (read_blocks os f (\<lambda>_. returnI ()) (min remaining cs) []) (\<lambda>chunk.
        scan_file_chunks os sha f cs (remaining - min remaining cs) (whole @ chunk)
          (table @ be_hash (sha chunk))))"
  by (rule ext, subst scan_file_chunks.simps) (auto simp: bindI_def split: prod.split sum.split)

section \<open>No operation panics\<close>

lemma never_read_exact [never_rules]:
  assumes f: "fault f"
  shows "never f (read_exact os fl todo acc)"
proof (induction todo arbitrary: acc rule: less_induct)
  case (less todo)
  show ?case by (subst read_exact_unfold) (use f in \<open>auto simp: neq_Nil_conv intro!: never_rules less\<close>)
qed

lemma never_read_blocks [never_rules]:
  assumes f: "fault f" and p: "\<And>b. never f (put b)"
  shows "never f (read_blocks os fl put todo acc)"
proof (induction todo arbitrary: acc rule: less_induct)
  case (less todo)
  show ?case by (subst read_blocks_unfold) (use f p in \<open>auto intro!: never_rules less\<close>)
qed

lemma never_scan_file [never_rules]:
  assumes f: "fault f"
  shows "never f (scan_file os sha fl cs)"
proof -
  have "never f (scan_file_chunks os sha fl c remaining whole table)" for c remaining whole table
  proof (induction remaining arbitrary: whole table rule: less_induct)
    case (less remaining)
    show ?case by (subst scan_file_chunks_unfold) (use f in \<open>auto intro!: never_rules less\<close>)
  qed
  then show ?thesis using f by (auto simp: scan_file_def Let_def intro!: never_rules)
qed

lemma never_now_seconds [never_rules]: "fault f \<Longrightarrow> never f (now_seconds os)"
  by (auto simp: never_def now_seconds_def config_error_def split: prod.split option.split)

lemma geometry_safe:
  assumes "desc_ok d"
  shows "chunks d \<noteq> Inl Panics" "chunk_length d i \<noteq> Inl Panics" "page_len d start \<noteq> Inl Panics"
    "set_page d start hs table \<noteq> Inl Panics" "chunk_hash d table i \<noteq> Inl Panics" "page d table start \<noteq> Inl Panics"
proof -
  show "chunks d \<noteq> Inl Panics" by (simp add: chunks_ok [OF assms])
  show len: "chunk_length d i \<noteq> Inl Panics" for i
    using chunk_length_value [OF assms, of i] chunk_length_out [OF assms, of i] by (cases "i < n_chunks d") auto
  show pl: "page_len d start \<noteq> Inl Panics" by (simp add: page_len_def chunks_ok [OF assms])
  show "set_page d start hs table \<noteq> Inl Panics"
    using pl by (auto simp: set_page_def result_simps)
  show hash: "chunk_hash d table i \<noteq> Inl Panics" for i
    using len by (auto simp: chunk_hash_def result_simps)
  have "mapR (chunk_hash d table) is \<noteq> Inl Panics" for "is"
    using hash by (induction "is") (auto simp: result_simps)
  then show "page d table start \<noteq> Inl Panics"
    using pl by (auto simp: page_def result_simps)
qed

lemma never_stage_content [never_rules]: "fault f \<Longrightarrow> never f (stage_content os sha r p rd sz h)"
  by (auto simp: stage_content_def stage_inner_def stage_body_def parent_def set_mtime_def Let_def
      intro!: never_rules split: prod.split)

lemma never_activity [never_rules]:
  assumes "fault f"
  shows "never f (write_activity os sha r t)" "never f (read_activity os r)"
    "never f (lock_state_with os r p b)" "never f (remove_files os r p names)" "never f (root_open os dir)"
  using assms
  by (auto simp: write_activity_def read_activity_def lock_state_with_def remove_files_def unlink_batch_def
      check_name_def root_open_def Let_def intro!: never_rules)


section \<open>Stores\<close>

text \<open>The staging files of a cache directory have less than \<open>2 ^ 64\<close> bytes together.\<close>

definition sizes_fit :: "'w os \<Rightarrow> bool" where
  "sizes_fit os \<longleftrightarrow> (\<forall>r. safe (payload_bytes os r))"

lemma sizes_fitD [never_rules]: "sizes_fit os \<Longrightarrow> safe (payload_bytes os r)"
  by (simp add: sizes_fit_def)

lemma safe_touch [never_rules]: "safe (store_touch os sha s)"
  by (auto simp: store_touch_def refresh_activity_def intro!: never_rules)

lemma safe_remove_payload [never_rules]: "safe (remove_payload os r)"
  by (auto simp: remove_payload_def remove_payload_item_def intro!: never_rules split: prod.split)

lemma safe_clear [never_rules]: "sizes_fit os \<Longrightarrow> safe (store_clear os sha s)"
  by (auto simp: store_clear_def intro!: never_rules)

lemma store_name_safe: "desc_ok (cs_description s) \<Longrightarrow> store_name s i \<noteq> Inl Panics"
  using geometry_safe(2) by (auto simp: store_name_def result_simps)

lemma store_name_split: "store_name s i = Inr name \<Longrightarrow> split_once slash name \<noteq> None"
proof -
  assume "store_name s i = Inr name"
  then have "slash \<in> set name" by (auto simp: store_name_def result_simps)
  then obtain a b where "name = a @ slash # b" "slash \<notin> set a" by (metis split_list_first)
  then have "split_once slash name = Some (a, b)" by (simp add: split_once_Some)
  then show ?thesis by simp
qed

lemma safe_store:
  assumes "desc_ok (cs_description s)"
  shows "safe (store_verified os sha s table i)" "safe (store_missing os sha s table start)"
    "safe (store_receive os sha s table i rd)" "safe (store_assemble os sha s table)"
proof -
  note g = geometry_safe [OF assms] store_name_safe [OF assms]
  show v: "safe (store_verified os sha s table i)" for i
    using g by (auto simp: store_verified_def intro!: never_rules)
  show "safe (store_missing os sha s table start)"
    using g v by (auto simp: store_missing_def intro!: never_rules)
  have n: "ensures (pureI (store_name s i)) (\<lambda>name. split_once slash name \<noteq> None)"
    using store_name_split [of s i] by (auto simp: ensures_def)
  have p: "safe (pureI (store_name s i))" using g by (auto intro!: never_rules)
  show "safe (store_receive os sha s table i rd)"
    unfolding store_receive_def by (rule never_bind [OF p n]) (use g in \<open>auto intro!: never_rules split: prod.split\<close>)
  show "safe (store_assemble os sha s table)"
    using g v by (auto simp: store_assemble_def assemble_chunk_def intro!: never_rules)
qed

lemma needed_bound:
  assumes d: "desc_ok (cs_description s)"
  shows "safe (foldI (needed_chunk os s) [0..<n_chunks (cs_description s)] 0)"
proof (rule never_fold_inv [where P = "\<lambda>ys u. unat u \<le> (\<Sum>i<length ys. chunk_len (cs_description s) i)"])
  fix ys i zs and u :: u64
  assume eq: "[0..<n_chunks (cs_description s)] = ys @ i # zs"
    and P: "unat u \<le> (\<Sum>i<length ys. chunk_len (cs_description s) i)"
  let ?d = "cs_description s" and ?n = "n_chunks (cs_description s)"
  have i: "i = length ys" "length ys < ?n" using upt_split [OF eq] by simp_all
  have len: "chunk_length ?d i = Inr (word_of_nat (chunk_len ?d i))" using chunk_length_value [OF d] i by simp
  have fit: "unat (word_of_nat (chunk_len ?d i) :: u64) = chunk_len ?d i"
    using chunk_len_bounds [OF d, of i] i desc_ok_bounds(2) [OF d] by (simp add: unat_of_nat)
  have "(\<Sum>j<Suc (length ys). chunk_len ?d j) \<le> (\<Sum>j<?n. chunk_len ?d j)"
    by (rule sum_mono2) (use i in auto)
  then have tot: "unat u + chunk_len ?d i \<le> 134217727"
    using P chunk_len_total [OF d] desc_ok_bounds(3) [OF d] i by simp
  have name: "store_name s i \<noteq> Inl Panics" by (rule store_name_safe [OF d])
  have sum: "unat (u + word_of_nat (chunk_len ?d i)) = unat u + chunk_len ?d i"
    using tot fit by (simp add: unat_word_ariths)
  show "safe (needed_chunk os s i u)
      \<and> ensures (needed_chunk os s i u) (\<lambda>u. unat u \<le> (\<Sum>i<length (ys @ [i]). chunk_len ?d i))"
  proof
    show "safe (needed_chunk os s i u)"
      using name tot len fit by (auto simp: needed_chunk_def intro!: never_rules)
    show "ensures (needed_chunk os s i u) (\<lambda>u. unat u \<le> (\<Sum>i<length (ys @ [i]). chunk_len ?d i))"
      using P i len sum by (auto simp: needed_chunk_def ensures_def io_simps split: if_splits)
  qed
qed simp

lemma open_locked_Inr:
  "open_locked os sha hex r sc d lock w = (Inr s, w') \<Longrightarrow> cs_description s = d"
  by (auto simp: open_locked_def bindI_Inr Let_def)

lemma open_Inr:
  "store_open os sha hex dir sc d w = (Inr s, w') \<Longrightarrow> cs_description s = d"
  "open_limited os sha hex dir sc d lim w = (Inr s, w') \<Longrightarrow> cs_description s = d"
  by (auto simp: store_open_def open_limited_def bindI_Inr on_failI_Inr if_fail_Inr config_error_def Let_def
      split: prod.splits if_splits dest: open_locked_Inr)

lemma safe_open_locked [never_rules]: "safe (open_locked os sha hex r sc d lock)"
  by (auto simp: open_locked_def Let_def intro!: never_rules)

lemma safe_expire: "sizes_fit os \<Longrightarrow> safe (expire_cache os sha r k retention now)"
  by (auto simp: expire_cache_def expire_transfer_def config_error_def intro!: never_rules split: prod.split)

lemma safe_open:
  assumes "desc_ok d"
  shows "safe (store_open os sha hex dir sc d)" "sizes_fit os \<Longrightarrow> safe (open_limited os sha hex dir sc d lim)"
proof -
  show "safe (store_open os sha hex dir sc d)"
    by (auto simp: store_open_def intro!: never_rules)
  assume fit: "sizes_fit os"
  have locked: "ensures (open_locked os sha hex r sc d lock) (\<lambda>s. cs_description s = d)" for r lock
    using open_locked_Inr by (auto simp: ensures_def)
  have need: "safe (on_failI (bindI (pureI (chunks d)) (\<lambda>n. bindI (foldI (needed_chunk os s) [0..<n] 0) (\<lambda>needed.
        if b < needed then config_error t else returnI s))) (store_drop os sha s))"
    if "cs_description s = d" for s b t
    using that needed_bound [of s os] chunks_ok [OF assms] assms
    by (auto simp: config_error_def intro!: never_rules)
  show "safe (open_limited os sha hex dir sc d lim)"
    unfolding open_limited_def Let_def
    by (intro never_rules never_bind [OF safe_open_locked locked] need)
      (auto simp: quota_item_def config_error_def fit intro!: never_rules safe_expire split: prod.split)
qed


section \<open>Names\<close>

lemma unat_hex_digit: "n < 16 \<Longrightarrow> unat (hex_digit n) = (if n < 10 then 48 + n else 87 + n)"
  using unat_of_nat [of "48 + n", where ?'a = 8] unat_of_nat [of "87 + n", where ?'a = 8]
  by (simp add: hex_digit_def)

lemma hex_digit_value: "n < 16 \<Longrightarrow> is_hexdigit (hex_digit n) \<and> hex_value (hex_digit n) = n"
  using unat_hex_digit [of n]
  by (auto simp: is_hexdigit_def hex_value_def word_le_nat_alt split: if_splits)

lemma parse_hex_append: "parse_hex (a @ b) = foldl (\<lambda>n b. n * 16 + hex_value b) (parse_hex a) b"
  by (simp add: parse_hex_def)

lemma parse_hex_text: "parse_hex (hex_text n) = n \<and> list_all is_hexdigit (hex_text n)"
proof (induction n rule: hex_text.induct)
  case (1 n)
  show ?case
  proof (cases "n < 16")
    case True
    then show ?thesis using hex_digit_value [of n] by (subst (1 2) hex_text.simps) (simp add: parse_hex_def)
  next
    case False
    then show ?thesis
      using 1 hex_digit_value [of "n mod 16"]
      by (subst (1 2) hex_text.simps) (simp add: parse_hex_append)
  qed
qed

lemma length_hex_text: "n < 16 ^ Suc k \<Longrightarrow> length (hex_text n) \<le> Suc k"
proof (induction k arbitrary: n)
  case 0
  then show ?case by (subst hex_text.simps) simp
next
  case (Suc k)
  then show ?case by (subst hex_text.simps) (simp add: less_mult_imp_div_less mult.commute)
qed

lemma hex08:
  assumes "n < 2 ^ 32"
  shows "length (hex08 n) = 8" "list_all is_hexdigit (hex08 n)" "parse_hex (hex08 n) = n"
proof -
  show "length (hex08 n) = 8" using length_hex_text [of n 7] assms by (simp add: hex08_def)
  have z: "parse_hex (replicate k 48) = 0 \<and> list_all is_hexdigit (replicate k 48)" for k
    by (induction k) (simp_all add: parse_hex_def is_hexdigit_def hex_value_def)
  then show "list_all is_hexdigit (hex08 n)" using parse_hex_text [of n] by (simp add: hex08_def)
  have "parse_hex (hex08 n) = parse_hex (hex_text n)"
    unfolding hex08_def parse_hex_append using z by (simp add: parse_hex_def)
  then show "parse_hex (hex08 n) = n" using parse_hex_text [of n] by simp
qed

lemma store_name_parts:
  assumes d: "desc_ok (cs_description s)" and i: "i < n_chunks (cs_description s)"
  shows "store_name s i = Inr (hex08 (i div 256) @ slash # hex08 i @ ascii ''.chunk'')"
  using chunk_length_value [OF assms] by (simp add: store_name_def SHARD_CHUNKS_def)

lemma hexdigit_not_slash: "list_all is_hexdigit s \<Longrightarrow> slash \<notin> set s"
  by (induction s) (auto simp: is_hexdigit_def)

text \<open>The cache accepts the files it writes. The name of every chunk of a described file is one directory
  and one file below it; the directory is a shard name and the file a chunk name, they decode to the shard
  and to the index of the chunk, and the count of a cache's bytes accepts a regular file of that name and
  adds its size, so that a later run finds every chunk of an earlier one and rejects none.\<close>

theorem chunk_files_kept:
  assumes "desc_ok (cs_description s)" "i < n_chunks (cs_description s)"
  shows "\<exists>shard file. store_name s i = Inr (shard @ slash # file) \<and> split_once slash (shard @ slash # file) = Some (shard, file)
    \<and> shard_name shard \<and> chunk_name file \<and> parse_hex shard = i div 256 \<and> parse_hex (take 8 file) = i
    \<and> (\<forall>m b w. payload_chunk (parse_hex shard) (file, m) b w
        = (if m_type m \<noteq> Regular then config_error ''unexpected object in chunk shard'' w
           else if 2 ^ 64 \<le> unat b + unat (m_len m) then config_error ''cache size overflow'' w
           else (Inr (b + m_len m), w)))"
proof -
  have bound: "i < 2 ^ 32" "i div 256 < 2 ^ 32" using assms(2) desc_ok_bounds(4) [OF assms(1)] by auto
  note hi = hex08 [OF bound(1)] and hs = hex08 [OF bound(2)]
  have "split_once slash (hex08 (i div 256) @ slash # hex08 i @ ascii ''.chunk'') = Some (hex08 (i div 256), hex08 i @ ascii ''.chunk'')"
    using hexdigit_not_slash [OF hs(2)] by (simp add: split_once_Some)
  moreover have "strip_suffix (ascii ''.chunk'') (hex08 i @ ascii ''.chunk'') = Some (hex08 i)"
    by (simp add: strip_suffix_def)
  then have "chunk_name (hex08 i @ ascii ''.chunk'')" using hi by (simp add: chunk_name_def)
  ultimately show ?thesis
    using store_name_parts [OF assms] hi hs
    by (intro exI [of _ "hex08 (i div 256)"] exI [of _ "hex08 i @ ascii ''.chunk''"])
      (simp add: shard_name_def payload_chunk_def SHARD_CHUNKS_def Let_def)
qed

section \<open>Missing chunks\<close>

lemma store_missing_Inr:
  assumes d: "desc_ok (cs_description s)" and run: "store_missing os sha s table start w = (Inr list, w')"
  shows "\<exists>b n. list = filter b [start..<start + n]
    \<and> (n_chunks (cs_description s) = 0 \<and> start = 0 \<and> n = 0 \<or> page_len (cs_description s) start = Inr n)"
proof (cases "n_chunks (cs_description s) = 0 \<and> start = 0")
  case True
  then show ?thesis
    using run by (auto simp: store_missing_def chunks_ok [OF d] intro!: exI [of _ "\<lambda>_. True"] exI [of _ 0])
next
  case False
  then obtain n w1 where n: "page_len (cs_description s) start = Inr n"
    and fold: "foldI (\<lambda>index missing. bindI (store_verified os sha s table index) (\<lambda>v.
        returnI (if v = None then missing @ [index] else missing))) [start..<start + n] [] w1 = (Inr list, w')"
    using run by (auto simp: store_missing_def chunks_ok [OF d] io_simps)
  have "\<exists>b. list = filter b [start..<start + n]"
  proof (rule foldI_invariant [OF fold, where P = "\<lambda>ys l. \<exists>b. l = filter b ys"])
    fix ys x zs and u v :: "nat list" and w1 w2
    assume eq: "[start..<start + n] = ys @ x # zs" and P: "\<exists>b. u = filter b ys"
      and st: "bindI (store_verified os sha s table x) (\<lambda>v. returnI (if v = None then u @ [x] else u)) w1 = (Inr v, w2)"
    from st have v: "v = u @ [x] \<or> v = u" by (auto simp: bindI_Inr split: if_splits)
    from P obtain b where b: "u = filter b ys" ..
    have x: "x \<notin> set ys" using distinct_upt [of start "start + n"] unfolding eq by simp
    then have "filter (b(x := c)) ys = filter b ys" for c by (intro filter_cong) auto
    with v b show "\<exists>b. v = filter b (ys @ [x])"
      by (auto intro: exI [of _ "b(x := True)"] exI [of _ "b(x := False)"])
  qed simp
  with n show ?thesis by blast
qed


section \<open>The description of a file\<close>

lemma length_be_hash [simp]: "length (be_hash h) = 32"
  by (simp add: be_hash_def)

lemma scan_file_chunks_length:
  "scan_file_chunks os sha f cs remaining whole table w = (Inr (whole', table'), w') \<Longrightarrow> 0 < cs
     \<Longrightarrow> length table' = length table + 32 * div_ceil remaining cs"
proof (induction remaining arbitrary: whole table w rule: less_induct)
  case (less remaining)
  show ?case
  proof (cases "remaining = 0")
    case True
    with less.prems show ?thesis by (subst (asm) scan_file_chunks_unfold) simp
  next
    case False
    from less.prems False obtain chunk w1 where
      "scan_file_chunks os sha f cs (remaining - min remaining cs) (whole @ chunk) (table @ be_hash (sha chunk)) w1
        = (Inr (whole', table'), w')"
      by (subst (asm) scan_file_chunks_unfold) (auto simp: bindI_Inr)
    moreover have "remaining - min remaining cs < remaining" using False less.prems(2) by simp
    ultimately have "length table' = length table + 32 + 32 * div_ceil (remaining - min remaining cs) cs"
      using less.IH less.prems(2) by fastforce
    moreover have "remaining - min remaining cs = remaining - cs" by simp
    ultimately show ?thesis using div_ceil_diff [of cs remaining] False less.prems(2) by simp
  qed
qed

lemma scan_file_Inr:
  assumes "scan_file os sha f cs w = (Inr (d, table), w')"
  shows "desc_ok d" "d_chunk_size d = cs" "length table = 32 * n_chunks d" "d_size d = 0 \<Longrightarrow> d_hash d = sha []"
proof -
  from assms obtain m n whole w1 w2 where c: "count (st_size (stamp_of m)) cs = Inr n"
    and l: "scan_file_chunks os sha f (unat cs) (unat (st_size (stamp_of m))) [] [] w1 = (Inr (whole, table), w2)"
    and d: "d = \<lparr>d_size = st_size (stamp_of m), d_chunk_size = cs, d_hash = sha whole\<rparr>"
    by (auto simp: scan_file_def bindI_Inr Let_def split: if_splits)
  from c d show ok: "desc_ok d" "d_chunk_size d = cs" by (auto simp: count_Inr desc_ok_def)
  have "0 < unat cs" using desc_ok_bounds(1) [OF ok(1)] ok(2) by simp
  from scan_file_chunks_length [OF l this] show "length table = 32 * n_chunks d"
    by (simp add: n_chunks_def d)
  show "d_hash d = sha []" if "d_size d = 0"
    using l that by (subst (asm) scan_file_chunks_unfold) (simp add: d)
qed

end
