(* ===== verification/Codec2.thy ===== *)
theory Codec2
  imports Codec1 Chunk_Geometry
begin

text \<open>
  The version 2 codec (\<open>src/protocol/v2.rs\<close>): START, MANIFEST, FINISH, OK and ERROR keep their
  version 1 layout under version byte 2, the whole-file commands are rejected, and the chunk
  messages have layouts of their own. As in version 1, \<open>message_bytes2\<close> is the layout of the wire
  specification and \<open>decode2_iff\<close>, \<open>encode2_iff\<close> connect it with the code.
\<close>

section \<open>Messages and their checks\<close>

definition VERSION2 :: byte where "VERSION2 = 2"

datatype message2 =
    Common message
  | Describe u32 u32
  | Description u32 description
  | HashesGet u32 u32
  | Hashes u32 u32 "hash list"
  | Missing u32 u32 u32 "u32 list"
  | ChunkBegin u32 u32
  | ChunkCommit u32 u32 hash
  | ChunkGet u32 u32
  | ChunkVerified u32 u32
  | FileCommit u32
  | FileVerified u32

definition invalid :: "string \<Rightarrow> error" where
  "invalid s = Protocol (ascii s)"

definition file_index :: "u32 \<Rightarrow> unit res" where
  "file_index i =
     (if MAX_ENTRIES \<le> unat i then Inl (invalid ''file index outside manifest bound'') else Inr ())"

definition page_range :: "u32 \<Rightarrow> nat \<Rightarrow> unit res" where
  "page_range start n =
     (if unat start mod PAGE_CHUNKS \<noteq> 0 \<or> n = 0 \<or> PAGE_CHUNKS < n \<or> 2 ^ 32 \<le> unat start + n
      then Inl (invalid ''invalid page range'') else Inr ())"

definition common_tag :: "byte \<Rightarrow> bool" where
  "common_tag tag \<longleftrightarrow> tag = 1 \<or> tag = 2 \<or> tag = 7 \<or> tag = 8 \<or> tag = 9"

definition missing_step :: "u32 \<Rightarrow> nat \<Rightarrow> u32 \<Rightarrow> u32 option \<Rightarrow> u32 option res" where
  "missing_step start n chunk previous =
     (if chunk < start \<or> word_of_nat n \<le> chunk - start
         \<or> (case previous of None \<Rightarrow> False | Some p \<Rightarrow> chunk \<le> p)
      then Inl (invalid ''missing chunks must be strictly increasing and in range'')
      else Inr (Some chunk))"

definition validate_missing :: "u32 list \<Rightarrow> u32 \<Rightarrow> nat \<Rightarrow> unit res" where
  "validate_missing cs start n =
     bindR (page_range start n) (\<lambda>_.
       if n < length cs then Inl (invalid ''missing chunk count outside bound'')
       else bindR (foldR (missing_step start n) cs None) (\<lambda>_. Inr ()))"

section \<open>Encoding\<close>

fun encode_body2 :: "message2 \<Rightarrow> byte list \<Rightarrow> byte list res" where
  "encode_body2 (Common m) w = Inr w" \<comment> \<open>unreachable in the source: handled before\<close>
| "encode_body2 (Describe i cs) w =
     bindR (file_index i) (\<lambda>_. bindR (count 0 cs) (\<lambda>_.
       Inr (write_u32 cs (write_u32 i (write_u8 10 w)))))"
| "encode_body2 (Description i d) w =
     bindR (file_index i) (\<lambda>_.
       if MAX_FILE < d_size d then Inl (invalid ''file exceeds manifest limit'')
       else Inr (write_u32 (d_chunk_size d) (write_u32 i (write_u8 11 w) @ be64 (d_size d))
                 @ be_hash (d_hash d)))"
| "encode_body2 (HashesGet i start) w =
     bindR (file_index i) (\<lambda>_. bindR (page_range start 1) (\<lambda>_.
       Inr (write_u32 start (write_u32 i (write_u8 19 w)))))"
| "encode_body2 (Hashes i start hs) w =
     bindR (file_index i) (\<lambda>_. bindR (page_range start (length hs)) (\<lambda>_.
       Inr (write_u32 (word_of_nat (length hs)) (write_u32 start (write_u32 i (write_u8 20 w)))
            @ concat (map be_hash hs))))"
| "encode_body2 (Missing i start n cs) w =
     bindR (file_index i) (\<lambda>_. bindR (validate_missing cs start (unat n)) (\<lambda>_.
       Inr (write_u32 (word_of_nat (length cs)) (write_u32 n (write_u32 start (write_u32 i (write_u8 12 w))))
            @ concat (map be32 cs))))"
| "encode_body2 (ChunkBegin i c) w =
     bindR (file_index i) (\<lambda>_. Inr (write_u32 c (write_u32 i (write_u8 13 w))))"
| "encode_body2 (ChunkCommit i c resource) w =
     bindR (file_index i) (\<lambda>_. Inr (write_u32 c (write_u32 i (write_u8 14 w)) @ be_hash resource))"
| "encode_body2 (ChunkGet i c) w =
     bindR (file_index i) (\<lambda>_. Inr (write_u32 c (write_u32 i (write_u8 15 w))))"
| "encode_body2 (ChunkVerified i c) w =
     bindR (file_index i) (\<lambda>_. Inr (write_u32 c (write_u32 i (write_u8 16 w))))"
| "encode_body2 (FileCommit i) w =
     bindR (file_index i) (\<lambda>_. Inr (write_u32 i (write_u8 17 w)))"
| "encode_body2 (FileVerified i) w =
     bindR (file_index i) (\<lambda>_. Inr (write_u32 i (write_u8 18 w)))"

definition encode2 :: "message2 \<Rightarrow> byte list res" where
  "encode2 m =
     (case m of
        Common c \<Rightarrow>
          bindR (encode c) (\<lambda>bytes.
            if \<not> common_tag (bytes ! 1) then Inl (invalid ''legacy whole-file command in v2'')
            else Inr (bytes[0 := VERSION2]))
      | _ \<Rightarrow>
          bindR (encode_body2 m [VERSION2]) (\<lambda>w.
            if MAX_CONTROL < length w then Inl (invalid ''control message limit'') else Inr w))"

section \<open>Decoding\<close>

definition read_describe :: "u32 \<Rightarrow> message2 parser" where
  "read_describe i r =
     bindR (read_u32 r) (\<lambda>(cs, r). bindR (count 0 cs) (\<lambda>_. Inr (Describe i cs, r)))"

definition read_description :: "(byte list \<Rightarrow> hash) \<Rightarrow> unit res \<Rightarrow> u32 \<Rightarrow> message2 parser" where
  "read_description sha tmp i r =
     bindR (read_u64 r) (\<lambda>(sz, r).
       if MAX_FILE < sz then Inl (invalid ''file exceeds manifest limit'')
       else bindR (read_u32 r) (\<lambda>(cs, r).
            bindR (count sz cs) (\<lambda>_.
            bindR (read_hash r) (\<lambda>(h, r).
            bindR (header sha tmp sz cs h) (\<lambda>d. Inr (Description i d, r))))))"

definition read_missing :: "u32 \<Rightarrow> message2 parser" where
  "read_missing i r =
     bindR (read_u32 r) (\<lambda>(start, r).
     bindR (read_u32 r) (\<lambda>(page_count, r).
     bindR (page_range start (unat page_count)) (\<lambda>_.
     bindR (read_u32 r) (\<lambda>(n, r).
       if unat page_count < unat n then Inl (invalid ''missing page count'')
       else bindR (take_bytes (unat n * 4) r) (\<lambda>(raw, r).
            let cs = map from_be32 (chunks_exact 4 raw)
            in bindR (validate_missing cs start (unat page_count)) (\<lambda>_.
                 Inr (Missing i start page_count cs, r)))))))"

definition read_hashes_get :: "u32 \<Rightarrow> message2 parser" where
  "read_hashes_get i r =
     bindR (read_u32 r) (\<lambda>(start, r). bindR (page_range start 1) (\<lambda>_. Inr (HashesGet i start, r)))"

definition read_hashes :: "u32 \<Rightarrow> message2 parser" where
  "read_hashes i r =
     bindR (read_u32 r) (\<lambda>(start, r).
     bindR (read_u32 r) (\<lambda>(n, r).
     bindR (page_range start (unat n)) (\<lambda>_.
     bindR (take_bytes (unat n * 32) r) (\<lambda>(raw, r).
       Inr (Hashes i start (map from_be_hash (chunks_exact 32 raw)), r)))))"

definition read_chunk_command :: "byte \<Rightarrow> u32 \<Rightarrow> message2 parser" where
  "read_chunk_command tag i r =
     bindR (read_u32 r) (\<lambda>(c, r).
       if tag = 13 then Inr (ChunkBegin i c, r)
       else if tag = 14 then bindR (read_hash r) (\<lambda>(h, r). Inr (ChunkCommit i c h, r))
       else if tag = 15 then Inr (ChunkGet i c, r)
       else Inr (ChunkVerified i c, r))"

definition read_body2 :: "(byte list \<Rightarrow> hash) \<Rightarrow> unit res \<Rightarrow> byte \<Rightarrow> u32 \<Rightarrow> message2 parser" where
  "read_body2 sha tmp tag i r =
     (if tag = 10 then read_describe i r
      else if tag = 11 then read_description sha tmp i r
      else if tag = 12 then read_missing i r
      else if tag = 19 then read_hashes_get i r
      else if tag = 20 then read_hashes i r
      else if 13 \<le> tag \<and> tag \<le> 16 then read_chunk_command tag i r
      else if tag = 17 then Inr (FileCommit i, r)
      else Inr (FileVerified i, r))"

definition decode2 :: "(byte list \<Rightarrow> hash) \<Rightarrow> unit res \<Rightarrow> byte list \<Rightarrow> message2 res" where
  "decode2 sha tmp bytes =
     (if MAX_CONTROL < length bytes then Inl (invalid ''control message limit'')
      else bindR (read_u8 bytes) (\<lambda>(version, r).
        if version \<noteq> VERSION2 then Inl (invalid ''version mismatch'')
        else bindR (read_u8 r) (\<lambda>(tag, r).
          if common_tag tag then
            bindR (decode (bytes[0 := VERSION1])) (\<lambda>m. Inr (Common m))
          else if \<not> (10 \<le> tag \<and> tag \<le> 20) then Inl (invalid ''unknown v2 message tag'')
          else bindR (read_u32 r) (\<lambda>(i, r).
               bindR (file_index i) (\<lambda>_.
               bindR (read_body2 sha tmp tag i r) (\<lambda>(m, r).
                 if r \<noteq> [] then Inl (invalid ''trailing bytes'') else Inr m))))))"

section \<open>The layout\<close>

fun body_bytes2 :: "message2 \<Rightarrow> byte list" where
  "body_bytes2 (Common m) = body_bytes m"
| "body_bytes2 (Describe i cs) = 10 # be32 i @ be32 cs"
| "body_bytes2 (Description i d) =
     11 # be32 i @ be64 (d_size d) @ be32 (d_chunk_size d) @ be_hash (d_hash d)"
| "body_bytes2 (HashesGet i start) = 19 # be32 i @ be32 start"
| "body_bytes2 (Hashes i start hs) =
     20 # be32 i @ be32 start @ be32 (word_of_nat (length hs)) @ concat (map be_hash hs)"
| "body_bytes2 (Missing i start n cs) =
     12 # be32 i @ be32 start @ be32 n @ be32 (word_of_nat (length cs)) @ concat (map be32 cs)"
| "body_bytes2 (ChunkBegin i c) = 13 # be32 i @ be32 c"
| "body_bytes2 (ChunkCommit i c h) = 14 # be32 i @ be32 c @ be_hash h"
| "body_bytes2 (ChunkGet i c) = 15 # be32 i @ be32 c"
| "body_bytes2 (ChunkVerified i c) = 16 # be32 i @ be32 c"
| "body_bytes2 (FileCommit i) = 17 # be32 i"
| "body_bytes2 (FileVerified i) = 18 # be32 i"

definition message_bytes2 :: "message2 \<Rightarrow> byte list" where
  "message_bytes2 m = VERSION2 # body_bytes2 m"

definition index_ok :: "u32 \<Rightarrow> bool" where
  "index_ok i \<longleftrightarrow> unat i < 16384"

definition range_ok :: "u32 \<Rightarrow> nat \<Rightarrow> bool" where
  "range_ok start n \<longleftrightarrow> 128 dvd unat start \<and> 0 < n \<and> n \<le> 128 \<and> unat start + n < 2 ^ 32"

definition missing_ok :: "u32 list \<Rightarrow> u32 \<Rightarrow> nat \<Rightarrow> bool" where
  "missing_ok cs start n \<longleftrightarrow>
     range_ok start n \<and> sorted_wrt (<) cs
     \<and> (\<forall>c \<in> set cs. unat start \<le> unat c \<and> unat c < unat start + n)"

fun legacy :: "message \<Rightarrow> bool" where
  "legacy (Begin _) = True"
| "legacy (Commit _ _) = True"
| "legacy (Get _) = True"
| "legacy (Verified _) = True"
| "legacy _ = False"

text \<open>A description the type can hold: its fields are private and only \<open>header\<close> and \<open>scan\<close> build one.\<close>

definition desc_typed :: "(byte list \<Rightarrow> hash) \<Rightarrow> description \<Rightarrow> bool" where
  "desc_typed sha d \<longleftrightarrow> desc_ok d \<and> (d_size d = 0 \<longrightarrow> d_hash d = sha [])"

fun message_ok2 :: "(byte list \<Rightarrow> hash) \<Rightarrow> message2 \<Rightarrow> bool" where
  "message_ok2 sha (Common m) \<longleftrightarrow> message_ok m \<and> \<not> legacy m"
| "message_ok2 sha (Describe i cs) \<longleftrightarrow> index_ok i \<and> MIN_CHUNK_SIZE \<le> cs \<and> cs \<le> MAX_CHUNK_SIZE"
| "message_ok2 sha (Description i d) \<longleftrightarrow> index_ok i \<and> desc_typed sha d"
| "message_ok2 sha (HashesGet i start) \<longleftrightarrow> index_ok i \<and> range_ok start 1"
| "message_ok2 sha (Hashes i start hs) \<longleftrightarrow> index_ok i \<and> range_ok start (length hs)"
| "message_ok2 sha (Missing i start n cs) \<longleftrightarrow> index_ok i \<and> missing_ok cs start (unat n)"
| "message_ok2 sha (ChunkBegin i c) \<longleftrightarrow> index_ok i"
| "message_ok2 sha (ChunkCommit i c h) \<longleftrightarrow> index_ok i"
| "message_ok2 sha (ChunkGet i c) \<longleftrightarrow> index_ok i"
| "message_ok2 sha (ChunkVerified i c) \<longleftrightarrow> index_ok i"
| "message_ok2 sha (FileCommit i) \<longleftrightarrow> index_ok i"
| "message_ok2 sha (FileVerified i) \<longleftrightarrow> index_ok i"

section \<open>The checks\<close>

lemma file_index_Inr [simp]: "file_index i = Inr () \<longleftrightarrow> index_ok i"
  by (simp add: file_index_def index_ok_def MAX_ENTRIES_def)

lemma page_range_Inr [simp]: "page_range start n = Inr () \<longleftrightarrow> range_ok start n"
  by (auto simp: page_range_def range_ok_def PAGE_CHUNKS_def not_le dvd_eq_mod_eq_0)

lemma missing_step_Inr:
  assumes "range_ok start n"
  shows "missing_step start n c prev = Inr s \<longleftrightarrow>
    unat start \<le> unat c \<and> unat c < unat start + n \<and> (\<forall>p. prev = Some p \<longrightarrow> p < c) \<and> s = Some c"
proof -
  have "unat (word_of_nat n :: u32) = n"
    using assms by (simp add: range_ok_def unat_of_nat)
  then have "(\<not> c < start \<and> \<not> word_of_nat n \<le> c - start) \<longleftrightarrow> unat start \<le> unat c \<and> unat c < unat start + n"
    by (auto simp: word_le_nat_alt word_less_nat_alt unat_sub not_less not_le)
  then show ?thesis
    by (auto simp: missing_step_def not_le split: option.splits)
qed

lemma missing_fold:
  assumes "range_ok start n"
  shows "(\<exists>s. foldR (missing_step start n) cs prev = Inr s) \<longleftrightarrow>
    sorted_wrt (<) (case prev of None \<Rightarrow> cs | Some p \<Rightarrow> p # cs)
    \<and> (\<forall>c \<in> set cs. unat start \<le> unat c \<and> unat c < unat start + n)"
proof (induction cs arbitrary: prev)
  case Nil
  then show ?case by (auto split: option.splits)
next
  case (Cons c cs)
  have "(\<exists>s. foldR (missing_step start n) (c # cs) prev = Inr s) \<longleftrightarrow>
      (unat start \<le> unat c \<and> unat c < unat start + n \<and> (\<forall>p. prev = Some p \<longrightarrow> p < c))
      \<and> (\<exists>s. foldR (missing_step start n) cs (Some c) = Inr s)"
    by (auto simp: result_simps missing_step_Inr [OF assms])
  then show ?case
    unfolding Cons.IH by (cases prev) (auto, force)
qed

lemma sorted_range_length:
  fixes cs :: "u32 list"
  assumes "sorted_wrt (<) cs" "\<forall>c \<in> set cs. a \<le> unat c \<and> unat c < a + n"
  shows "length cs \<le> n"
proof -
  have "inj_on unat (set cs)" by (auto simp: inj_on_def word_unat_eq_iff)
  then have "card (unat ` set cs) = length cs"
    using assms(1) by (simp add: card_image distinct_card strict_sorted_iff)
  moreover have "unat ` set cs \<subseteq> {a..<a + n}" using assms(2) by auto
  then have "card (unat ` set cs) \<le> n" by (metis card_atLeastLessThan card_mono diff_add_inverse finite_atLeastLessThan)
  ultimately show ?thesis by simp
qed

lemma validate_missing_Inr: "validate_missing cs start n = Inr () \<longleftrightarrow> missing_ok cs start n"
proof (cases "range_ok start n")
  case True
  have "validate_missing cs start n = Inr () \<longleftrightarrow>
      length cs \<le> n \<and> (\<exists>s. foldR (missing_step start n) cs None = Inr s)"
    using True by (auto simp: validate_missing_def result_simps not_less)
  then show ?thesis
    unfolding missing_fold [OF True] missing_ok_def
    using True sorted_range_length [of cs "unat start" n] by auto
next
  case False
  then show ?thesis
    by (auto simp: validate_missing_def result_simps missing_ok_def)
qed

section \<open>Decoding accepts exactly the layouts\<close>

text \<open>The two tables: \<open>k\<close> fixed-width items, read by \<open>take\<close> and \<open>chunks_exact\<close>.\<close>

lemma table_read:
  assumes put: "\<And>x. length (put x) = n" and unput_put: "\<And>x. unput (put x) = x"
    and put_unput: "\<And>bs. length bs = n \<Longrightarrow> put (unput bs) = bs" and "0 < n"
  shows "(\<exists>raw. take_bytes (k * n) bs = Inr (raw, r) \<and> xs = map unput (chunks_exact n raw))
     \<longleftrightarrow> length xs = k \<and> bs = concat (map put xs) @ r"
proof
  assume "\<exists>raw. take_bytes (k * n) bs = Inr (raw, r) \<and> xs = map unput (chunks_exact n raw)"
  then obtain raw where raw: "length raw = k * n" "bs = raw @ r" "xs = map unput (chunks_exact n raw)"
    by (auto simp: take_bytes_Inr)
  from concat_chunks_exact [OF \<open>0 < n\<close> raw(1)]
  have c: "length (chunks_exact n raw) = k" "concat (chunks_exact n raw) = raw"
    "\<And>c. c \<in> set (chunks_exact n raw) \<Longrightarrow> length c = n" by auto
  have "map put xs = chunks_exact n raw"
    using c(3) put_unput by (simp add: raw(3) map_idI)
  then show "length xs = k \<and> bs = concat (map put xs) @ r"
    using c raw by simp
next
  assume *: "length xs = k \<and> bs = concat (map put xs) @ r"
  have "length (concat (map put xs)) = length xs * n"
    using put by (induction xs) auto
  moreover have "map unput (chunks_exact n (concat (map put xs))) = xs"
  proof -
    have "chunks_exact n (concat (map put xs)) = map put xs"
      by (rule chunks_exact_concat [OF \<open>0 < n\<close>]) (auto simp: put)
    then show ?thesis by (simp add: unput_put map_idI)
  qed
  ultimately show "\<exists>raw. take_bytes (k * n) bs = Inr (raw, r) \<and> xs = map unput (chunks_exact n raw)"
    using * by (auto simp: take_bytes_Inr intro!: exI [of _ "concat (map put xs)"])
qed

lemmas chunk_table_read = table_read [of be32 4 from_be32, simplified be_from_be length_be from_be_be, simplified]
lemmas hash_table_read = table_read [of be_hash 32 from_be_hash, simplified be_from_be length_be from_be_be, simplified]

lemma read_describe_iff:
  "read_describe i bs = Inr (m, r) \<longleftrightarrow>
     (\<exists>cs. m = Describe i cs \<and> MIN_CHUNK_SIZE \<le> cs \<and> cs \<le> MAX_CHUNK_SIZE \<and> bs = be32 cs @ r)"
  by (auto simp: read_describe_def result_simps codec_iff count_Inr MAX_FILE_def)

lemma read_description_iff:
  "read_description sha (Inr ()) i bs = Inr (m, r) \<longleftrightarrow>
     (\<exists>d. m = Description i d \<and> desc_typed sha d
        \<and> bs = be64 (d_size d) @ be32 (d_chunk_size d) @ be_hash (d_hash d) @ r)"
proof
  assume "read_description sha (Inr ()) i bs = Inr (m, r)"
  then show "\<exists>d. m = Description i d \<and> desc_typed sha d
        \<and> bs = be64 (d_size d) @ be32 (d_chunk_size d) @ be_hash (d_hash d) @ r"
    by (auto simp: read_description_def result_simps codec_iff count_Inr header_Inr desc_typed_def)
next
  assume "\<exists>d. m = Description i d \<and> desc_typed sha d
        \<and> bs = be64 (d_size d) @ be32 (d_chunk_size d) @ be_hash (d_hash d) @ r"
  then obtain d where d: "m = Description i d" "desc_typed sha d"
    "bs = be64 (d_size d) @ be32 (d_chunk_size d) @ be_hash (d_hash d) @ r" by blast
  have "header sha (Inr ()) (d_size d) (d_chunk_size d) (d_hash d) = Inr d"
    using d(2) by (simp add: header_Inr desc_typed_def)
  moreover have "count (d_size d) (d_chunk_size d) = Inr (n_chunks d)"
    using d(2) by (simp add: count_Inr desc_typed_def desc_ok_def n_chunks_def)
  ultimately show "read_description sha (Inr ()) i bs = Inr (m, r)"
    using d by (simp add: read_description_def u64_codec.get_put u32_codec.get_put hash_codec.get_put
        desc_typed_def desc_ok_def not_less)
qed

lemma read_missing_iff:
  "read_missing i bs = Inr (m, r) \<longleftrightarrow>
     (\<exists>start n cs. m = Missing i start n cs \<and> missing_ok cs start (unat n)
        \<and> bs = be32 start @ be32 n @ be32 (word_of_nat (length cs)) @ concat (map be32 cs) @ r)"
proof
  assume "read_missing i bs = Inr (m, r)"
  then obtain start n k raw r' where *: "range_ok start (unat n)" "unat k \<le> unat n"
      "take_bytes (unat k * 4) r' = Inr (raw, r)"
      "missing_ok (map from_be32 (chunks_exact 4 raw)) start (unat n)"
      "m = Missing i start n (map from_be32 (chunks_exact 4 raw))"
      "bs = be32 start @ be32 n @ be32 k @ r'"
    by (auto simp: read_missing_def result_simps codec_iff validate_missing_Inr not_less Let_def)
  moreover from *(3) chunk_table_read [of "unat k" r' r "map from_be32 (chunks_exact 4 raw)"]
  have "length (map from_be32 (chunks_exact 4 raw)) = unat k
     \<and> r' = concat (map be32 (map from_be32 (chunks_exact 4 raw))) @ r" by blast
  ultimately show "\<exists>start n cs. m = Missing i start n cs \<and> missing_ok cs start (unat n)
        \<and> bs = be32 start @ be32 n @ be32 (word_of_nat (length cs)) @ concat (map be32 cs) @ r"
    by (metis of_nat_unat ucast_id)
next
  assume "\<exists>start n cs. m = Missing i start n cs \<and> missing_ok cs start (unat n)
        \<and> bs = be32 start @ be32 n @ be32 (word_of_nat (length cs)) @ concat (map be32 cs) @ r"
  then obtain start n cs where *: "m = Missing i start n cs" "missing_ok cs start (unat n)"
    "bs = be32 start @ be32 n @ be32 (word_of_nat (length cs)) @ concat (map be32 cs) @ r" by blast
  then have rng: "range_ok start (unat n)" by (simp add: missing_ok_def)
  have len: "length cs \<le> unat n"
    using *(2) sorted_range_length by (auto simp: missing_ok_def)
  then have k: "unat (word_of_nat (length cs) :: u32) = length cs"
    using rng by (simp add: unat_of_nat range_ok_def)
  from chunk_table_read [of "length cs" "concat (map be32 cs) @ r" r cs] obtain raw
    where raw: "take_bytes (length cs * 4) (concat (map be32 cs) @ r) = Inr (raw, r)"
      "cs = map from_be32 (chunks_exact 4 raw)" by blast
  show "read_missing i bs = Inr (m, r)"
    unfolding *(3) read_missing_def u32_codec.get_put [OF TrueI] bindR.simps prod.case
    using rng len raw(1) *(1) validate_missing_Inr [THEN iffD2, OF *(2)]
    by (simp add: k raw(2) [symmetric] page_range_Inr [THEN iffD2] not_less)
qed

lemma read_hashes_get_iff:
  "read_hashes_get i bs = Inr (m, r) \<longleftrightarrow>
     (\<exists>start. m = HashesGet i start \<and> range_ok start 1 \<and> bs = be32 start @ r)"
  by (auto simp: read_hashes_get_def result_simps codec_iff)

lemma read_hashes_iff:
  "read_hashes i bs = Inr (m, r) \<longleftrightarrow>
     (\<exists>start hs. m = Hashes i start hs \<and> range_ok start (length hs)
        \<and> bs = be32 start @ be32 (word_of_nat (length hs)) @ concat (map be_hash hs) @ r)"
proof
  assume "read_hashes i bs = Inr (m, r)"
  then obtain start k raw r' where *: "range_ok start (unat k)"
      "take_bytes (unat k * 32) r' = Inr (raw, r)"
      "m = Hashes i start (map from_be_hash (chunks_exact 32 raw))"
      "bs = be32 start @ be32 k @ r'"
    by (auto simp: read_hashes_def result_simps codec_iff)
  moreover from *(2) hash_table_read [of "unat k" r' r "map from_be_hash (chunks_exact 32 raw)"]
  have "length (map from_be_hash (chunks_exact 32 raw)) = unat k
     \<and> r' = concat (map be_hash (map from_be_hash (chunks_exact 32 raw))) @ r" by blast
  ultimately show "\<exists>start hs. m = Hashes i start hs \<and> range_ok start (length hs)
        \<and> bs = be32 start @ be32 (word_of_nat (length hs)) @ concat (map be_hash hs) @ r"
    by (metis of_nat_unat ucast_id)
next
  assume "\<exists>start hs. m = Hashes i start hs \<and> range_ok start (length hs)
        \<and> bs = be32 start @ be32 (word_of_nat (length hs)) @ concat (map be_hash hs) @ r"
  then obtain start hs where *: "m = Hashes i start hs" "range_ok start (length hs)"
    "bs = be32 start @ be32 (word_of_nat (length hs)) @ concat (map be_hash hs) @ r" by blast
  then have k: "unat (word_of_nat (length hs) :: u32) = length hs"
    by (simp add: unat_of_nat range_ok_def)
  from hash_table_read [of "length hs" "concat (map be_hash hs) @ r" r hs] obtain raw
    where raw: "take_bytes (length hs * 32) (concat (map be_hash hs) @ r) = Inr (raw, r)"
      "hs = map from_be_hash (chunks_exact 32 raw)" by blast
  show "read_hashes i bs = Inr (m, r)"
    unfolding *(3) read_hashes_def u32_codec.get_put [OF TrueI] bindR.simps prod.case
    using raw(1) *(1,2)
    by (simp add: k raw(2) [symmetric] page_range_Inr [THEN iffD2])
qed

lemma read_chunk_command_iff:
  "read_chunk_command tag i bs = Inr (m, r) \<longleftrightarrow>
     (\<exists>c. (tag = 13 \<and> m = ChunkBegin i c \<and> bs = be32 c @ r)
        \<or> (tag = 14 \<and> (\<exists>h. m = ChunkCommit i c h \<and> bs = be32 c @ be_hash h @ r))
        \<or> (tag = 15 \<and> m = ChunkGet i c \<and> bs = be32 c @ r)
        \<or> (tag \<noteq> 13 \<and> tag \<noteq> 14 \<and> tag \<noteq> 15 \<and> m = ChunkVerified i c \<and> bs = be32 c @ r))"
  by (auto simp: read_chunk_command_def result_simps codec_iff)

lemmas read_command_iff = read_describe_iff read_description_iff read_missing_iff
  read_hashes_get_iff read_hashes_iff read_chunk_command_iff

lemma command_tag:
  fixes tag :: byte
  shows "10 \<le> tag \<and> tag \<le> 20 \<longleftrightarrow> tag \<in> {10, 11, 12, 13, 14, 15, 16, 17, 18, 19, 20}"
proof
  assume "10 \<le> tag \<and> tag \<le> 20"
  then have "unat tag \<in> {10, 11, 12, 13, 14, 15, 16, 17, 18, 19, 20}"
    unfolding word_le_nat_alt insert_iff by simp presburger
  then have "word_of_nat (unat tag) \<in> (word_of_nat ` {10, 11, 12, 13, 14, 15, 16, 17, 18, 19, 20} :: byte set)"
    by (rule imageI)
  then show "tag \<in> {10, 11, 12, 13, 14, 15, 16, 17, 18, 19, 20}" by simp
qed auto

fun is_common :: "message2 \<Rightarrow> bool" where
  "is_common (Common _) = True"
| "is_common _ = False"

fun index_of :: "message2 \<Rightarrow> u32" where
  "index_of (Common _) = 0"
| "index_of (Describe i _) = i"
| "index_of (Description i _) = i"
| "index_of (HashesGet i _) = i"
| "index_of (Hashes i _ _) = i"
| "index_of (Missing i _ _ _) = i"
| "index_of (ChunkBegin i _) = i"
| "index_of (ChunkCommit i _ _) = i"
| "index_of (ChunkGet i _) = i"
| "index_of (ChunkVerified i _) = i"
| "index_of (FileCommit i) = i"
| "index_of (FileVerified i) = i"

lemma read_body2_Inr:
  assumes "read_body2 sha (Inr ()) tag i bs = Inr (m, r)" "index_ok i"
    "tag \<in> {10, 11, 12, 13, 14, 15, 16, 17, 18, 19, 20}"
  shows "message_ok2 sha m \<and> \<not> is_common m \<and> tag # be32 i @ bs = body_bytes2 m @ r"
  using assms
  by (auto simp: read_body2_def read_command_iff split: if_splits)

lemma read_body2_bytes:
  assumes "message_ok2 sha m" "\<not> is_common m" "tag # be32 i @ bs = body_bytes2 m @ r"
  shows "read_body2 sha (Inr ()) tag i bs = Inr (m, r) \<and> index_ok i
    \<and> tag \<in> {10, 11, 12, 13, 14, 15, 16, 17, 18, 19, 20}"
  using assms
  by (cases m) (auto simp: read_body2_def read_command_iff)

lemma common_tag_legacy: "common_tag (hd (body_bytes m)) \<longleftrightarrow> \<not> legacy m"
  by (cases m) (auto simp: common_tag_def)

lemma decode_common:
  "decode (VERSION1 # bs) = Inr m \<longleftrightarrow>
     message_ok m \<and> bs = body_bytes m \<and> Suc (length bs) \<le> MAX_CONTROL"
  by (auto simp: decode_iff message_bytes_def)

lemma decode2_Inr:
  assumes "decode2 sha (Inr ()) bs = Inr m"
  shows "message_ok2 sha m \<and> bs = message_bytes2 m \<and> length bs \<le> MAX_CONTROL"
proof -
  from assms have len: "length bs \<le> MAX_CONTROL" by (simp add: decode2_def result_simps not_less)
  from assms obtain tag rest where bs: "bs = VERSION2 # tag # rest"
    by (auto simp: decode2_def result_simps codec_iff)
  show ?thesis
  proof (cases "common_tag tag")
    case True
    with assms bs obtain c where c: "decode (VERSION1 # tag # rest) = Inr c" "m = Common c"
      by (auto simp: decode2_def result_simps read_u8_def take_bytes_def)
    then have body: "message_ok c" "tag # rest = body_bytes c" by (simp_all add: decode_common)
    then have "hd (body_bytes c) = tag" by (metis list.sel(1))
    with body c len bs True show ?thesis
      using common_tag_legacy [of c] by (simp add: message_bytes2_def)
  next
    case False
    with assms bs obtain i r where "10 \<le> tag \<and> tag \<le> 20" "rest = be32 i @ r" "index_ok i"
      "read_body2 sha (Inr ()) tag i r = Inr (m, [])"
      by (auto simp: decode2_def result_simps codec_iff)
    with read_body2_Inr [of sha tag i r m "[]"]
    have "message_ok2 sha m" "bs = message_bytes2 m"
      by (simp_all add: bs command_tag message_bytes2_def)
    with len show ?thesis by simp
  qed
qed

lemma body_bytes2_head:
  "\<not> is_common m \<Longrightarrow> \<exists>tag rest. body_bytes2 m = tag # be32 (index_of m) @ rest \<and> \<not> common_tag tag"
  by (cases m) (auto simp: common_tag_def)

theorem decode2_iff:
  "decode2 sha (Inr ()) bs = Inr m \<longleftrightarrow>
     message_ok2 sha m \<and> bs = message_bytes2 m \<and> length bs \<le> MAX_CONTROL"
proof
  assume *: "message_ok2 sha m \<and> bs = message_bytes2 m \<and> length bs \<le> MAX_CONTROL"
  show "decode2 sha (Inr ()) bs = Inr m"
  proof (cases "is_common m")
    case True
    then obtain c where m: "m = Common c" by (cases m) auto
    with * have c: "message_ok c" "common_tag (hd (body_bytes c))" "bs = VERSION2 # body_bytes c"
      by (simp_all add: message_bytes2_def common_tag_legacy)
    then obtain tag rest where b: "body_bytes c = tag # rest"
      by (cases "body_bytes c") auto
    have "decode (VERSION1 # tag # rest) = Inr c"
      using * c b by (simp add: decode_common)
    moreover have bs: "bs = VERSION2 # tag # rest" "Suc (Suc (length rest)) \<le> MAX_CONTROL" "common_tag tag"
      using * c b by simp_all
    ultimately show ?thesis
      unfolding bs(1) m using bs(2,3) by (simp add: decode2_def read_u8_def take_bytes_def not_less)
  next
    case False
    then obtain tag r where b: "body_bytes2 m = tag # be32 (index_of m) @ r" "\<not> common_tag tag"
      using body_bytes2_head by blast
    from read_body2_bytes [of sha m tag "index_of m" r "[]"] * False b
    have "read_body2 sha (Inr ()) tag (index_of m) r = Inr (m, [])" "index_ok (index_of m)"
      "10 \<le> tag \<and> tag \<le> 20" by (simp_all add: command_tag)
    moreover have bs: "bs = VERSION2 # tag # be32 (index_of m) @ r" "6 + length r \<le> MAX_CONTROL"
      using * b by (auto simp: message_bytes2_def)
    ultimately show ?thesis
      unfolding bs(1) using bs(2) b(2)
      by (simp add: decode2_def read_u8_def take_bytes_def not_less u32_codec.get_put
          file_index_Inr [THEN iffD2])
  qed
qed (rule decode2_Inr)

section \<open>Encoding\<close>

fun encodable2 :: "message2 \<Rightarrow> bool" where
  "encodable2 (Common m) \<longleftrightarrow> encodable m \<and> \<not> legacy m"
| "encodable2 (Description i d) \<longleftrightarrow> index_ok i \<and> d_size d \<le> MAX_FILE"
| "encodable2 (Describe i cs) \<longleftrightarrow> index_ok i \<and> MIN_CHUNK_SIZE \<le> cs \<and> cs \<le> MAX_CHUNK_SIZE"
| "encodable2 (HashesGet i start) \<longleftrightarrow> index_ok i \<and> range_ok start 1"
| "encodable2 (Hashes i start hs) \<longleftrightarrow> index_ok i \<and> range_ok start (length hs)"
| "encodable2 (Missing i start n cs) \<longleftrightarrow> index_ok i \<and> missing_ok cs start (unat n)"
| "encodable2 m \<longleftrightarrow> index_ok (index_of m)"

lemma message_ok2_encodable: "message_ok2 sha m \<Longrightarrow> encodable2 m"
  by (cases m) (auto simp: message_ok_encodable desc_typed_def desc_ok_def)

lemma encode_body2_iff:
  "\<not> is_common m \<Longrightarrow> encode_body2 m [VERSION2] = Inr w \<longleftrightarrow> encodable2 m \<and> w = message_bytes2 m"
  by (cases m)
    (auto simp: result_simps write_u8_def write_u32_def message_bytes2_def validate_missing_Inr
      count_Inr not_less MAX_FILE_def)

text \<open>A command is small: at most a page of hashes.\<close>

lemma length_concat_const: "(\<And>x. length (put x) = n) \<Longrightarrow> length (concat (map put xs)) = length xs * n"
  by (induction xs) auto

lemma command_bytes_bound:
  "\<not> is_common m \<Longrightarrow> encodable2 m \<Longrightarrow> length (message_bytes2 m) \<le> 4110"
proof (cases m)
  case (Missing i start n cs)
  assume "encodable2 m"
  with Missing have "missing_ok cs start (unat n)" by simp
  then have "length cs \<le> 128"
    using sorted_range_length [of cs "unat start" "unat n"] by (auto simp: missing_ok_def range_ok_def)
  with Missing show ?thesis
    by (simp add: message_bytes2_def length_concat_const [of be32 4])
qed (auto simp: message_bytes2_def length_concat_const [of be_hash 32] range_ok_def)

theorem encode2_iff:
  "encode2 m = Inr bs \<longleftrightarrow> encodable2 m \<and> bs = message_bytes2 m \<and> length bs \<le> MAX_CONTROL"
proof (cases "is_common m")
  case True
  then obtain c where m: "m = Common c" by (cases m) auto
  have "common_tag (message_bytes c ! 1) \<longleftrightarrow> \<not> legacy c" "(message_bytes c)[0 := VERSION2] = VERSION2 # body_bytes c"
    using common_tag_legacy [of c] by (simp_all add: message_bytes_def hd_conv_nth)
  then show ?thesis
    by (auto simp: m encode2_def result_simps encode_iff message_bytes2_def message_bytes_def)
next
  case False
  then have "encode2 m = bindR (encode_body2 m [VERSION2]) (\<lambda>w.
            if MAX_CONTROL < length w then Inl (invalid ''control message limit'') else Inr w)"
    by (cases m) (auto simp: encode2_def)
  then show ?thesis
    using False by (auto simp: result_simps encode_body2_iff not_less)
qed

section \<open>Properties\<close>

text \<open>C30: The version 2 codec is exact: a payload decodes to a message just when the message meets the
  limits of the wire specification (common messages as in version 1, but no whole-file command; file
  indices below 16384; pages of 1 to 128 chunks at multiples of 128; missing chunks strictly increasing
  inside their page; descriptions of bounded geometry) and encodes to this payload.\<close>

theorem codec2_exact: "decode2 sha (Inr ()) bs = Inr m \<longleftrightarrow> message_ok2 sha m \<and> encode2 m = Inr bs"
  using message_ok2_encodable [of sha m] by (auto simp: decode2_iff encode2_iff)

text \<open>The bytes of a version 2 message follow the wire specification, and a chunk command is never
  longer than a page of hashes (4110 bytes).\<close>

theorem encode2_layout:
  "(encode2 m = Inr bs \<longleftrightarrow> encodable2 m \<and> bs = message_bytes2 m \<and> length bs \<le> MAX_CONTROL)
   \<and> (encode2 m = Inr bs \<and> \<not> is_common m \<longrightarrow> length bs \<le> 4110)"
  using command_bytes_bound [of m] by (auto simp: encode2_iff)

lemma encode2_layout_witness:
  "encode2 (ChunkGet 1 2) = Inr [2, 15, 0, 0, 0, 1, 0, 0, 0, 2] \<and> length [2, 15, 0, 0, 0, 1, 0, 0, 0, 2 :: byte] \<le> 4110"
proof -
  have "message_bytes2 (ChunkGet 1 2) = [2, 15, 0, 0, 0, 1, 0, 0, 0, 2]"
    by (simp add: message_bytes2_def VERSION2_def be32_def be_nat_numeral)
  then show ?thesis
    using encode2_layout [of "ChunkGet 1 2" "[2, 15, 0, 0, 0, 1, 0, 0, 0, 2]"]
    by (simp add: index_ok_def MAX_CONTROL_def)
qed

end
