(* ===== verification/Engine2.thy ===== *)
theory Engine2
  imports Engine1 Chunk_Store Codec2
begin

text \<open>
  The server of protocol version 2 (\<open>src/engine/v2.rs\<close>). It wraps the server of version 1, which owns the
  session, and adds the authenticated peer, the path of the export, and the transfer of one file in
  chunks. A transfer's description shares its table of hashes with the store it was cloned into, so the
  table is a field of the transfer and is passed to the store's operations.

  A store is dropped with its transfer, and dropping it records its activity; the operations that end a
  transfer therefore act on the world. As in version 1 a failing handler disconnects its connection, so
  \<open>handle_inner2\<close> returns the new server only on success: nothing that a failing handler has changed
  survives, and the store it drops is the one of the transfer as it was, because the handlers that
  set the time of the store do so last.
\<close>

section \<open>State\<close>

record cache =
  ca_directory :: str
  ca_root_id :: str
  ca_limits :: "limits option"

datatype reply2 = Reply2 message2 | Reply_file2 message2 fd

datatype payload = Upload store "nat fset" | Download fd "nat fset"

record transfer =
  t_index :: nat
  t_description :: description
  t_table :: "byte list"
  t_payload :: payload
  t_pending :: "nat option"
  t_received :: "received_file option"
  t_next_page :: nat
  t_page_start :: nat

record server2 =
  b_base :: server
  b_cache :: cache
  b_peer :: "ident option"
  b_path :: str
  b_transfer :: "transfer option"

definition cache_open ::
  "'w os \<Rightarrow> (byte list \<Rightarrow> hash) \<Rightarrow> (byte list \<Rightarrow> str) \<Rightarrow> cache \<Rightarrow> ident \<Rightarrow> bool \<Rightarrow> str \<Rightarrow> entry \<Rightarrow> description
     \<Rightarrow> ('w, store) io" where
  "cache_open os sha hex ca peer push pre e d =
     (let path = (if pre = [] then e_path e else pre @ slash # e_path e) in
      bindI (liftI (scope sha peer push (ca_root_id ca) path)) (\<lambda>sc.
        case ca_limits ca of
          Some lim \<Rightarrow>
            bindI (sysI (os_create_dirs os (ca_directory ca))) (\<lambda>_.
              open_limited os sha hex (ca_directory ca) sc d lim)
        | None \<Rightarrow> store_open os sha hex (ca_directory ca) sc d))"

definition invalidI :: "string \<Rightarrow> ('w, 'a) io" where
  "invalidI t = failI (invalid t)"

definition validate_description :: "entry \<Rightarrow> description \<Rightarrow> unit res" where
  "validate_description e d =
     (if e_size e \<noteq> d_size d \<or> (case e_hash e of None \<Rightarrow> False | Some h \<Rightarrow> h \<noteq> d_hash d)
      then Inl (HashMismatch (e_path e)) else Inr ())"

definition chunk_file :: "'w os \<Rightarrow> fd \<Rightarrow> description \<Rightarrow> nat \<Rightarrow> ('w, fd) io" where
  "chunk_file os source d chunk =
     bindI (pureI (chunk_length d chunk)) (\<lambda>sz.
     bindI (sysI (os_seek os source (word_of_nat chunk * ucast (d_chunk_size d)))) (\<lambda>_.
     bindI (sysI (os_tempfile os)) (\<lambda>file.
     bindI (copy_limited os source file (unat sz) 0) (\<lambda>n.
       if n \<noteq> unat sz then invalidI ''short chunk snapshot''
       else bindI (sysI (os_rewind os file)) (\<lambda>_. returnI file)))))"

section \<open>Events of the connection\<close>

definition new_server2 :: "root \<Rightarrow> cache \<Rightarrow> server2" where
  "new_server2 r ca = \<lparr>b_base = new_server r, b_cache = ca, b_peer = None, b_path = [], b_transfer = None\<rparr>"

definition active2 :: "server2 \<Rightarrow> bool" where
  "active2 v \<longleftrightarrow> v_session (b_base v) \<noteq> None"

text \<open>Dropping a transfer drops the store of an upload.\<close>

definition drop_transfer :: "'w os \<Rightarrow> (byte list \<Rightarrow> hash) \<Rightarrow> transfer option \<Rightarrow> 'w \<Rightarrow> 'w" where
  "drop_transfer os sha t w =
     (case t of
        None \<Rightarrow> w
      | Some t \<Rightarrow> (case t_payload t of Upload s _ \<Rightarrow> store_drop os sha s w | Download _ _ \<Rightarrow> w))"

definition disconnect2 :: "'w os \<Rightarrow> (byte list \<Rightarrow> hash) \<Rightarrow> ident \<Rightarrow> server2 \<Rightarrow> 'w \<Rightarrow> server2 \<times> 'w" where
  "disconnect2 os sha c v w =
     (if (case v_session (b_base v) of None \<Rightarrow> False | Some s \<Rightarrow> s_connection s = c)
      then (v\<lparr>b_transfer := None, b_peer := None, b_path := [], b_base := disconnect c (b_base v)\<rparr>,
            drop_transfer os sha (b_transfer v) w)
      else (v, w))"

definition touch2 :: "ident \<Rightarrow> nat \<Rightarrow> server2 \<Rightarrow> server2" where
  "touch2 c now v = v\<lparr>b_base := touch c now (b_base v)\<rparr>"

definition expire2 ::
  "'w os \<Rightarrow> (byte list \<Rightarrow> hash) \<Rightarrow> nat \<Rightarrow> nat \<Rightarrow> server2 \<Rightarrow> 'w \<Rightarrow> (ident option \<times> server2) \<times> 'w" where
  "expire2 os sha now timeout v w =
     (let (expired, base) = expire now timeout (b_base v) in
      if expired \<noteq> None
      then ((expired, v\<lparr>b_base := base, b_transfer := None, b_peer := None, b_path := []\<rparr>),
            drop_transfer os sha (b_transfer v) w)
      else ((expired, v\<lparr>b_base := base\<rparr>), w))"

definition accepts_file2 :: "server2 \<Rightarrow> ident \<Rightarrow> u64 \<Rightarrow> bool \<Rightarrow> bool outcome" where
  "accepts_file2 v c sz has_metadata =
     (case v_session (b_base v) of
        None \<Rightarrow> Inr False
      | Some s \<Rightarrow>
          if s_connection s = c \<and> s_push s \<and> \<not> dry_run (s_options s) \<and> \<not> has_metadata then
            (case b_transfer v of
               None \<Rightarrow> Inr False
             | Some t \<Rightarrow>
                 if t_received t \<noteq> None then Inr False
                 else (case t_pending t of
                         None \<Rightarrow> Inr False
                       | Some i \<Rightarrow> (case chunk_length (t_description t) i of
                             Inr len \<Rightarrow> Inr (len = sz)
                           | Inl (Fails _) \<Rightarrow> Inr False
                           | Inl f \<Rightarrow> Inl f)))
          else Inr False)"

definition receive2 :: "ident \<Rightarrow> received_file \<Rightarrow> server2 \<Rightarrow> server2 outcome" where
  "receive2 c f v =
     bindR (accepts_file2 v c (rf_size f) (rf_metadata f)) (\<lambda>accepted.
       if accepted then
         (case b_transfer v of
            Some t \<Rightarrow> Inr (v\<lparr>b_transfer := Some (t\<lparr>t_received := Some f\<rparr>)\<rparr>)
          | None \<Rightarrow> Inl Panics)
       else Inr v)"

section \<open>Commands\<close>

text \<open>Each returns its reply, the session and the transfer after it.\<close>

type_synonym result2 = "reply2 \<times> session \<times> transfer option"

abbreviation ok2 :: reply2 where
  "ok2 \<equiv> Reply2 (Common Ok)"

definition transfer_of :: "transfer option \<Rightarrow> u32 \<Rightarrow> ('w, transfer) io" where
  "transfer_of state index =
     (case state of
        None \<Rightarrow> invalidI ''unexpected file index''
      | Some t \<Rightarrow> if t_index t = unat index then returnI t else invalidI ''unexpected file index'')"

definition start_transfer :: "nat \<Rightarrow> description \<Rightarrow> byte list \<Rightarrow> payload \<Rightarrow> transfer" where
  "start_transfer i d table p =
     \<lparr>t_index = i, t_description = d, t_table = table, t_payload = p, t_pending = None, t_received = None,
      t_next_page = 0, t_page_start = 0\<rparr>"

definition description_command ::
  "'w os \<Rightarrow> (byte list \<Rightarrow> hash) \<Rightarrow> (byte list \<Rightarrow> str) \<Rightarrow> server2 \<Rightarrow> ident \<Rightarrow> session \<Rightarrow> u32 \<Rightarrow> description
     \<Rightarrow> ('w, result2) io" where
  "description_command os sha hex v peer s index d =
     (let i = unat index in
      bindI (require_file s i True) (\<lambda>_.
        if b_transfer v \<noteq> None then invalidI ''file already pending''
        else bindI (indexI (s_source s) i) (\<lambda>e.
             bindI (liftI (validate_description e d)) (\<lambda>_.
             bindI (cache_open os sha hex (b_cache v) peer True (b_path v) e d) (\<lambda>st.
               returnI (ok2, s\<lparr>s_pending := Some i\<rparr>, Some (start_transfer i d [] (Upload st {||}))))))))"

definition describe_command ::
  "'w os \<Rightarrow> (byte list \<Rightarrow> hash) \<Rightarrow> server2 \<Rightarrow> session \<Rightarrow> u32 \<Rightarrow> u32 \<Rightarrow> ('w, result2) io" where
  "describe_command os sha v s index csize =
     (let i = unat index in
      bindI (require_file s i False) (\<lambda>_.
        if b_transfer v \<noteq> None then invalidI ''file already pending''
        else bindI (indexI (s_source s) i) (\<lambda>e.
             bindI (liftI (count (e_size e) csize)) (\<lambda>_.
             bindI (presentI (bt_get (sc_stamps (s_scan s)) (e_path e))) (\<lambda>st.
             bindI (snapshot os (s_root s) (e_path e) st) (\<lambda>file.
             bindI (scan_file os sha file csize) (\<lambda>(d, table).
             bindI (liftI (validate_description e d)) (\<lambda>_.
               returnI (Reply2 (Description index d), s\<lparr>s_pending := Some i\<rparr>,
                 Some (start_transfer i d table (Download file {||})))))))))))"

definition hashes_command ::
  "'w os \<Rightarrow> (byte list \<Rightarrow> hash) \<Rightarrow> server2 \<Rightarrow> session \<Rightarrow> u32 \<Rightarrow> u32 \<Rightarrow> hash list \<Rightarrow> ('w, result2) io" where
  "hashes_command os sha v s index start hashes =
     bindI (transfer_of (b_transfer v) index) (\<lambda>t.
       case t_payload t of
         Download _ _ \<Rightarrow> invalidI ''not an upload''
       | Upload st missing \<Rightarrow>
           if t_pending t \<noteq> None \<or> missing \<noteq> {||} \<or> unat start \<noteq> t_next_page t
           then invalidI ''unexpected hash page''
           else bindI (pureI (set_page (t_description t) (unat start) hashes (t_table t))) (\<lambda>table.
                bindI (store_missing os sha st table (unat start)) (\<lambda>list.
                  let missing = fset_of_list list in
                  returnI (Reply2 (Missing index start (word_of_nat (length hashes))
                             (map word_of_nat (sorted_list_of_fset missing))), s,
                    Some (t\<lparr>t_table := table, t_payload := Upload st missing, t_page_start := unat start,
                            t_next_page := t_next_page t + length hashes\<rparr>)))))"

definition hashes_get_command :: "server2 \<Rightarrow> session \<Rightarrow> u32 \<Rightarrow> u32 \<Rightarrow> ('w, result2) io" where
  "hashes_get_command v s index start =
     bindI (transfer_of (b_transfer v) index) (\<lambda>t.
       case t_payload t of
         Upload _ _ \<Rightarrow> invalidI ''not a download''
       | Download f _ \<Rightarrow>
           if t_pending t \<noteq> None \<or> unat start \<noteq> t_next_page t
           then invalidI ''unexpected hash page request''
           else bindI (pureI (page (t_description t) (t_table t) (unat start))) (\<lambda>hashes.
                  returnI (Reply2 (Hashes index start hashes), s,
                    Some (t\<lparr>t_payload := Download f {||}, t_page_start := unat start,
                            t_next_page := t_next_page t + length hashes\<rparr>))))"

definition chunk_begin_command :: "server2 \<Rightarrow> session \<Rightarrow> u32 \<Rightarrow> u32 \<Rightarrow> ('w, result2) io" where
  "chunk_begin_command v s index chunk =
     bindI (transfer_of (b_transfer v) index) (\<lambda>t.
       case t_payload t of
         Download _ _ \<Rightarrow> invalidI ''not an upload''
       | Upload _ missing \<Rightarrow>
           if t_pending t \<noteq> None \<or> unat chunk |\<notin>| missing then invalidI ''chunk not pending''
           else returnI (ok2, s, Some (t\<lparr>t_pending := Some (unat chunk)\<rparr>)))"

definition chunk_commit_command ::
  "'w os \<Rightarrow> (byte list \<Rightarrow> hash) \<Rightarrow> server2 \<Rightarrow> session \<Rightarrow> u32 \<Rightarrow> u32 \<Rightarrow> hash \<Rightarrow> ('w, result2) io" where
  "chunk_commit_command os sha v s index chunk resource =
     bindI (transfer_of (b_transfer v) index) (\<lambda>t.
       case t_payload t of
         Download _ _ \<Rightarrow> invalidI ''not an upload''
       | Upload st missing \<Rightarrow>
           if t_pending t \<noteq> Some (unat chunk) then invalidI ''unexpected chunk commit''
           else case t_received t of
             None \<Rightarrow> invalidI ''chunk Resource not received''
           | Some f \<Rightarrow>
               bindI (if rf_transfer f \<noteq> resource \<or> rf_metadata f then returnI True
                      else bindI (pureI (chunk_length (t_description t) (unat chunk))) (\<lambda>len.
                             returnI (rf_size f \<noteq> len))) (\<lambda>bad.
                 if bad then invalidI ''unexpected chunk Resource''
                 else bindI (store_receive os sha st (t_table t) (unat chunk) (File_reader (rf_file f))) (\<lambda>st.
                        returnI (ok2, s, Some (t\<lparr>t_received := None, t_pending := None,
                          t_payload := Upload st (missing |-| {|unat chunk|})\<rparr>)))))"

definition chunk_get_command :: "'w os \<Rightarrow> server2 \<Rightarrow> session \<Rightarrow> u32 \<Rightarrow> u32 \<Rightarrow> ('w, result2) io" where
  "chunk_get_command os v s index chunk =
     bindI (transfer_of (b_transfer v) index) (\<lambda>t.
       case t_payload t of
         Upload _ _ \<Rightarrow> invalidI ''not a download''
       | Download f served \<Rightarrow>
           if t_pending t \<noteq> None \<or> unat chunk |\<in>| served \<or> unat chunk < t_page_start t
              \<or> t_next_page t \<le> unat chunk
           then invalidI ''chunk already requested''
           else bindI (chunk_file os f (t_description t) (unat chunk)) (\<lambda>part.
                  returnI (Reply_file2 (Common Ok) part, s, Some (t\<lparr>t_pending := Some (unat chunk)\<rparr>))))"

definition chunk_verified_command :: "server2 \<Rightarrow> session \<Rightarrow> u32 \<Rightarrow> u32 \<Rightarrow> ('w, result2) io" where
  "chunk_verified_command v s index chunk =
     bindI (transfer_of (b_transfer v) index) (\<lambda>t.
       case t_payload t of
         Upload _ _ \<Rightarrow> invalidI ''not a download''
       | Download f served \<Rightarrow>
           if t_pending t \<noteq> Some (unat chunk) then invalidI ''unexpected chunk verification''
           else returnI (ok2, s, Some (t\<lparr>t_payload := Download f (finsert (unat chunk) served), t_pending := None\<rparr>)))"

text \<open>\<open>clear_committed\<close> only warns about an error; the store then keeps its time.\<close>

definition clear_committed :: "'w os \<Rightarrow> (byte list \<Rightarrow> hash) \<Rightarrow> store \<Rightarrow> ('w, store) io" where
  "clear_committed os sha st =
     bindI (resultI (store_clear os sha st)) (\<lambda>x. returnI (case x of Inl _ \<Rightarrow> st | Inr st' \<Rightarrow> st'))"

definition dropI :: "'w os \<Rightarrow> (byte list \<Rightarrow> hash) \<Rightarrow> store \<Rightarrow> ('w, unit) io" where
  "dropI os sha st w = (Inr (), store_drop os sha st w)"

definition file_commit_command ::
  "'w os \<Rightarrow> (byte list \<Rightarrow> hash) \<Rightarrow> server2 \<Rightarrow> session \<Rightarrow> u32 \<Rightarrow> ('w, result2) io" where
  "file_commit_command os sha v s index =
     bindI (transfer_of (b_transfer v) index) (\<lambda>t.
       case t_payload t of
         Download _ _ \<Rightarrow> invalidI ''not an upload''
       | Upload st missing \<Rightarrow>
           bindI (if t_pending t \<noteq> None \<or> missing \<noteq> {||} then returnI True
                  else bindI (pureI (chunks (t_description t))) (\<lambda>n. returnI (t_next_page t \<noteq> n))) (\<lambda>unfinished.
             if unfinished then invalidI ''unfinished chunks''
             else bindI (store_assemble os sha st (t_table t)) (\<lambda>file.
                  bindI (if s_prepared s then returnI ()
                         else prepare os (s_root s) (s_source s) (s_plan s)) (\<lambda>_.
                  bindI (indexI (s_source s) (t_index t)) (\<lambda>e.
                  bindI (install os sha (s_root s) (e\<lparr>e_hash := Some (d_hash (t_description t))\<rparr>)
                           (s_destination s) (s_plan s) file) (\<lambda>_.
                  bindI (clear_committed os sha st) (\<lambda>st.
                  bindI (dropI os sha st) (\<lambda>_.
                    returnI (ok2, s\<lparr>s_prepared := True, s_done := finsert (t_index t) (s_done s), s_pending := None\<rparr>,
                      None)))))))))"

definition file_verified_command ::
  "'w os \<Rightarrow> server2 \<Rightarrow> session \<Rightarrow> u32 \<Rightarrow> ('w, result2) io" where
  "file_verified_command os v s index =
     bindI (transfer_of (b_transfer v) index) (\<lambda>t.
     bindI (if (case t_payload t of Upload _ _ \<Rightarrow> True | Download _ _ \<Rightarrow> False) \<or> t_pending t \<noteq> None then returnI True
            else bindI (pureI (chunks (t_description t))) (\<lambda>n. returnI (t_next_page t \<noteq> n))) (\<lambda>bad.
       if bad then invalidI ''unexpected file verification''
       else bindI (indexI (s_source s) (t_index t)) (\<lambda>e.
            bindI (presentI (bt_get (sc_stamps (s_scan s)) (e_path e))) (\<lambda>st.
            bindI (ensure_unchanged os (s_root s) (e_path e) st) (\<lambda>_.
              returnI (ok2, s\<lparr>s_done := finsert (t_index t) (s_done s), s_pending := None\<rparr>, None))))))"

section \<open>Requests\<close>

definition finish2 ::
  "'w os \<Rightarrow> (byte list \<Rightarrow> hash) \<Rightarrow> ident \<Rightarrow> permission \<Rightarrow> server2 \<Rightarrow> session \<Rightarrow> ('w, reply2 \<times> server2) io" where
  "finish2 os sha c perm v s =
     (if b_transfer v \<noteq> None then invalidI ''unfinished file transfer''
      else bindI (handle_inner os sha c perm Finish ((b_base v)\<lparr>v_session := Some s\<rparr>)) (\<lambda>(_, base).
             returnI (ok2, v\<lparr>b_base := base, b_peer := None, b_path := []\<rparr>)))"

definition transfer_command ::
  "'w os \<Rightarrow> (byte list \<Rightarrow> hash) \<Rightarrow> (byte list \<Rightarrow> str) \<Rightarrow> ident \<Rightarrow> message2 \<Rightarrow> server2 \<Rightarrow> session \<Rightarrow> ('w, result2) io" where
  "transfer_command os sha hex peer m v s =
     (case m of
        Description i d \<Rightarrow> description_command os sha hex v peer s i d
      | Describe i cs \<Rightarrow> describe_command os sha v s i cs
      | Hashes i start hs \<Rightarrow> hashes_command os sha v s i start hs
      | HashesGet i start \<Rightarrow> hashes_get_command v s i start
      | ChunkBegin i chunk \<Rightarrow> chunk_begin_command v s i chunk
      | ChunkCommit i chunk resource \<Rightarrow> chunk_commit_command os sha v s i chunk resource
      | ChunkGet i chunk \<Rightarrow> chunk_get_command os v s i chunk
      | ChunkVerified i chunk \<Rightarrow> chunk_verified_command v s i chunk
      | FileCommit i \<Rightarrow> file_commit_command os sha v s i
      | FileVerified i \<Rightarrow> file_verified_command os v s i
      | _ \<Rightarrow> invalidI ''unexpected v2 request'')"

definition command2 ::
  "'w os \<Rightarrow> (byte list \<Rightarrow> hash) \<Rightarrow> (byte list \<Rightarrow> str) \<Rightarrow> ident \<Rightarrow> ident \<Rightarrow> permission \<Rightarrow> message2 \<Rightarrow> server2 \<Rightarrow> session
     \<Rightarrow> ('w, reply2 \<times> server2) io" where
  "command2 os sha hex c peer perm m v s =
     (if m = Common Finish then finish2 os sha c perm v s
      else bindI (transfer_command os sha hex peer m v s) (\<lambda>(rep, s, t).
        returnI (rep, v\<lparr>b_base := (b_base v)\<lparr>v_session := Some s\<rparr>, b_transfer := t\<rparr>)))"

definition handle_command2 ::
  "'w os \<Rightarrow> (byte list \<Rightarrow> hash) \<Rightarrow> (byte list \<Rightarrow> str) \<Rightarrow> ident \<Rightarrow> ident \<Rightarrow> permission \<Rightarrow> message2 \<Rightarrow> server2
     \<Rightarrow> ('w, reply2 \<times> server2) io" where
  "handle_command2 os sha hex c peer perm m v =
     (case v_session (b_base v) of
        None \<Rightarrow> invalidI ''no active session''
      | Some s \<Rightarrow>
          if s_connection s \<noteq> c then invalidI ''no active session''
          else if b_peer v \<noteq> Some peer \<or> (s_push s \<and> perm \<noteq> Full) then failI PermissionDenied
          else bindI (nowI os) (\<lambda>now.
            let s = s\<lparr>s_activity := now\<rparr> in
            if dry_run (s_options s) \<and> m \<noteq> Common Finish then invalidI ''mutating command in dry-run''
            else command2 os sha hex c peer perm m v s))"

text \<open>The server of version 1 answers START with a message, never with a file.\<close>

definition handle_inner2 ::
  "'w os \<Rightarrow> (byte list \<Rightarrow> hash) \<Rightarrow> (byte list \<Rightarrow> str) \<Rightarrow> ident \<Rightarrow> ident \<Rightarrow> permission \<Rightarrow> message2 \<Rightarrow> server2
     \<Rightarrow> ('w, reply2 \<times> server2) io" where
  "handle_inner2 os sha hex c peer perm m v =
     (if perm = Deny then failI PermissionDenied
      else case m of
        Common (Start push opt path man) \<Rightarrow>
          bindI (handle_inner os sha c perm (Start push opt path man) (b_base v)) (\<lambda>(rep, base).
            case rep of
              Reply r \<Rightarrow> returnI (Reply2 (Common r), v\<lparr>b_base := base, b_peer := Some peer, b_path := path\<rparr>)
            | Reply_file _ _ \<Rightarrow> panicI)
      | _ \<Rightarrow> handle_command2 os sha hex c peer perm m v)"

definition handle2 ::
  "'w os \<Rightarrow> (byte list \<Rightarrow> hash) \<Rightarrow> (byte list \<Rightarrow> str) \<Rightarrow> ident \<Rightarrow> ident \<Rightarrow> permission \<Rightarrow> message2 \<Rightarrow> server2 \<Rightarrow> 'w
     \<Rightarrow> (reply2 outcome \<times> server2) \<times> 'w" where
  "handle2 os sha hex c peer perm m v w =
     (case handle_inner2 os sha hex c peer perm m v w of
        (Inr (rep, v'), w') \<Rightarrow> ((Inr rep, v'), w')
      | (Inl e, w') \<Rightarrow> (case disconnect2 os sha c v w' of (v', w2) \<Rightarrow> ((Inl e, v'), w2)))"

end
