(* ===== verification/Fs_Model.thy ===== *)
theory Fs_Model
  imports Sync_Ops
begin

text \<open>
  What the operations of \<open>Root_Ops\<close> and \<open>Sync_Ops\<close> do to a file system. \<open>obeys\<close> states, for the system
  calls, the documented effect of each on a view of the world: the tree of names below the root's
  descriptor, and which path each descriptor was opened at. Over it every operation that changes the
  tree is refined to the step of \<open>carry_out\<close> (\<open>Planning\<close>) it implements.
\<close>

section \<open>The view and the effect of the system calls\<close>

text \<open>
  \<open>fs_handle\<close>: the path an open descriptor refers to; \<open>fs_temp\<close>: the path of a temporary file that
  is open for writing. Descriptors stay open in this view, so a new one differs from all earlier ones.
\<close>

record fs_view =
  fs_tree :: "str \<Rightarrow> node option"
  fs_handle :: "fd \<Rightarrow> str option"
  fs_temp :: "fd \<Rightarrow> str option"

definition extends :: "fs_view \<Rightarrow> fs_view \<Rightarrow> bool" where
  "extends v v' \<longleftrightarrow>
     fs_tree v' = fs_tree v \<and> fs_handle v \<subseteq>\<^sub>m fs_handle v' \<and> fs_temp v \<subseteq>\<^sub>m fs_temp v'"

definition name_ok :: "str \<Rightarrow> bool" where
  "name_ok n \<longleftrightarrow> \<not> bad_component n \<and> slash \<notin> set n \<and> 0 \<notin> set n"

definition is_dir :: "fs_view \<Rightarrow> str \<Rightarrow> bool" where
  "is_dir v p \<longleftrightarrow> p = [] \<or> fs_tree v p = Some Directory_node"

definition keep_handles :: "fs_view \<Rightarrow> fs_view \<Rightarrow> str set \<Rightarrow> bool" where
  "keep_handles v v' ps \<longleftrightarrow>
     (\<forall>g q. fs_handle v g = Some q \<and> (\<forall>p \<in> ps. \<not> below q p) \<longrightarrow> fs_handle v' g = Some q)
     \<and> (\<forall>g q. fs_temp v g = Some q \<and> (\<forall>p \<in> ps. \<not> below q p) \<longrightarrow> fs_temp v' g = Some q)"

text \<open>Opening below the root, calls that only read, and the calls that change the tree.\<close>

definition obeys_open :: "'w os \<Rightarrow> fd \<Rightarrow> ('w \<Rightarrow> fs_view) \<Rightarrow> bool" where
  "obeys_open os rf view \<longleftrightarrow>
     (\<forall>p m w w' e. safe_name p \<and> m \<noteq> Open_lock
          \<and> os_openat2 os rf (if p = [] then dot else p) m w = (Inl e, w') \<longrightarrow>
        extends (view w) (view w'))
     \<and> (\<forall>p m w w' d. safe_name p \<and> m \<noteq> Open_lock
          \<and> os_openat2 os rf (if p = [] then dot else p) m w = (Inr d, w') \<longrightarrow>
        fs_handle (view w) d = None \<and> fs_temp (view w) d = None
        \<and> view w' = (view w)\<lparr>fs_handle := (fs_handle (view w))(d \<mapsto> p)\<rparr>
        \<and> (m = Open_dir \<longrightarrow> is_dir (view w) p))"

definition obeys_reads :: "'w os \<Rightarrow> ('w \<Rightarrow> fs_view) \<Rightarrow> bool" where
  "obeys_reads os view \<longleftrightarrow>
     (\<forall>d n w. extends (view w) (view (snd (os_openat os d n w))))
     \<and> (\<forall>f w. extends (view w) (view (snd (os_metadata os f w))))
     \<and> (\<forall>f w. extends (view w) (view (snd (os_read_dir os f w))))
     \<and> (\<forall>f w. extends (view w) (view (snd (os_sync os f w))))
     \<and> (\<forall>f n w. extends (view w) (view (snd (os_read os f n w))))
     \<and> (\<forall>f w. extends (view w) (view (snd (os_rewind os f w))))
     \<and> (\<forall>w. extends (view w) (view (snd (os_now os w))))"

definition obeys_mkdir :: "'w os \<Rightarrow> ('w \<Rightarrow> fs_view) \<Rightarrow> bool" where
  "obeys_mkdir os view \<longleftrightarrow>
     (\<forall>d p n w x w'. fs_handle (view w) d = Some p \<and> name_ok n \<and> os_mkdirat os d n w = (x, w') \<longrightarrow>
        (if isl x then extends (view w) (view w')
         else view w' = (view w)\<lparr>fs_tree := (fs_tree (view w))(child_path p n \<mapsto> Directory_node)\<rparr>))"

definition obeys_unlink :: "'w os \<Rightarrow> ('w \<Rightarrow> fs_view) \<Rightarrow> bool" where
  "obeys_unlink os view \<longleftrightarrow>
     (\<forall>d p n dir w x w'. fs_handle (view w) d = Some p \<and> name_ok n \<and> os_unlinkat os d n dir w = (x, w') \<longrightarrow>
        (if isl x then extends (view w) (view w')
         else fs_tree (view w') = (fs_tree (view w))(child_path p n := None)
              \<and> keep_handles (view w) (view w') {child_path p n}))"

definition obeys_rename :: "'w os \<Rightarrow> ('w \<Rightarrow> fs_view) \<Rightarrow> bool" where
  "obeys_rename os view \<longleftrightarrow>
     (\<forall>d p a b sz sec ns w u w'. fs_handle (view w) d = Some p \<and> name_ok a \<and> name_ok b \<and> a \<noteq> b
          \<and> fs_tree (view w) (child_path p a) = Some (File_node sz sec ns)
          \<and> os_renameat os d a d b w = (Inr u, w') \<longrightarrow>
        fs_tree (view w') = (fs_tree (view w))(child_path p a := None, child_path p b \<mapsto> File_node sz sec ns)
        \<and> keep_handles (view w) (view w') {child_path p a, child_path p b})"

definition obeys_tempfile :: "'w os \<Rightarrow> ('w \<Rightarrow> fs_view) \<Rightarrow> bool" where
  "obeys_tempfile os view \<longleftrightarrow>
     (\<forall>d p w f n w'. fs_handle (view w) d = Some p \<and> os_tempfile_in os d reserved_prefix w = (Inr (f, n), w') \<longrightarrow>
        starts_with reserved_prefix n \<and> name_ok n \<and> fs_tree (view w) (child_path p n) = None
        \<and> (\<exists>sec ns. view w' = (view w)\<lparr>
             fs_tree := (fs_tree (view w))(child_path p n \<mapsto> File_node 0 sec ns),
             fs_temp := (fs_temp (view w))(f \<mapsto> child_path p n)\<rparr>))"

definition obeys_write :: "'w os \<Rightarrow> ('w \<Rightarrow> fs_view) \<Rightarrow> bool" where
  "obeys_write os view \<longleftrightarrow>
     (\<forall>f q b sz sec ns w u w'.
        fs_temp (view w) f = Some q \<and> fs_tree (view w) q = Some (File_node sz sec ns)
        \<and> os_write os f b w = (Inr u, w') \<longrightarrow>
        (\<exists>sec ns. view w' = (view w)\<lparr>
           fs_tree := (fs_tree (view w))(q \<mapsto> File_node (sz + word_of_nat (length b)) sec ns)\<rparr>))"

definition obeys_times :: "'w os \<Rightarrow> ('w \<Rightarrow> fs_view) \<Rightarrow> bool" where
  "obeys_times os view \<longleftrightarrow>
     (\<forall>f q sz s0 n0 sec ns w u w'.
        fs_temp (view w) f = Some q \<and> fs_tree (view w) q = Some (File_node sz s0 n0)
        \<and> os_futimens os f sec ns w = (Inr u, w') \<longrightarrow>
        view w' = (view w)\<lparr>fs_tree := (fs_tree (view w))(q \<mapsto> File_node sz sec ns)\<rparr>)
     \<and> (\<forall>f q sec ns w. fs_handle (view w) f = Some q \<and> is_dir (view w) q \<longrightarrow>
        extends (view w) (view (snd (os_futimens os f sec ns w))))"

definition obeys :: "'w os \<Rightarrow> fd \<Rightarrow> ('w \<Rightarrow> fs_view) \<Rightarrow> bool" where
  "obeys os rf view \<longleftrightarrow>
     obeys_open os rf view \<and> obeys_reads os view \<and> obeys_mkdir os view \<and> obeys_unlink os view
     \<and> obeys_rename os view \<and> obeys_tempfile os view \<and> obeys_write os view \<and> obeys_times os view"

lemma obeysD:
  assumes "obeys os rf view"
  shows "obeys_open os rf view" "obeys_reads os view" "obeys_mkdir os view" "obeys_unlink os view"
    "obeys_rename os view" "obeys_tempfile os view" "obeys_write os view" "obeys_times os view"
  using assms by (simp_all add: obeys_def)

lemma extends_refl [simp]: "extends v v"
  by (simp add: extends_def)

lemma extends_trans [trans]: "extends u v \<Longrightarrow> extends v w \<Longrightarrow> extends u w"
  unfolding extends_def by (metis map_le_trans)

lemma extends_tree: "extends v v' \<Longrightarrow> fs_tree v' = fs_tree v"
  by (simp add: extends_def)

lemma extends_handle: "extends v v' \<Longrightarrow> fs_handle v d = Some p \<Longrightarrow> fs_handle v' d = Some p"
  by (auto simp: extends_def map_le_def dom_def)

lemma extends_temp: "extends v v' \<Longrightarrow> fs_temp v d = Some p \<Longrightarrow> fs_temp v' d = Some p"
  by (auto simp: extends_def map_le_def dom_def)

lemma extends_open:
  "fs_handle v d = None \<Longrightarrow> extends v (v\<lparr>fs_handle := (fs_handle v)(d \<mapsto> p)\<rparr>)"
  by (auto simp: extends_def map_le_def)

lemma keep_handlesD:
  "keep_handles v v' ps \<Longrightarrow> fs_handle v g = Some q \<Longrightarrow> (\<And>p. p \<in> ps \<Longrightarrow> \<not> below q p) \<Longrightarrow> fs_handle v' g = Some q"
  "keep_handles v v' ps \<Longrightarrow> fs_temp v g = Some q \<Longrightarrow> (\<And>p. p \<in> ps \<Longrightarrow> \<not> below q p) \<Longrightarrow> fs_temp v' g = Some q"
  by (simp_all add: keep_handles_def)

lemma keep_handles_extends: "extends v v' \<Longrightarrow> keep_handles v v' ps"
  by (simp add: keep_handles_def extends_handle extends_temp)

lemma keep_handles_trans:
  "keep_handles u v ps \<Longrightarrow> keep_handles v w ps \<Longrightarrow> keep_handles u w ps"
  by (simp add: keep_handles_def)

lemma keep_handles_mono: "keep_handles v v' ps \<Longrightarrow> ps \<subseteq> qs \<Longrightarrow> keep_handles v v' qs"
  unfolding keep_handles_def by blast

section \<open>Operations that only read\<close>

abbreviation grows :: "('w \<Rightarrow> fs_view) \<Rightarrow> ('w, 'a) io \<Rightarrow> bool" where
  "grows view \<equiv> steps (\<lambda>w w'. extends (view w) (view w'))"

lemma growsD:
  assumes "grows view m" "m w = (x, w')"
  shows "extends (view w) (view w')"
proof -
  have "reflp (\<lambda>w w'. extends (view w) (view w'))" by (simp add: reflp_def)
  moreover have "transp (\<lambda>w w'. extends (view w) (view w'))" by (auto intro: transpI extends_trans)
  ultimately show ?thesis using stepsD [OF assms] by blast
qed

lemma grows_sys: "(\<And>w. extends (view w) (view (snd (c w)))) \<Longrightarrow> grows view (sysI c)"
  unfolding steps_def sysI_def
  by (auto split: prod.split sum.split intro!: r_into_rtranclp) (metis snd_conv)+

lemma grows_reads [steps_rules]:
  assumes "obeys os rf view"
  shows "grows view (sysI (os_openat os d n))" "grows view (sysI (os_metadata os f))"
    "grows view (sysI (os_read_dir os f))" "grows view (sysI (os_sync os f))"
    "grows view (sysI (os_read os f k))" "grows view (sysI (os_rewind os f))" "grows view (nowI os)"
proof -
  have r: "obeys_reads os view" using assms by (simp add: obeys_def)
  show "grows view (sysI (os_openat os d n))" "grows view (sysI (os_metadata os f))"
    "grows view (sysI (os_read_dir os f))" "grows view (sysI (os_sync os f))"
    "grows view (sysI (os_read os f k))" "grows view (sysI (os_rewind os f))"
    using r by (auto intro!: grows_sys simp: obeys_reads_def)
  have "snd (nowI os w) = snd (os_now os w)" for w by (simp add: nowI_def split: prod.split)
  then show "grows view (nowI os)"
    using r unfolding steps_def obeys_reads_def by (auto intro!: r_into_rtranclp)
qed

lemma open_view:
  assumes "obeys os (root_fd r) view" "safe_name p" "m \<noteq> Open_lock" "open_full os r p m w = (Inr d, w')"
  shows "extends (view w) (view w')" "fs_handle (view w') d = Some p" "m = Open_dir \<longrightarrow> is_dir (view w) p"
proof -
  have l: "obeys_open os (root_fd r) view" using assms(1) by (simp add: obeys_def)
  have "os_openat2 os (root_fd r) (if p = [] then dot else p) m w = (Inr d, w')"
    using assms(4) by (simp add: open_full_def sysI_Inr)
  then have new: "fs_handle (view w) d = None"
    "view w' = (view w)\<lparr>fs_handle := (fs_handle (view w))(d \<mapsto> p)\<rparr>"
    "m = Open_dir \<longrightarrow> is_dir (view w) p"
    using l [unfolded obeys_open_def, THEN conjunct2, rule_format, of p m w d w'] assms(2,3) by simp_all
  from extends_open [OF new(1)] new(2) show "extends (view w) (view w')" by simp
  from new(2) show "fs_handle (view w') d = Some p" by simp
  show "m = Open_dir \<longrightarrow> is_dir (view w) p" by (rule new(3))
qed

lemma grows_open [steps_rules]:
  assumes o: "obeys os (root_fd r) view" and p: "safe_name p" "m \<noteq> Open_lock"
  shows "grows view (open_full os r p m)"
  unfolding steps_def
proof (intro allI r_into_rtranclp)
  fix w
  obtain x w' where run: "open_full os r p m w = (x, w')" by fastforce
  have l: "obeys_open os (root_fd r) view" using o by (simp add: obeys_def)
  show "extends (view w) (view (snd (open_full os r p m w)))"
  proof (cases x)
    case (Inr d)
    with open_view(1) [OF o p, of w d w'] run show ?thesis by simp
  next
    case (Inl e)
    then obtain k where "os_openat2 os (root_fd r) (if p = [] then dot else p) m w = (Inl k, w')"
      using run by (auto simp: open_full_def sysI_def split: prod.splits sum.splits)
    then have "extends (view w) (view w')"
      using l [unfolded obeys_open_def, THEN conjunct1, rule_format, of p m w k w'] p by simp
    with run show ?thesis by simp
  qed
qed

lemma steps_bind_lift [steps_rules]:
  "(\<And>x. r = Inr x \<Longrightarrow> steps R (f x)) \<Longrightarrow> steps R (bindI (liftI r) f)"
  by (cases r) (auto intro: steps_rules)

lemma grows_root_reads [steps_rules]:
  assumes o: "obeys os (root_fd r) view" and s: "safe_name (root_prefix r)"
  shows "grows view (metadata os r p)" "grows view (exists_path os r p)" "grows view (check_entry os r e)"
    "grows view (ensure_unchanged os r p st)"
proof -
  show m: "grows view (metadata os r p)" for p
    unfolding metadata_def by (auto intro!: steps_rules o dest: full_safe [OF s])
  show "grows view (exists_path os r p)" "grows view (check_entry os r e)"
    "grows view (ensure_unchanged os r p st)"
    by (auto simp: exists_path_def check_entry_def ensure_unchanged_def intro!: steps_rules m)
qed

section \<open>Names below the root\<close>

lemma child_path_safe: "safe_name p \<Longrightarrow> name_ok n \<Longrightarrow> safe_name (child_path p n)"
  by (auto simp: child_path_def safe_name_def name_ok_def split_on_append_sep split_on_free)

lemma child_path_ne: "n \<noteq> [] \<Longrightarrow> child_path p n \<noteq> []"
  by (simp add: child_path_def)

lemma name_ok_ne [simp]: "\<not> name_ok []"
  by (simp add: name_ok_def bad_component_def)

lemma below_child [simp]: "q \<noteq> [] \<Longrightarrow> a \<noteq> [] \<Longrightarrow> below (child_path p q) (child_path p a) \<longleftrightarrow> below q a"
  by (simp add: child_path_def below_components split_on_append_sep)

lemma child_path_inj [simp]: "child_path p q = child_path p a \<longleftrightarrow> q = a"
  by (simp add: child_path_def)

lemma not_below_parent: "n \<noteq> [] \<Longrightarrow> \<not> below p (child_path p n)"
proof -
  assume n: "n \<noteq> []"
  have "\<not> prefix (components (child_path p n)) (components p)" if "p \<noteq> []"
    using prefix_length_le [of "components (child_path p n)" "components p"] components_child [OF that, of n]
    by auto
  moreover have "\<not> below [] n" using n by (auto simp: below_iff)
  ultimately show ?thesis
    by (cases "p = []") (auto simp: below_components child_path_def)
qed

text \<open>The part of the tree an operation on the root \<open>r\<close> sees.\<close>

definition rel :: "root \<Rightarrow> fs_view \<Rightarrow> str \<Rightarrow> node option" where
  "rel r v q = (if q = [] then None else fs_tree v (child_path (root_prefix r) q))"

lemma rel_update:
  assumes "fs_tree v' = (fs_tree v)(child_path (root_prefix r) q := x)" "q \<noteq> []"
  shows "rel r v' = (rel r v)(q := x)"
  using assms by (auto simp: rel_def fun_eq_iff)

lemma extends_rel: "extends v v' \<Longrightarrow> rel r v' = rel r v"
  by (auto simp: rel_def extends_tree fun_eq_iff)

lemma full_at: "full r q = Inr p \<Longrightarrow> q \<noteq> [] \<Longrightarrow> p = child_path (root_prefix r) q"
  by (auto dest!: full_Inr simp: child_path_def)

lemma split_name:
  assumes p: "safe_name p" "p \<noteq> []"
    and split: "(dir, name) = (case rsplit_once slash p of Some x \<Rightarrow> x | None \<Rightarrow> ([], p))"
  shows "child_path dir name = p" "safe_name dir" "name_ok name"
proof -
  have ok: "\<And>c. c \<in> set (components p) \<Longrightarrow> \<not> bad_component c" and z: "0 \<notin> set p"
    using p by (auto simp: safe_name_def)
  have "child_path dir name = p \<and> safe_name dir \<and> name_ok name"
  proof (cases "rsplit_once slash p")
    case None
    then have "slash \<notin> set p" by (simp add: rsplit_once_None)
    then show ?thesis
      using None split ok z by (simp add: split_on_free child_path_def safe_name_def name_ok_def)
  next
    case (Some x)
    then have x: "rsplit_once slash p = Some (dir, name)" using split by (cases x) simp
    then have eq: "p = dir @ slash # name" and free: "slash \<notin> set name"
      by (simp_all add: rsplit_once_Some)
    have comps: "components p = components dir @ [name]"
      using free by (simp add: eq split_on_append_sep split_on_free)
    have "dir \<noteq> []" using ok [of "[]"] comps by (auto simp: bad_component_def)
    then show ?thesis
      using ok z free comps eq by (auto simp: child_path_def safe_name_def name_ok_def)
  qed
  then show "child_path dir name = p" "safe_name dir" "name_ok name" by simp_all
qed

section \<open>Operations that change names\<close>

lemma parent_view:
  assumes o: "obeys os (root_fd r) view" and s: "safe_name (root_prefix r)"
    and run: "parent os r q w = (Inr (d, name), w')"
  obtains dir where "child_path dir name = child_path (root_prefix r) q" "name_ok name" "q \<noteq> []"
    "extends (view w) (view w')" "fs_handle (view w') d = Some dir" "is_dir (view w) dir"
proof -
  from run obtain p where p: "validate q = Inr ()" "full r q = Inr p"
    and rest: "(case (case rsplit_once slash p of Some x \<Rightarrow> x | None \<Rightarrow> ([], p)) of
      (dir, name) \<Rightarrow> bindI (open_full os r dir Open_dir) (\<lambda>d. returnI (d, name))) w = (Inr (d, name), w')"
    by (auto simp: parent_def bindI_Inr Let_def)
  obtain dir nm where sp: "(dir, nm) = (case rsplit_once slash p of Some x \<Rightarrow> x | None \<Rightarrow> ([], p))"
    by (metis surj_pair)
  with rest have op: "open_full os r dir Open_dir w = (Inr d, w')" and nm: "nm = name"
    unfolding sp [symmetric] by (auto simp: bindI_Inr)
  have q: "q \<noteq> []" using p(1) by (auto simp: validate_def)
  have pq: "p = child_path (root_prefix r) q" by (rule full_at [OF p(2) q])
  have "safe_name p" by (rule full_safe [OF s p(2)])
  moreover have "p \<noteq> []" using pq q by (simp add: child_path_ne)
  ultimately have n: "child_path dir name = p" "safe_name dir" "name_ok name"
    using split_name sp unfolding nm by blast+
  from open_view [OF o n(2) _ op] show ?thesis
    using that n(1,3) pq q by simp
qed

lemma unlink_view:
  assumes "obeys os rf view" "fs_handle (view w) d = Some p" "name_ok n" "os_unlinkat os d n dir w = (x, w')"
  shows "if isl x then extends (view w) (view w')
    else fs_tree (view w') = (fs_tree (view w))(child_path p n := None)
         \<and> keep_handles (view w) (view w') {child_path p n}"
  using obeysD(4) [OF assms(1), unfolded obeys_unlink_def, rule_format, of w d p n dir x w'] assms(2,3,4)
  by simp

lemma remove_view:
  assumes o: "obeys os (root_fd r) view" and s: "safe_name (root_prefix r)"
    and run: "remove os r q dir w = (Inr (), w')"
  shows "q \<noteq> []" "fs_tree (view w') = (fs_tree (view w))(child_path (root_prefix r) q := None)"
    "keep_handles (view w) (view w') {child_path (root_prefix r) q}"
proof -
  from run obtain d name w1 w2 where p: "parent os r q w = (Inr (d, name), w1)"
    and u: "os_unlinkat os d name dir w1 = (Inr (), w2)" and y: "sysI (os_sync os d) w2 = (Inr (), w')"
    by (auto simp: remove_def io_simps split: prod.splits)
  from parent_view [OF o s p] obtain dr where dr: "child_path dr name = child_path (root_prefix r) q"
    "name_ok name" "q \<noteq> []" "extends (view w) (view w1)" "fs_handle (view w1) d = Some dr" by blast
  from unlink_view [OF o dr(5,2) u] have t: "fs_tree (view w2) = (fs_tree (view w1))(child_path dr name := None)"
    and h: "keep_handles (view w1) (view w2) {child_path dr name}" by simp_all
  have x: "extends (view w2) (view w')" by (rule growsD [OF grows_reads(4) [OF o] y])
  show "q \<noteq> []" by (rule dr(3))
  show "fs_tree (view w') = (fs_tree (view w))(child_path (root_prefix r) q := None)"
    using t extends_tree [OF x] extends_tree [OF dr(4)] by (simp add: dr(1))
  show "keep_handles (view w) (view w') {child_path (root_prefix r) q}"
    using keep_handles_trans [OF keep_handles_trans [OF keep_handles_extends [OF dr(4)] h] keep_handles_extends [OF x]]
    by (simp add: dr(1))
qed

text \<open>\<open>mkdir\<close> makes every directory on the way.\<close>

lemma mkdir_step_view:
  assumes o: "obeys os (root_fd r) view" and p: "safe_name p" "name_ok n"
    and run: "mkdir_step os r n p w = (Inr p', w')"
  shows "p' = child_path p n" "fs_tree (view w') = (fs_tree (view w))(child_path p n \<mapsto> Directory_node)"
proof -
  have join: "(if p \<noteq> [] then p @ [slash] else p) @ n = child_path p n" by (simp add: child_path_def)
  from run obtain d w1 x w2 w3 d' w4 u where d: "open_full os r p Open_dir w = (Inr d, w1)"
    and x: "resultI (sysI (os_mkdirat os d n)) w1 = (Inr x, w2)"
    and y: "(case x of Inr _ \<Rightarrow> sysI (os_sync os d) | Inl e \<Rightarrow> if e = Io AlreadyExists then returnI () else failI e) w2
        = (Inr u, w3)"
    and z0: "open_full os r (child_path p n) Open_dir w3 = (Inr d', w4)"
    and r4: "returnI (child_path p n) w4 = (Inr p', w')"
    unfolding mkdir_step_def Let_def join bindI_Inr by blast
  from r4 have p': "p' = child_path p n" and w4: "w4 = w'" by simp_all
  note z = z0 [unfolded w4]
  show "p' = child_path p n" by (rule p')
  note d = open_view [OF o p(1) _ d]
  have e1: "extends (view w) (view w1)" using d by simp
  obtain k where k: "os_mkdirat os d n w1 = (k, w2)" "isl k = isl x"
    using x by (auto simp: resultI_Inr sysI_def split: prod.splits sum.splits)
  have law: "if isl k then extends (view w1) (view w2)
         else view w2 = (view w1)\<lparr>fs_tree := (fs_tree (view w1))(child_path p n \<mapsto> Directory_node)\<rparr>"
    using obeysD(3) [OF o, unfolded obeys_mkdir_def, rule_format, of w1 d p n k w2] d(2) p(2) k(1) by simp
  have e3: "extends (view w2) (view w3)"
  proof (cases x)
    case (Inr u)
    with y show ?thesis by (auto intro: growsD [OF grows_reads(4) [OF o]])
  qed (use y in \<open>auto split: if_splits\<close>)
  note z = open_view [OF o child_path_safe [OF p] _ z]
  have e4: "extends (view w3) (view w')" using z by simp
  have dir: "fs_tree (view w3) (child_path p n) = Some Directory_node"
    using z(3) p(2) by (auto simp: is_dir_def child_path_def)
  show "fs_tree (view w') = (fs_tree (view w))(child_path p n \<mapsto> Directory_node)"
  proof (cases "isl k")
    case True
    then have "fs_tree (view w') = fs_tree (view w)" "fs_tree (view w3) = fs_tree (view w)"
      using law extends_tree [OF e1] extends_tree [OF e3] extends_tree [OF e4]
        extends_tree [of "view w1" "view w2"] by simp_all
    with dir show ?thesis by (simp add: fun_upd_idem)
  next
    case False
    then show ?thesis
      using law extends_tree [OF e1] extends_tree [OF e3] extends_tree [OF e4] by simp
  qed
qed

lemma join_snoc: "(\<And>y. y \<in> set ys \<Longrightarrow> y \<noteq> []) \<Longrightarrow> join_with slash (ys @ [n]) = child_path (join_with slash ys) n"
proof (induction ys)
  case (Cons y ys)
  then show ?case
    by (cases ys; cases "tl ys") (auto simp: child_path_def)
qed (simp add: child_path_def)

lemma below_child_path:
  assumes "name_ok n" "x \<noteq> []"
  shows "below (child_path s n) x \<longleftrightarrow> x = child_path s n \<or> below s x"
proof (cases "s = []")
  case True
  have "components n = [n]" using assms(1) by (simp add: name_ok_def split_on_free)
  moreover have "\<not> below [] x" using assms(2) by (auto simp: below_iff)
  ultimately show ?thesis
    using True split_on_inj [of slash x n]
    by (auto simp: child_path_def below_components prefix_Cons)
next
  case False
  have "components (child_path s n) = components s @ [n]"
    using assms(1) False by (simp add: child_path_def split_on_append_sep name_ok_def split_on_free)
  then show ?thesis
    using split_on_inj [of slash x "child_path s n"]
    by (auto simp: below_components)
qed

lemma mkdir_view:
  assumes o: "obeys os (root_fd r) view" and s: "safe_name (root_prefix r)"
    and run: "mkdir os r q w = (Inr (), w')"
  shows "\<exists>p. full r q = Inr p \<and>
    fs_tree (view w') = (\<lambda>x. if x \<noteq> [] \<and> below p x then Some Directory_node else fs_tree (view w) x)"
proof -
  from run obtain p t where p: "full r q = Inr p"
    and fold: "foldI (mkdir_step os r) (filter (\<lambda>s. s \<noteq> []) (components p)) [] w = (Inr t, w')"
    by (auto simp: mkdir_def bindI_Inr)
  have sp: "safe_name p" by (rule full_safe [OF s p])
  define names where "names = filter (\<lambda>s. s \<noteq> []) (components p)"
  have names: "names = (if p = [] then [] else components p)"
  proof (cases "p = []")
    case False
    then have "c \<noteq> []" if "c \<in> set (components p)" for c
      using sp that by (auto simp: safe_name_def bad_component_def)
    with False show ?thesis by (simp add: names_def)
  qed (simp add: names_def)
  have zero: "0 \<notin> set c" if "c \<in> set (components p)" for c
    using set_component [OF that] sp by (auto simp: safe_name_def)
  have ok: "name_ok c" if "c \<in> set names" for c
    using that sp zero [of c] split_on_components [of c slash p]
    by (auto simp: names safe_name_def name_ok_def split: if_splits)
  let ?P = "\<lambda>ys s w'. s = join_with slash ys \<and> safe_name s \<and>
    fs_tree (view w') = (\<lambda>x. if x \<noteq> [] \<and> below s x then Some Directory_node else fs_tree (view w) x)"
  have "?P names t w'"
  proof (rule foldI_world [OF fold [folded names_def], where P = ?P])
    show "?P [] [] w" by (auto simp: below_iff safe_name_def fun_eq_iff)
  next
    fix ys n zs u v w1 w2
    assume split: "names = ys @ n # zs" and P: "?P ys u w1" and st: "mkdir_step os r n u w1 = (Inr v, w2)"
    have n: "name_ok n" by (rule ok) (simp add: split)
    have ys: "y \<noteq> []" if "y \<in> set ys" for y using ok [of y] that by (auto simp: split name_ok_def bad_component_def)
    have ne: "n \<noteq> []" using n by auto
    from mkdir_step_view [OF o _ n st] P
    have v: "v = child_path u n" "fs_tree (view w2) = (fs_tree (view w1))(child_path u n \<mapsto> Directory_node)" by auto
    show "?P (ys @ [n]) v w2"
      using v P n child_path_safe [of u n] join_snoc [of ys n] ys child_path_ne [OF ne, of u]
      by (auto simp: fun_eq_iff below_child_path)
  qed
  moreover have "join_with slash names = p" by (simp add: names)
  ultimately show ?thesis using p by auto
qed

text \<open>Objects in the way of an entry are removed.\<close>

definition conflict_list :: "sync_plan \<Rightarrow> str \<Rightarrow> entry list" where
  "conflict_list p path = (case bt_get (conflicts p) path of None \<Rightarrow> [] | Some es \<Rightarrow> es)"

abbreviation place :: "root \<Rightarrow> str \<Rightarrow> str" where
  "place r \<equiv> child_path (root_prefix r)"

definition without :: "root \<Rightarrow> entry list \<Rightarrow> (str \<Rightarrow> node option) \<Rightarrow> str \<Rightarrow> node option" where
  "without r es t x = (if x \<in> (place r \<circ> e_path) ` set es then None else t x)"

lemma without_snoc: "without r (es @ [e]) t = (without r es t)(place r (e_path e) := None)"
  by (auto simp: without_def fun_eq_iff)

lemma each_removed_view:
  assumes o: "obeys os (root_fd r) view" and s: "safe_name (root_prefix r)"
    and run: "eachI f es w = (Inr (), w')"
    and f: "\<And>e w1 w2. e \<in> set es \<Longrightarrow> f e w1 = (Inr (), w2) \<Longrightarrow>
      \<exists>w3. extends (view w1) (view w3) \<and> remove_entry os r e w3 = (Inr (), w2)"
  shows "fs_tree (view w') = without r es (fs_tree (view w))
    \<and> keep_handles (view w) (view w') ((place r \<circ> e_path) ` set es) \<and> (\<forall>e \<in> set es. e_path e \<noteq> [])"
proof (rule eachI_world [OF run])
  show "fs_tree (view w) = without r [] (fs_tree (view w))
    \<and> keep_handles (view w) (view w) ((place r \<circ> e_path) ` set []) \<and> (\<forall>e \<in> set []. e_path e \<noteq> [])"
    by (simp add: without_def fun_eq_iff keep_handles_def)
next
  fix ys e zs w1 w2
  assume es: "es = ys @ e # zs" and st: "f e w1 = (Inr (), w2)"
    and P: "fs_tree (view w1) = without r ys (fs_tree (view w))
      \<and> keep_handles (view w) (view w1) ((place r \<circ> e_path) ` set ys) \<and> (\<forall>e \<in> set ys. e_path e \<noteq> [])"
  from f [OF _ st] es obtain w3 where w3: "extends (view w1) (view w3)" "remove_entry os r e w3 = (Inr (), w2)" by auto
  note rm = remove_view [OF o s w3(2) [unfolded remove_entry_def]]
  have "keep_handles (view w) (view w2) ((place r \<circ> e_path) ` set (ys @ [e]))"
    by (rule keep_handles_trans [OF keep_handles_mono [of _ _ "(place r \<circ> e_path) ` set ys"]
          keep_handles_trans [OF keep_handles_extends [OF w3(1)] keep_handles_mono [OF rm(3)]]])
      (use P in auto)
  then show "fs_tree (view w2) = without r (ys @ [e]) (fs_tree (view w))
      \<and> keep_handles (view w) (view w2) ((place r \<circ> e_path) ` set (ys @ [e]))
      \<and> (\<forall>x \<in> set (ys @ [e]). e_path x \<noteq> [])"
    using rm(1,2) P extends_tree [OF w3(1)] by (simp add: without_snoc)
qed

lemma clear_conflict_view:
  assumes o: "obeys os (root_fd r) view" and s: "safe_name (root_prefix r)"
    and run: "clear_conflict os r p path w = (Inr (), w')"
  shows "fs_tree (view w') = without r (conflict_list p path) (fs_tree (view w))
    \<and> keep_handles (view w) (view w') ((place r \<circ> e_path) ` set (conflict_list p path))
    \<and> (\<forall>e \<in> set (conflict_list p path). e_path e \<noteq> [])"
proof -
  have "eachI (\<lambda>old. bindI (check_entry os r old) (\<lambda>_. remove_entry os r old)) (conflict_list p path) w = (Inr (), w')"
    using run by (auto simp: clear_conflict_def conflict_list_def split: option.splits)
  then show ?thesis
  proof (rule each_removed_view [OF o s])
    fix e w1 w2
    assume "bindI (check_entry os r e) (\<lambda>_. remove_entry os r e) w1 = (Inr (), w2)"
    then obtain w3 where "check_entry os r e w1 = (Inr (), w3)" "remove_entry os r e w3 = (Inr (), w2)"
      by (auto simp: bindI_Inr)
    with growsD [OF grows_root_reads(3) [OF o s]]
    show "\<exists>w3. extends (view w1) (view w3) \<and> remove_entry os r e w3 = (Inr (), w2)" by blast
  qed
qed

lemma rel_without:
  assumes "fs_tree v' = without r es (fs_tree v)"
  shows "rel r v' = clear es (rel r v)"
  using assms by (auto simp: rel_def without_def clear_eq fun_eq_iff)

section \<open>Staging and installing\<close>

lemma stage_loop_view:
  assumes o: "obeys os (root_fd r) view"
  shows "stage_loop os f path lim hashing rd cnt dg w = (Inr (cnt', dg'), w') \<Longrightarrow>
    fs_temp (view w) f = Some q \<Longrightarrow> fs_tree (view w) q = Some (File_node (word_of_nat cnt) sec ns) \<Longrightarrow>
    \<exists>sec ns. fs_tree (view w') = (fs_tree (view w))(q \<mapsto> File_node (word_of_nat cnt') sec ns)
      \<and> keep_handles (view w) (view w') {}"
proof (induction "Suc lim - cnt" arbitrary: rd cnt dg w sec ns rule: less_induct)
  case less
  from less.prems(1) obtain b rd' w1 where b: "read_from os rd 65536 w = (Inr (b, rd'), w1)"
    and rest: "(if b = [] then returnI (cnt, dg)
       else if lim < cnt + length b then failI (Changed path)
       else bindI (sysI (os_write os f b)) (\<lambda>_.
              stage_loop os f path lim hashing rd' (cnt + length b) (if hashing then dg @ b else dg))) w1
      = (Inr (cnt', dg'), w')"
    by (subst (asm) stage_loop_unfold) (auto simp: bindI_Inr)
  have "grows view (read_from os rd 65536)"
    by (cases rd) (auto simp: read_from_def intro!: steps_rules o)
  from growsD [OF this b] have e1: "extends (view w) (view w1)" .
  have t1: "fs_temp (view w1) f = Some q" "fs_tree (view w1) q = Some (File_node (word_of_nat cnt) sec ns)"
    using less.prems(2,3) extends_temp [OF e1] extends_tree [OF e1] by auto
  show ?case
  proof (cases "b = []")
    case True
    with rest have "cnt' = cnt" "w' = w1" by simp_all
    then show ?thesis
      using less.prems(3) extends_tree [OF e1] keep_handles_extends [OF e1]
      by (auto intro!: exI [of _ sec] exI [of _ ns] simp: fun_upd_idem)
  next
    case False
    with rest obtain u w2 where small: "\<not> lim < cnt + length b"
      and wr: "os_write os f b w1 = (Inr u, w2)"
      and rec: "stage_loop os f path lim hashing rd' (cnt + length b) (if hashing then dg @ b else dg) w2
        = (Inr (cnt', dg'), w')"
      by (auto simp: bindI_Inr sysI_Inr split: if_splits)
    from obeysD(7) [OF o, unfolded obeys_write_def, rule_format, of w1 f q "word_of_nat cnt" sec ns b u w2] t1 wr
    obtain sec1 ns1 where v2: "view w2 = (view w1)\<lparr>
        fs_tree := (fs_tree (view w1))(q \<mapsto> File_node (word_of_nat cnt + word_of_nat (length b)) sec1 ns1)\<rparr>"
      by auto
    have "Suc lim - (cnt + length b) < Suc lim - cnt" using False small by (cases b) auto
    from less.hyps [OF this rec] v2 t1 obtain sec2 ns2 where
      v': "fs_tree (view w') = (fs_tree (view w2))(q \<mapsto> File_node (word_of_nat cnt') sec2 ns2)"
        "keep_handles (view w2) (view w') {}"
      by auto
    have "keep_handles (view w1) (view w2) {}" by (simp add: v2 keep_handles_def)
    from keep_handles_trans [OF keep_handles_trans [OF keep_handles_extends [OF e1] this] v'(2)]
    show ?thesis using v'(1) v2 extends_tree [OF e1] by auto
  qed
qed

lemma stage_view:
  assumes o: "obeys os (root_fd r) view" and s: "safe_name (root_prefix r)"
    and run: "stage os sha r q rd sz h sec ns w = (Inr sg, w')"
  obtains dir where "child_path dir (sg_name sg) = place r q" "name_ok (sg_name sg)" "q \<noteq> []"
    "fs_handle (view w') (sg_dir sg) = Some dir" "name_ok (sg_temp_name sg)"
    "starts_with reserved_prefix (sg_temp_name sg)"
    "fs_tree (view w) (child_path dir (sg_temp_name sg)) = None"
    "fs_tree (view w') = (fs_tree (view w))(child_path dir (sg_temp_name sg) \<mapsto> File_node sz sec ns)"
proof -
  from run obtain d name w1 f tn w2 where p: "parent os r q w = (Inr (d, name), w1)"
    and tmp: "os_tempfile_in os d reserved_prefix w1 = (Inr (f, tn), w2)"
    and body: "stage_body os sha q rd sz h (Some (sec, ns))
        \<lparr>sg_dir = d, sg_name = name, sg_temp_name = tn, sg_temp = f\<rparr> w2 = (Inr sg, w')"
    by (auto simp: stage_def stage_inner_def bindI_Inr sysI_Inr on_failI_Inr Let_def)
  from parent_view [OF o s p] obtain dir where dir: "child_path dir name = place r q" "name_ok name" "q \<noteq> []"
    "extends (view w) (view w1)" "fs_handle (view w1) d = Some dir" by blast
  from obeysD(6) [OF o, unfolded obeys_tempfile_def, rule_format, of w1 d dir f tn w2] dir(5) tmp
  obtain s0 n0 where t: "starts_with reserved_prefix tn" "name_ok tn" "fs_tree (view w1) (child_path dir tn) = None"
    "view w2 = (view w1)\<lparr>fs_tree := (fs_tree (view w1))(child_path dir tn \<mapsto> File_node 0 s0 n0),
       fs_temp := (fs_temp (view w1))(f \<mapsto> child_path dir tn)\<rparr>" by auto
  let ?q = "child_path dir tn"
  from body obtain cnt dg w3 w4 u w5 where loop: "stage_loop os f q (unat sz) (h \<noteq> None) rd 0 [] w2 = (Inr (cnt, dg), w3)"
    and cnt: "cnt = unat sz" and mt: "set_mtime os f sec ns w3 = (Inr u, w4)"
    and sy: "sysI (os_sync os f) w4 = (Inr (), w5)"
    and sg: "sg = \<lparr>sg_dir = d, sg_name = name, sg_temp_name = tn, sg_temp = f\<rparr>" "w' = w5"
    by (auto simp: stage_body_def bindI_Inr split: if_splits)
  have t2: "fs_temp (view w2) f = Some ?q" "fs_tree (view w2) ?q = Some (File_node (word_of_nat 0) s0 n0)"
    by (simp_all add: t(4))
  from stage_loop_view [OF o loop t2] obtain s1 n1 where
    v3: "fs_tree (view w3) = (fs_tree (view w2))(?q \<mapsto> File_node sz s1 n1)" "keep_handles (view w2) (view w3) {}"
    unfolding cnt by auto
  have f3: "fs_temp (view w3) f = Some ?q" using v3(2) t2(1) by (simp add: keep_handles_def)
  have "os_futimens os f sec ns w3 = (Inr u, w4)"
    using mt by (auto simp: set_mtime_def sysI_Inr split: if_splits)
  then have v4: "view w4 = (view w3)\<lparr>fs_tree := (fs_tree (view w3))(?q \<mapsto> File_node sz sec ns)\<rparr>"
    using obeysD(8) [OF o, unfolded obeys_times_def, THEN conjunct1, rule_format, of w3 f ?q sz s1 n1 sec ns u w4] f3 v3(1)
    by simp
  have e5: "extends (view w4) (view w5)" by (rule growsD [OF grows_reads(4) [OF o] sy])
  have "fs_handle (view w2) d = Some dir" using dir(5) by (simp add: t(4))
  then have "fs_handle (view w3) d = Some dir" using v3(2) by (simp add: keep_handles_def)
  then have h5: "fs_handle (view w5) d = Some dir" using extends_handle [OF e5] by (simp add: v4)
  have "fs_tree (view w5) = (fs_tree (view w))(?q \<mapsto> File_node sz sec ns)"
    using extends_tree [OF e5] extends_tree [OF dir(4)] by (simp add: v4 v3(1) t(4))
  with that [of dir] dir(1,2,3) h5 t(1,2,3) extends_tree [OF dir(4)] show ?thesis
    by (simp add: sg)
qed

lemma install_view:
  assumes o: "obeys os (root_fd r) view" and s: "safe_name (root_prefix r)"
    and run: "install os sha r e dst p f w = (Inr (), w')"
    and free: "\<not> starts_with reserved_prefix (last (components (e_path e)))"
    and conf: "\<And>x. x \<in> set (conflict_list p (e_path e)) \<Longrightarrow> below (e_path x) (e_path e)"
  shows "e_path e \<noteq> []"
    "fs_tree (view w') = (without r (conflict_list p (e_path e)) (fs_tree (view w)))
       (place r (e_path e) \<mapsto> File_node (e_size e) (e_mtime e) (e_ns e))"
proof -
  let ?es = "conflict_list p (e_path e)"
  from run obtain sg w1 w2 w3 where
    st: "stage os sha r (e_path e) (File_reader f) (e_size e) (e_hash e) (e_mtime e) (e_ns e) w = (Inr sg, w1)"
    and ck: "(case find (\<lambda>x. e_path x = e_path e) dst of
                 Some old \<Rightarrow> check_entry os r old
               | None \<Rightarrow> bindI (exists_path os r (e_path e)) (\<lambda>there.
                   if there then failI (Changed (e_path e)) else returnI ())) w1 = (Inr (), w2)"
    and cc: "clear_conflict os r p (e_path e) w2 = (Inr (), w3)"
    and cm: "commit os sg w3 = (Inr (), w')"
    by (auto simp: install_def bindI_Inr on_failI_Inr)
  from stage_view [OF o s st] obtain dir where dir: "child_path dir (sg_name sg) = place r (e_path e)"
    "name_ok (sg_name sg)" "e_path e \<noteq> []" "fs_handle (view w1) (sg_dir sg) = Some dir"
    "name_ok (sg_temp_name sg)" "starts_with reserved_prefix (sg_temp_name sg)"
    "fs_tree (view w) (child_path dir (sg_temp_name sg)) = None"
    "fs_tree (view w1) = (fs_tree (view w))(child_path dir (sg_temp_name sg) \<mapsto> File_node (e_size e) (e_mtime e) (e_ns e))"
    by blast
  let ?t = "child_path dir (sg_temp_name sg)" and ?q = "place r (e_path e)"
  show "e_path e \<noteq> []" by (rule dir(3))
  have "grows view (case find (\<lambda>x. e_path x = e_path e) dst of
                 Some old \<Rightarrow> check_entry os r old
               | None \<Rightarrow> bindI (exists_path os r (e_path e)) (\<lambda>there.
                   if there then failI (Changed (e_path e)) else returnI ()))"
    by (auto intro!: steps_rules grows_root_reads [OF o s])
  from growsD [OF this ck] have e2: "extends (view w1) (view w2)" .
  note c3 = clear_conflict_view [OF o s cc]
  have last_name: "last (components (e_path e)) = sg_name sg"
  proof -
    have "last (components (place r (e_path e))) = last (components (e_path e))"
      by (simp add: child_path_def split_on_append_sep)
    moreover have "last (components (child_path dir (sg_name sg))) = sg_name sg"
      using dir(2) by (simp add: child_path_def split_on_append_sep name_ok_def split_on_free)
    ultimately show ?thesis by (simp add: dir(1))
  qed
  have ne: "sg_temp_name sg \<noteq> sg_name sg" using dir(6) free last_name by metis
  have nb: "\<not> below (sg_temp_name sg) (sg_name sg)"
    using ne dir(2,5) split_on_inj [of slash]
    by (auto simp: below_components name_ok_def split_on_free)
  have t_free: "?t \<notin> (place r \<circ> e_path) ` set ?es"
  proof
    assume "?t \<in> (place r \<circ> e_path) ` set ?es"
    then obtain x where x: "x \<in> set ?es" "?t = place r (e_path x)" by auto
    have "below ?t ?q" unfolding x(2) using conf [OF x(1)] dir(3) c3 x(1) by (simp add: below_child)
    with nb dir(2,5) show False unfolding dir(1) [symmetric] by (subst (asm) below_child) auto
  qed
  have d_free: "\<not> below dir y" if "y \<in> (place r \<circ> e_path) ` set ?es" for y
  proof
    assume b: "below dir y"
    from that obtain x where x: "x \<in> set ?es" "y = place r (e_path x)" by auto
    have "below y ?q" unfolding x(2) using conf [OF x(1)] dir(3) c3 x(1) by (simp add: below_child)
    with b have "below dir (child_path dir (sg_name sg))" unfolding dir(1) by (rule below_trans)
    moreover have "sg_name sg \<noteq> []" using dir(2) by auto
    ultimately show False using not_below_parent by blast
  qed
  have h3: "fs_handle (view w3) (sg_dir sg) = Some dir"
    using c3 keep_handlesD(1) [of _ _ _ "sg_dir sg" dir] extends_handle [OF e2 dir(4)] d_free by blast
  have v3: "fs_tree (view w3) = without r ?es ((fs_tree (view w))(?t \<mapsto> File_node (e_size e) (e_mtime e) (e_ns e)))"
    using c3 extends_tree [OF e2] dir(8) by simp
  have t3: "fs_tree (view w3) ?t = Some (File_node (e_size e) (e_mtime e) (e_ns e))"
    unfolding v3 using t_free by (simp add: without_def)
  from cm obtain w4 w5 where rn: "os_renameat os (sg_dir sg) (sg_temp_name sg) (sg_dir sg) (sg_name sg) w3 = (Inr (), w4)"
    and sy: "sysI (os_sync os (sg_dir sg)) w4 = (Inr (), w5)" and w': "w' = drop_staged os sg w5"
    by (auto simp: commit_def finallyI_Inr bindI_Inr sysI_Inr)
  from obeysD(5) [OF o, unfolded obeys_rename_def, rule_format,
      of w3 "sg_dir sg" dir "sg_temp_name sg" "sg_name sg" "e_size e" "e_mtime e" "e_ns e" "()" w4]
  have v4: "fs_tree (view w4) = (fs_tree (view w3))(?t := None, ?q \<mapsto> File_node (e_size e) (e_mtime e) (e_ns e))"
    "keep_handles (view w3) (view w4) {?t, ?q}"
    using h3 dir(2,5) ne t3 rn by (simp_all add: dir(1))
  have e5: "extends (view w4) (view w5)" by (rule growsD [OF grows_reads(4) [OF o] sy])
  have "fs_handle (view w4) (sg_dir sg) = Some dir"
  proof (rule keep_handlesD(1) [OF v4(2) h3])
    have "sg_temp_name sg \<noteq> []" "sg_name sg \<noteq> []" using dir(2,5) by auto
    then show "\<not> below dir p" if "p \<in> {?t, ?q}" for p
      using that not_below_parent [of _ dir] by (auto simp flip: dir(1))
  qed
  then have h5: "fs_handle (view w5) (sg_dir sg) = Some dir" by (rule extends_handle [OF e5])
  obtain x w6 where ul: "os_unlinkat os (sg_dir sg) (sg_temp_name sg) False w5 = (x, w6)" by fastforce
  have "?t \<noteq> ?q" using ne by (simp flip: dir(1))
  then have gone: "fs_tree (view w5) ?t = None" using v4(1) extends_tree [OF e5] by simp
  have "fs_tree (view w6) = fs_tree (view w5)"
    using unlink_view [OF o h5 dir(5) ul] gone extends_tree [of "view w5" "view w6"]
    by (auto split: if_splits simp: fun_upd_idem)
  then have v': "fs_tree (view w') = (fs_tree (view w3))(?t := None, ?q \<mapsto> File_node (e_size e) (e_mtime e) (e_ns e))"
    using v4(1) extends_tree [OF e5] by (simp add: w' drop_staged_def ul)
  show "fs_tree (view w') = (without r ?es (fs_tree (view w)))(?q \<mapsto> File_node (e_size e) (e_mtime e) (e_ns e))"
    using dir(7) t_free unfolding v' v3 by (auto simp: without_def fun_eq_iff)
qed

section \<open>The steps of a plan\<close>

lemma put_entry_conflicts:
  "put_entry src p i t = (clear (conflict_list p (e_path (src ! i))) t)(e_path (src ! i) \<mapsto> node_of (src ! i))"
  by (simp add: put_entry_def conflict_list_def Let_def)

lemma planned_conflict_list:
  assumes p: "plan src dst opt = Inr p" and i: "i < length src" and x: "x \<in> set (conflict_list p (e_path (src ! i)))"
  shows "below (e_path x) (e_path (src ! i))" "conflicting src dst (src ! i)"
  using x planned_conflicts [OF planD(1) [OF p] nth_mem [OF i], of dst opt]
  unfolding conflict_list_def planD(3) [OF p]
  by (auto simp: replaced_def split: if_splits)

lemma earlier_directory:
  assumes p: "plan src dst opt = Inr p" and d: "directories p = ys @ i # zs"
    and x: "below (e_path (src ! i)) x" "x \<noteq> e_path (src ! i)"
  shows "\<exists>j \<in> set ys. e_path (src ! j) = x \<and> e_kind (src ! j) = Directory"
proof -
  note src = planD(1) [OF p]
  have "i \<in> set (directories p)" by (simp add: d)
  then have i: "i < length src" "made src dst (src ! i)"
    unfolding planD(3) [OF p] planned_directories by auto
  from ancestor_directory [OF src nth_mem [OF i(1)] x] obtain e where
    e: "e \<in> set src" "e_path e = x" "e_kind e = Directory" by blast
  then obtain j where j: "j < length src" "src ! j = e" by (auto simp: in_set_conv_nth)
  have "\<not> shielded src dst x"
    using i(2) x(1) by (auto simp: made_def shielded_def intro: below_trans)
  then have "j \<in> set (directories p)"
    unfolding planD(3) [OF p] planned_directories using j e by (simp add: made_def)
  moreover have "j < i"
  proof (rule ccontr)
    assume "\<not> j < i"
    moreover have "j \<noteq> i" using x(2) e(2) j(2) by auto
    ultimately have "i < j" by simp
    then have "e_path (src ! i) < e_path (src ! j)"
      using sorted_wrt_nth_less [OF manifest_ok_sorted [OF src], of i j] j(1) by simp
    with below_less_eq [OF x(1)] e(2) j(2) show False by simp
  qed
  moreover have "sorted_wrt (<) (directories p)"
    unfolding planD(3) [OF p] planned_def Let_def by (simp add: sorted_wrt_filter)
  ultimately have "j \<in> set ys" unfolding d by (auto simp: sorted_wrt_append)
  then show ?thesis using e j by auto
qed

lemma prepare_refines:
  assumes o: "obeys os (root_fd r) view" and s: "safe_name (root_prefix r)"
    and p: "plan src dst opt = Inr p" and run: "prepare os r src p w = (Inr (), w')"
  shows "rel r (view w') = fold (put_entry src p) (directories p) (rel r (view w))"
proof -
  from run obtain u w1 where root: "mkdir os r [] w = (Inr u, w1)"
    and each: "eachI (\<lambda>index.
         bindI (indexI src index) (\<lambda>e.
         bindI (clear_conflict os r p (e_path e)) (\<lambda>_. mkdir os r (e_path e)))) (directories p) w1 = (Inr (), w')"
    by (auto simp: prepare_def bindI_Inr)
  have rel_mkdir: "rel r (view w3) = (\<lambda>x. if x \<noteq> [] \<and> below q x then Some Directory_node else rel r (view w2) x)"
    if "mkdir os r q w2 = (Inr (), w3)" for q w2 w3
  proof -
    from mkdir_view [OF o s that] obtain f where f: "full r q = Inr f"
      "fs_tree (view w3) = (\<lambda>x. if x \<noteq> [] \<and> below f x then Some Directory_node else fs_tree (view w2) x)" by blast
    show ?thesis
    proof (cases "q = []")
      case True
      then have "f = root_prefix r" using full_Inr [OF f(1)] by simp
      moreover have "\<not> below [] x" if "x \<noteq> []" for x using that by (auto simp: below_iff)
      ultimately show ?thesis
        using True not_below_parent [of _ "root_prefix r"] by (auto simp: rel_def f(2) fun_eq_iff)
    next
      case False
      have "f = place r q" by (rule full_at [OF f(1) False])
      then show ?thesis using False by (auto simp: rel_def f(2) fun_eq_iff child_path_ne)
    qed
  qed
  show ?thesis
  proof (rule eachI_world [OF each, where P = "\<lambda>ys w'. rel r (view w') = fold (put_entry src p) ys (rel r (view w))"])
    have "\<not> below [] x" if "x \<noteq> []" for x using that by (auto simp: below_iff)
    then show "rel r (view w1) = fold (put_entry src p) [] (rel r (view w))"
      using rel_mkdir [of "[]" w w1] root by (auto simp: fun_eq_iff)
  next
    fix ys i zs w2 w5
    assume d: "directories p = ys @ i # zs" and P: "rel r (view w2) = fold (put_entry src p) ys (rel r (view w))"
      and run: "bindI (indexI src i) (\<lambda>e.
         bindI (clear_conflict os r p (e_path e)) (\<lambda>_. mkdir os r (e_path e))) w2 = (Inr (), w5)"
    let ?q = "e_path (src ! i)" let ?t = "rel r (view w2)"
    have sub: "set ys \<subseteq> {..<length src}" and i: "i < length src" "made src dst (src ! i)"
    proof -
      have "i \<in> set (directories p)" "set ys \<subseteq> set (directories p)" by (auto simp: d)
      then show "set ys \<subseteq> {..<length src}" "i < length src" "made src dst (src ! i)"
        unfolding planD(3) [OF p] by (auto simp: planned_directories)
    qed
    from run obtain u w3 w4 where cc: "clear_conflict os r p ?q w3 = (Inr u, w4)" "w3 = w2"
      and mk: "mkdir os r ?q w4 = (Inr (), w5)"
      by (auto simp: bindI_Inr indexI_Inr)
    have c: "rel r (view w4) = clear (conflict_list p ?q) ?t"
      using clear_conflict_view [OF o s, of p ?q w3 w4] cc by (auto intro!: rel_without)
    have anc: "clear (conflict_list p ?q) ?t x = Some Directory_node" if x: "below ?q x" "x \<noteq> ?q" for x
    proof -
      from earlier_directory [OF p d x] obtain j where
        j: "j \<in> set ys" "e_path (src ! j) = x" "e_kind (src ! j) = Directory" by blast
      with sub have "src ! j \<in> set src" by auto
      then have "tree_of src x = Some Directory_node"
        using tree_of_entry [OF planD(1) [OF p], of "src ! j"] j by (simp add: node_of_def)
      then have "?t x = Some Directory_node"
        unfolding P puts_eq [OF p sub] using j by auto
      moreover have "x \<notin> e_path ` set (conflict_list p ?q)"
        using planned_conflict_list(1) [OF p i(1)] x below_antisym by blast
      ultimately show ?thesis by (simp add: clear_eq)
    qed
    have "node_of (src ! i) = Directory_node" "?q \<noteq> []"
      using i(2) manifest_ok_entry [OF planD(1) [OF p] nth_mem [OF i(1)]]
      by (simp_all add: made_def node_of_def entry_ok_def valid_path_iff)
    moreover have "x \<noteq> []" if "below ?q x" for x
    proof
      assume "x = []"
      with that have "?q = [] \<or> hd ?q = slash" by (auto simp: below_iff)
      with valid_path_no_escape(4) [of ?q] manifest_ok_entry [OF planD(1) [OF p] nth_mem [OF i(1)]]
      show False by (auto simp: entry_ok_def valid_path_iff)
    qed
    ultimately show "rel r (view w5) = fold (put_entry src p) (ys @ [i]) (rel r (view w))"
      using anc unfolding rel_mkdir [OF mk] c by (auto simp: put_entry_conflicts fun_eq_iff simp flip: P)
  qed
qed

lemma install_refines:
  assumes o: "obeys os (root_fd r) view" and s: "safe_name (root_prefix r)"
    and p: "plan src dst opt = Inr p" and i: "i \<in> set (files p)"
    and e: "e_path e = e_path (src ! i)" "e_size e = e_size (src ! i)" "e_mtime e = e_mtime (src ! i)"
      "e_ns e = e_ns (src ! i)"
    and run: "install os sha r e dst p f w = (Inr (), w')"
  shows "rel r (view w') = put_entry src p i (rel r (view w))"
proof -
  from i have f: "i < length src" "e_kind (src ! i) = File"
    unfolding planD(3) [OF p] planned_files by (auto simp: transferred_def)
  have "\<not> reserved (e_path e)"
    using manifest_ok_entry [OF planD(1) [OF p] nth_mem [OF f(1)]] f(2) by (auto simp: entry_ok_def e(1))
  then have free: "\<not> starts_with reserved_prefix (last (components (e_path e)))"
    by (auto simp: reserved_def list_ex_iff)
  have conf: "below (e_path x) (e_path e)" if "x \<in> set (conflict_list p (e_path e))" for x
    using planned_conflict_list(1) [OF p f(1)] that by (simp add: e(1))
  note iv = install_view [OF o s run free conf]
  have tree: "fs_tree (view w') = (without r (conflict_list p (e_path e)) (fs_tree (view w)))
       (place r (e_path e) \<mapsto> node_of (src ! i))"
    using iv(2) f(2) by (simp add: node_of_def e)
  have "rel r (view w') = (clear (conflict_list p (e_path e)) (rel r (view w)))(e_path e \<mapsto> node_of (src ! i))"
    using iv(1) by (auto simp: rel_def tree without_def clear_eq fun_eq_iff)
  then show ?thesis by (simp add: put_entry_conflicts e(1))
qed

lemma finish_refines:
  assumes o: "obeys os (root_fd r) view" and s: "safe_name (root_prefix r)"
    and run: "finish os r src p w = (Inr (), w')"
    and dirs: "\<And>i. i \<in> set (directories p) \<Longrightarrow> clear (removals p) (rel r (view w)) (e_path (src ! i)) = Some Directory_node"
  shows "rel r (view w') = clear (removals p) (rel r (view w))"
proof -
  from run obtain u1 w1 u2 w2 where ck: "eachI (check_entry os r) (removals p) w = (Inr u1, w1)"
    and rm: "eachI (remove_entry os r) (removals p) w1 = (Inr u2, w2)"
    and tm: "eachI (\<lambda>index. bindI (indexI src index) (\<lambda>e. set_path_mtime os r (e_path e) (e_mtime e) (e_ns e)))
         (rev (directories p)) w2 = (Inr (), w')"
    by (auto simp: finish_def bindI_Inr)
  have "grows view (eachI (check_entry os r) (removals p))"
    by (intro steps_rules grows_root_reads [OF o s])
  from growsD [OF this ck] have e1: "extends (view w) (view w1)" .
  have rm': "eachI (remove_entry os r) (removals p) w1 = (Inr (), w2)" using rm by simp
  have "\<exists>w3. extends (view w1) (view w3) \<and> remove_entry os r e w3 = (Inr (), w2)"
    if "remove_entry os r e w1 = (Inr (), w2)" for e w1 w2
    using that by (intro exI [of _ w1]) simp
  with each_removed_view [OF o s rm'] have "fs_tree (view w2) = without r (removals p) (fs_tree (view w1))"
    by blast
  then have r2: "rel r (view w2) = clear (removals p) (rel r (view w))"
    using extends_rel [OF e1] by (simp add: rel_without)
  have "extends (view w2) (view w')"
  proof (rule eachI_world [OF tm, where P = "\<lambda>_ w. extends (view w2) (view w)"])
    fix ys i zs w3 w6
    assume sp: "rev (directories p) = ys @ i # zs" and P: "extends (view w2) (view w3)"
      and st: "bindI (indexI src i) (\<lambda>e. set_path_mtime os r (e_path e) (e_mtime e) (e_ns e)) w3 = (Inr (), w6)"
    let ?q = "e_path (src ! i)"
    have "i \<in> set (rev (directories p))" by (simp add: sp)
    then have "i \<in> set (directories p)" by simp
    from dirs [OF this] have d: "rel r (view w3) ?q = Some Directory_node"
      using extends_rel [OF P] r2 by simp
    then have ne: "?q \<noteq> []" by (auto simp: rel_def)
    from st obtain f w4 w5 where fl: "full r ?q = Inr f"
      and op: "open_full os r f Open_file w3 = (Inr w4, w5)"
      and mt: "set_mtime os w4 (e_mtime (src ! i)) (e_ns (src ! i)) w5 = (Inr (), w6)"
      by (auto simp: bindI_Inr indexI_Inr set_path_mtime_def)
    have f: "f = place r ?q" by (rule full_at [OF fl ne])
    note op = open_view [OF o full_safe [OF s fl] _ op]
    have e3: "extends (view w3) (view w5)" using op by simp
    have "is_dir (view w5) f"
      using d ne extends_tree [OF e3] by (simp add: is_dir_def rel_def f)
    then have "extends (view w5) (view (snd (os_futimens os w4 (e_mtime (src ! i)) (e_ns (src ! i)) w5)))"
      using obeysD(8) [OF o, unfolded obeys_times_def] op(2) by blast
    moreover have "os_futimens os w4 (e_mtime (src ! i)) (e_ns (src ! i)) w5 = (Inr (), w6)"
      using mt by (auto simp: set_mtime_def sysI_Inr split: if_splits)
    ultimately have "extends (view w5) (view w6)" by simp
    with P e3 show "extends (view w2) (view w6)" by (blast intro: extends_trans)
  qed simp
  then show ?thesis using r2 by (simp add: extends_rel)
qed

text \<open>The whole of a plan.\<close>

lemma carried_out:
  assumes p: "plan src dst opt = Inr p" and t: "t = tree_of dst"
    and ks: "set ks = set (directories p) \<union> set (files p)"
  shows "clear (removals p) (fold (put_entry src p) ks t) = carry_out src p t"
    and "i \<in> set (directories p) \<Longrightarrow> carry_out src p t (e_path (src ! i)) = Some Directory_node"
proof -
  have sub: "set (directories p) \<union> set (files p) \<subseteq> {..<length src}"
    unfolding planD(3) [OF p] by (auto simp: planned_directories planned_files)
  have "fold (put_entry src p) ks t = fold (put_entry src p) (directories p @ files p) t"
    using sub ks by (intro ext) (simp only: puts_eq [OF p] set_append)
  then show "clear (removals p) (fold (put_entry src p) ks t) = carry_out src p t"
    by (simp add: carry_out_def)
  assume "i \<in> set (directories p)"
  then have i: "i < length src" "made src dst (src ! i)"
    unfolding planD(3) [OF p] by (auto simp: planned_directories)
  have "tree_of src (e_path (src ! i)) = Some Directory_node"
    using tree_of_entry [OF planD(1) [OF p] nth_mem [OF i(1)]] i(2) by (simp add: made_def node_of_def)
  then show "carry_out src p t (e_path (src ! i)) = Some Directory_node"
    using i unfolding t carry_out_eq [OF p] by (auto simp: made_def)
qed

end
