(* ===== verification/Scan_Model.thy ===== *)
theory Scan_Model
  imports Fs_Model
begin

text \<open>
  What a scan reports. \<open>obeys_scan\<close> states what listing and inspecting a directory return on the view of
  \<open>Fs_Model\<close>; over it the manifest of a successful \<open>scan_root\<close> is the tree, except that an object with a
  reserved name appears as a protected object and nothing below it appears.
\<close>

section \<open>Listing and inspecting\<close>

definition describes :: "fs_view \<Rightarrow> str \<Rightarrow> metadata \<Rightarrow> bool" where
  "describes v p m \<longleftrightarrow>
     (case (if p = [] then Some Directory_node else fs_tree v p) of
        Some (File_node sz sec ns) \<Rightarrow> m_type m = Regular \<and> m_len m = sz \<and> m_mtime m = sec \<and> ucast (m_mtime_ns m) = ns
      | Some Directory_node \<Rightarrow> m_type m = Dir
      | Some Protected_node \<Rightarrow> m_type m = Special
      | None \<Rightarrow> True)"

definition obeys_scan :: "'w os \<Rightarrow> fd \<Rightarrow> ('w \<Rightarrow> fs_view) \<Rightarrow> bool" where
  "obeys_scan os rf view \<longleftrightarrow>
     (\<forall>f p w m w'. fs_handle (view w) f = Some p \<and> os_metadata os f w = (Inr m, w') \<longrightarrow> describes (view w) p m)
     \<and> (\<forall>f w. fst (os_metadata os f w) \<noteq> Inl NotFound)
     \<and> (\<forall>d p n w f w'. fs_handle (view w) d = Some p \<and> name_ok n \<and> os_openat os d n w = (Inr f, w') \<longrightarrow>
          fs_handle (view w') f = Some (child_path p n) \<and> fs_tree (view w) (child_path p n) \<noteq> None)
     \<and> (\<forall>d p w items w'. fs_handle (view w) d = Some p \<and> os_read_dir os d w = (Inr items, w')
          \<and> (\<forall>x \<in> set items. \<not> isl x) \<longrightarrow>
          (\<forall>n. Inr n \<in> set items \<longleftrightarrow> name_ok n \<and> fs_tree (view w) (child_path p n) \<noteq> None))
     \<and> (\<forall>p w. safe_name p \<and> fst (os_openat2 os rf (if p = [] then dot else p) Open_path w) = Inl NotFound \<longrightarrow>
          p \<noteq> [] \<and> fs_tree (view w) p = None)"

lemma obeys_scanD:
  assumes "obeys_scan os rf view"
  shows "fs_handle (view w) f = Some p \<Longrightarrow> os_metadata os f w = (Inr m, w') \<Longrightarrow> describes (view w) p m"
    "fst (os_metadata os f w) \<noteq> Inl NotFound"
    "fs_handle (view w) d = Some p \<Longrightarrow> name_ok n \<Longrightarrow> os_openat os d n w = (Inr f, w') \<Longrightarrow>
       fs_handle (view w') f = Some (child_path p n) \<and> fs_tree (view w) (child_path p n) \<noteq> None"
    "fs_handle (view w) d = Some p \<Longrightarrow> os_read_dir os d w = (Inr items, w') \<Longrightarrow> (\<forall>x \<in> set items. \<not> isl x) \<Longrightarrow>
       Inr n \<in> set items \<longleftrightarrow> name_ok n \<and> fs_tree (view w) (child_path p n) \<noteq> None"
    "safe_name p \<Longrightarrow> fst (os_openat2 os rf (if p = [] then dot else p) Open_path w) = Inl NotFound \<Longrightarrow>
       p \<noteq> [] \<and> fs_tree (view w) p = None"
proof -
  note l = assms [unfolded obeys_scan_def]
  show "fs_handle (view w) f = Some p \<Longrightarrow> os_metadata os f w = (Inr m, w') \<Longrightarrow> describes (view w) p m"
    using l [THEN conjunct1] by (metis (no_types))
  show "fst (os_metadata os f w) \<noteq> Inl NotFound"
    using l [THEN conjunct2, THEN conjunct1] by (metis (no_types))
  show "fs_handle (view w) d = Some p \<Longrightarrow> name_ok n \<Longrightarrow> os_openat os d n w = (Inr f, w') \<Longrightarrow>
       fs_handle (view w') f = Some (child_path p n) \<and> fs_tree (view w) (child_path p n) \<noteq> None"
    using l [THEN conjunct2, THEN conjunct2, THEN conjunct1] by (metis (no_types))
  show "fs_handle (view w) d = Some p \<Longrightarrow> os_read_dir os d w = (Inr items, w') \<Longrightarrow> (\<forall>x \<in> set items. \<not> isl x) \<Longrightarrow>
       Inr n \<in> set items \<longleftrightarrow> name_ok n \<and> fs_tree (view w) (child_path p n) \<noteq> None"
    using l [THEN conjunct2, THEN conjunct2, THEN conjunct2, THEN conjunct1, rule_format, of w d p items w' n] by blast
  show "safe_name p \<Longrightarrow> fst (os_openat2 os rf (if p = [] then dot else p) Open_path w) = Inl NotFound \<Longrightarrow>
       p \<noteq> [] \<and> fs_tree (view w) p = None"
    using l [THEN conjunct2, THEN conjunct2, THEN conjunct2, THEN conjunct2, rule_format, of p w] by blast
qed

lemma describes_cong: "fs_tree v' = fs_tree v \<Longrightarrow> describes v' = describes v"
  by (simp add: describes_def fun_eq_iff)

text \<open>Every name is in a directory.\<close>

definition tree_wf :: "fs_view \<Rightarrow> bool" where
  "tree_wf v \<longleftrightarrow>
     (\<forall>q. fs_tree v q \<noteq> None \<longrightarrow> safe_name q \<and> q \<noteq> [])
     \<and> (\<forall>p n. name_ok n \<and> fs_tree v (child_path p n) \<noteq> None \<longrightarrow> is_dir v p)"

lemma tree_ancestor:
  assumes wf: "tree_wf v"
  shows "fs_tree v q \<noteq> None \<Longrightarrow> below q a \<Longrightarrow> a \<noteq> q \<Longrightarrow> is_dir v a"
proof (induction "length q" arbitrary: q rule: less_induct)
  case less
  have q: "safe_name q" "q \<noteq> []" using wf less.prems(1) by (auto simp: tree_wf_def)
  obtain dir name where sp: "(dir, name) = (case rsplit_once slash q of Some x \<Rightarrow> x | None \<Rightarrow> ([], q))"
    by (metis surj_pair)
  note d = split_name [OF q sp]
  have dir: "is_dir v dir" using wf d less.prems(1) unfolding tree_wf_def by metis
  show ?case
  proof (cases "a = dir")
    case False
    have "a \<noteq> []" "dir \<noteq> []"
    proof -
      have "hd q \<noteq> slash"
      proof -
        have "[] \<notin> set (components q)" using q by (auto simp: safe_name_def bad_component_def)
        then show ?thesis using q(2) by (cases q) auto
      qed
      with less.prems(2,3) show "a \<noteq> []" using q(2) by (auto simp: below_iff)
      show "dir \<noteq> []"
      proof
        assume "dir = []"
        then have "components q = [q]" using d by (simp add: child_path_def name_ok_def split_on_free)
        with less.prems(2,3) show False
          using split_on_inj [of slash a q] by (auto simp: below_components prefix_Cons)
      qed
    qed
    then have comps: "components q = components dir @ [name]"
      using d by (auto simp: child_path_def split_on_append_sep name_ok_def split_on_free)
    have "below dir a"
      using less.prems(2,3) split_on_inj [of slash a q] unfolding below_components comps
      by (metis comps prefix_snoc)
    moreover have "length dir < length q"
      using d(1) \<open>dir \<noteq> []\<close> by (auto simp: child_path_def)
    moreover have "fs_tree v dir \<noteq> None" using dir \<open>dir \<noteq> []\<close> by (simp add: is_dir_def)
    ultimately show ?thesis using less.hyps [of dir] False by blast
  qed (use dir in simp)
qed

lemma grows_scan_reads [steps_rules]:
  assumes o: "obeys os (root_fd r) view" and s: "safe_name (root_prefix r)"
  shows "grows view (open_file os r p)" "grows view (hash_file os sha f)" "grows view (children os r p)"
proof -
  show "grows view (open_file os r p)"
    unfolding open_file_def by (auto intro!: steps_rules o dest: full_safe [OF s])
  have "grows view (read_all os f n acc)" for n acc
    by (induction n arbitrary: acc) (auto intro!: steps_rules o)
  then show "grows view (hash_file os sha f)"
    unfolding hash_file_def by (auto intro!: steps_rules o)
  have item: "grows view (sysI (\<lambda>w. (item, w)))" for item by (rule grows_sys) simp
  show "grows view (children os r p)"
    unfolding children_def list_child_def Let_def
    by (auto intro!: steps_rules o item dest: full_safe [OF s])
qed

lemma metadata_view:
  assumes o: "obeys os rf view" "obeys_scan os rf view" and h: "fs_handle (view w) f = Some p"
    and run: "sysI (os_metadata os f) w = (Inr m, w')"
  shows "describes (view w) p m" "extends (view w) (view w')"
proof -
  from run have "os_metadata os f w = (Inr m, w')" by (simp add: sysI_Inr)
  then show "describes (view w) p m" using obeys_scanD(1) [OF o(2)] h by blast
  show "extends (view w) (view w')" by (rule growsD [OF grows_reads(2) [OF o(1)] run])
qed

lemma list_child_view:
  assumes o: "obeys os rf view" "obeys_scan os rf view" and h: "fs_handle (view w) d = Some p"
    and run: "list_child os d item out w = (Inr out', w')"
  shows "\<exists>n m. item = Inr n \<and> out' = out @ [(n, m)] \<and> extends (view w) (view w')
    \<and> (name_ok n \<longrightarrow> describes (view w) (child_path p n) m)"
proof -
  from run obtain n f w1 m where n: "item = Inr n" and f: "sysI (os_openat os d n) w = (Inr f, w1)"
    and m: "sysI (os_metadata os f) w1 = (Inr m, w')" and out: "out' = out @ [(n, m)]"
    by (auto simp: list_child_def bindI_Inr sysI_Inr Let_def split: if_splits)
  have e1: "extends (view w) (view w1)" by (rule growsD [OF grows_reads(1) [OF o(1)] f])
  have e2: "extends (view w1) (view w')" by (rule growsD [OF grows_reads(2) [OF o(1)] m])
  have "describes (view w) (child_path p n) m" if "name_ok n"
  proof -
    have "fs_handle (view w1) f = Some (child_path p n)"
      using obeys_scanD(3) [OF o(2) h that] f by (auto simp: sysI_Inr)
    from metadata_view(1) [OF o this m] show ?thesis
      by (simp add: describes_cong [OF extends_tree [OF e1]])
  qed
  with n out e1 e2 show ?thesis by (blast intro: extends_trans)
qed

lemma children_view:
  assumes o: "obeys os (root_fd r) view" "obeys_scan os (root_fd r) view" and s: "safe_name (root_prefix r)"
    and run: "children os r path w = (Inr out, w')"
  shows "\<exists>p. full r path = Inr p \<and> is_dir (view w) p \<and> extends (view w) (view w')
    \<and> fst ` set out = {n. name_ok n \<and> fs_tree (view w) (child_path p n) \<noteq> None}
    \<and> (\<forall>n m. (n, m) \<in> set out \<longrightarrow> describes (view w) (child_path p n) m)"
proof -
  from run obtain p d w1 items w2 out0 where p: "full r path = Inr p"
    and d: "open_full os r p Open_dir w = (Inr d, w1)" and items: "os_read_dir os d w1 = (Inr items, w2)"
    and fold: "foldI (list_child os d) items [] w2 = (Inr out0, w')" and out: "out = sort_key fst out0"
    by (auto simp: children_def bindI_Inr sysI_Inr)
  note d = open_view [OF o(1) full_safe [OF s p] _ d]
  have "sysI (os_read_dir os d) w1 = (Inr items, w2)" using items by (simp add: sysI_Inr)
  from growsD [OF grows_reads(3) [OF o(1)] this] have e2: "extends (view w1) (view w2)" .
  have e1: "extends (view w) (view w1)" using d by simp
  have h2: "fs_handle (view w2) d = Some p" using d(2) extends_handle [OF e2] by simp
  let ?P = "\<lambda>(ys :: byte list sys list) out w3. extends (view w2) (view w3) \<and> ys = map (\<lambda>x. Inr (fst x)) out
    \<and> (\<forall>n m. (n, m) \<in> set out \<longrightarrow> name_ok n \<longrightarrow> describes (view w2) (child_path p n) m)"
  have P: "?P items out0 w'"
  proof (rule foldI_world [OF fold, where P = ?P])
    fix ys x zs u v w3 w4
    assume "?P ys u w3" and st: "list_child os d x u w3 = (Inr v, w4)"
    then have e3: "extends (view w2) (view w3)" by simp
    from list_child_view [OF o(1,2) extends_handle [OF e3 h2] st] \<open>?P ys u w3\<close>
    show "?P (ys @ [x]) v w4"
      by (auto simp: describes_cong [OF extends_tree [OF e3]] intro: extends_trans)
  qed simp
  then have "\<forall>x \<in> set items. \<not> isl x" by auto
  note names = obeys_scanD(4) [OF o(2) d(2) items this]
  have tree: "fs_tree (view w1) = fs_tree (view w)" "fs_tree (view w2) = fs_tree (view w)"
    using extends_tree [OF e1] extends_tree [OF e2] by simp_all
  have img: "n \<in> fst ` set out0 \<longleftrightarrow> Inr n \<in> set items" for n
    using P by (auto simp: image_iff)
  have "fst ` set out = {n. name_ok n \<and> fs_tree (view w) (child_path p n) \<noteq> None}"
    unfolding out using img names tree by auto
  moreover have "describes (view w) (child_path p n) m" if "(n, m) \<in> set out" for n m
  proof -
    have "(n, m) \<in> set out0" using that by (simp add: out)
    then have "n \<in> fst ` set out0" by force
    then have "name_ok n" using img names by blast
    then show ?thesis using P \<open>(n, m) \<in> set out0\<close> describes_cong [OF tree(2)] by auto
  qed
  moreover have "extends (view w) (view w')" using e1 e2 P by (blast intro: extends_trans)
  moreover have "is_dir (view w) p" using d(3) by simp
  ultimately show ?thesis using p by blast
qed

section \<open>What the walk collects\<close>

abbreviation reserved_name :: "str \<Rightarrow> bool" where
  "reserved_name \<equiv> starts_with reserved_prefix"

text \<open>The tree as a scan shows it.\<close>

definition scanned :: "(str \<Rightarrow> node option) \<Rightarrow> str \<Rightarrow> node option" where
  "scanned t q =
     (if list_ex reserved_name (butlast (components q)) then None
      else if reserved_name (last (components q)) then map_option (\<lambda>_. Protected_node) (t q)
      else t q)"

definition nodes_of :: "entry list \<Rightarrow> (str \<times> node) set" where
  "nodes_of es = (\<lambda>e. (e_path e, node_of e)) ` set es"

definition shown :: "(str \<Rightarrow> node option) \<Rightarrow> (str \<Rightarrow> bool) \<Rightarrow> (str \<times> node) set" where
  "shown t P = {(q, n). P q \<and> scanned t q = Some n}"

definition inside :: "str \<Rightarrow> str \<Rightarrow> bool" where
  "inside path q \<longleftrightarrow> q \<noteq> [] \<and> q \<noteq> path \<and> (path = [] \<or> below q path)"

lemma shown_cong: "(\<And>q n. scanned t q = Some n \<Longrightarrow> P q \<longleftrightarrow> Q q) \<Longrightarrow> shown t P = shown t Q"
  by (auto simp: shown_def)

lemma shown_Un: "shown t (\<lambda>q. P q \<or> Q q) = shown t P \<union> shown t Q"
  by (auto simp: shown_def)

lemma nodes_of_append [simp]: "nodes_of (es @ fs) = nodes_of es \<union> nodes_of fs"
  by (auto simp: nodes_of_def)

lemma scanned_Some: "scanned t q = Some n \<Longrightarrow> t q \<noteq> None"
  by (auto simp: scanned_def split: if_splits)

lemma components_child_path:
  "name_ok n \<Longrightarrow> components (child_path path n) = (if path = [] then [n] else components path @ [n])"
  by (simp add: child_path_def split_on_append_sep name_ok_def split_on_free)

lemma name_ok_child: "name_ok n \<Longrightarrow> child_path p n \<noteq> []"
  by (cases "n = []") (simp_all add: child_path_ne)

lemma child_path_assoc: "path \<noteq> [] \<Longrightarrow> child_path (child_path a path) n = child_path a (child_path path n)"
  by (simp add: child_path_def)

lemma rel_ancestor:
  assumes wf: "tree_wf v" and q: "rel r v q \<noteq> None" and a: "below q a" "a \<noteq> q" "a \<noteq> []"
  shows "rel r v a = Some Directory_node"
proof -
  have q': "q \<noteq> []" "fs_tree v (child_path (root_prefix r) q) \<noteq> None" using q by (auto simp: rel_def split: if_splits)
  have "is_dir v (child_path (root_prefix r) a)"
    by (rule tree_ancestor [OF wf q'(2)]) (use a q'(1) in simp_all)
  then show ?thesis using a(3) by (simp add: is_dir_def rel_def child_path_ne)
qed

text \<open>The step from a directory to what is inside it, by the first name.\<close>

lemma inside_first:
  assumes wf: "tree_wf v" and q: "rel r v q \<noteq> None" and i: "inside path q"
  shows "\<exists>n. name_ok n \<and> (q = child_path path n \<or> inside (child_path path n) q) \<and> rel r v (child_path path n) \<noteq> None"
proof -
  have q': "q \<noteq> []" "fs_tree v (child_path (root_prefix r) q) \<noteq> None" using q by (auto simp: rel_def split: if_splits)
  then have "safe_name (child_path (root_prefix r) q)" using wf by (simp add: tree_wf_def)
  then have sq: "0 \<notin> set q" "\<forall>c \<in> set (components q). \<not> bad_component c"
    using q'(1) by (auto simp: safe_name_def child_path_def split_on_append_sep split: if_splits)
  have "\<exists>n rest. components q = (if path = [] then [] else components path) @ n # rest"
  proof (cases "path = []")
    case True
    then show ?thesis by (cases "components q") auto
  next
    case False
    then have "prefix (components path) (components q)" "components path \<noteq> components q"
      using i by (auto simp: inside_def below_components split_on_inj)
    then obtain zs where "components q = components path @ zs" "zs \<noteq> []" by (auto simp: prefix_def)
    then show ?thesis using False by (cases zs) auto
  qed
  then obtain n rest where c: "components q = (if path = [] then [] else components path) @ n # rest" by blast
  have "n \<in> set (components q)" by (simp add: c)
  then have n: "name_ok n"
    using sq set_component [of n slash q] split_on_components [of n slash q] by (auto simp: name_ok_def)
  have cc: "components (child_path path n) = (if path = [] then [] else components path) @ [n]"
    using n by (simp add: components_child_path)
  have b: "below q (child_path path n)" unfolding below_components cc c by (simp add: prefix_def)
  have ne: "child_path path n \<noteq> []" by (rule name_ok_child [OF n])
  have eq: "q = child_path path n \<or> inside (child_path path n) q"
    using b q'(1) by (auto simp: inside_def)
  have "rel r v (child_path path n) \<noteq> None"
    using rel_ancestor [OF wf q b _ ne] q by (cases "q = child_path path n") auto
  with n eq show ?thesis by blast
qed

lemma inside_child:
  assumes "name_ok n"
  shows "inside path (child_path path n)" "inside (child_path path n) q \<Longrightarrow> inside path q"
proof -
  have ne: "n \<noteq> []" using assms by auto
  then show "inside path (child_path path n)"
    by (auto simp: inside_def child_path_def below_iff)
  have b: "path = [] \<or> below (child_path path n) path" by (auto simp: child_path_def below_iff)
  have "\<not> below path (child_path path n)" by (rule not_below_parent [OF ne])
  then show "inside (child_path path n) q \<Longrightarrow> inside path q"
    using b child_path_ne [OF ne] by (auto simp: inside_def intro: below_trans)
qed

lemma nothing_inside:
  assumes wf: "tree_wf v" and n: "name_ok n" "child_path path n = c"
    and not_dir: "reserved_name n \<or> rel r v c \<noteq> Some Directory_node"
  shows "shown (rel r v) (inside c) = {}"
proof -
  have False if i: "inside c q" and s: "scanned (rel r v) q = Some k" for q k
  proof -
    have c: "c \<noteq> []" using name_ok_child [OF n(1)] n(2) by auto
    have b: "below q c" "q \<noteq> c" using i c by (auto simp: inside_def)
    have "rel r v c = Some Directory_node"
      by (rule rel_ancestor [OF wf scanned_Some [OF s] b(1) _ c]) (use b in simp)
    with not_dir have res: "reserved_name n" by simp
    have "prefix (components c) (components q)" "components c \<noteq> components q"
      using b by (auto simp: below_components split_on_inj)
    then have "set (components c) \<subseteq> set (butlast (components q))"
      by (auto simp: prefix_def butlast_append)
    moreover have "n \<in> set (components c)" using components_child_path [OF n(1), of path] n(2) by (auto split: if_splits)
    ultimately have "list_ex reserved_name (butlast (components q))" using res by (auto simp: list_ex_iff)
    with s show False by (simp add: scanned_def)
  qed
  then show ?thesis unfolding shown_def by fast
qed

lemma child_entry_shown:
  assumes n: "name_ok n" and path: "path = [] \<or> \<not> reserved path" and c: "c = child_path path n"
    and m: "describes v (child_path (root_prefix r) c) m" and there: "rel r v c \<noteq> None"
  shows "scanned (rel r v) c = Some (node_of (child_entry c m h))"
    "child_kind c m = Directory \<longleftrightarrow> \<not> reserved_name n \<and> rel r v c = Some Directory_node"
    "e_path (child_entry c m h) = c"
proof -
  have comps: "components c = (if path = [] then [] else components path) @ [n]"
    using n by (simp add: c components_child_path)
  have ne: "c \<noteq> []" using name_ok_child [OF n] c by auto
  have un: "\<not> list_ex reserved_name (butlast (components c))"
    using path by (auto simp: comps reserved_def)
  have last_n: "last (components c) = n" by (simp add: comps)
  obtain x where x: "rel r v c = Some x" using there by blast
  then have t: "fs_tree v (child_path (root_prefix r) c) = Some x" using ne by (simp add: rel_def)
  show "scanned (rel r v) c = Some (node_of (child_entry c m h))"
    "child_kind c m = Directory \<longleftrightarrow> \<not> reserved_name n \<and> rel r v c = Some Directory_node"
    "e_path (child_entry c m h) = c"
    using m un ne by (cases x; auto simp: scanned_def last_n x describes_def t child_path_ne child_kind_def
        child_entry_def node_of_def Let_def)+
qed

lemma grows_child_hash [steps_rules]:
  assumes o: "obeys os (root_fd r) view" and s: "safe_name (root_prefix r)"
  shows "grows view (child_hash os sha r cks c k st)"
  unfolding child_hash_def by (auto intro!: steps_rules grows_scan_reads [OF o s] grows_reads [OF o])

lemma walk_shown:
  assumes o: "obeys os (root_fd r) view" "obeys_scan os (root_fd r) view" and s: "safe_name (root_prefix r)"
  shows "walk os sha r cks k path res w = (Inr res', w') \<Longrightarrow> tree_wf (view w) \<Longrightarrow> path = [] \<or> \<not> reserved path \<Longrightarrow>
    extends (view w) (view w')
    \<and> (\<exists>new. sc_entries res' = sc_entries res @ new \<and> nodes_of new = shown (rel r (view w)) (inside path))"
proof (induction k arbitrary: path res w res' w')
  case (Suc k)
  let ?T = "rel r (view w)" and ?c = "child_path path"
  from Suc.prems(1) obtain before w1 items w2 w3 m where b: "metadata os r path w = (Inr before, w1)"
    and ch: "children os r path w1 = (Inr items, w2)"
    and fold: "foldI (walk_child os sha r cks (walk os sha r cks k) path) items res w2 = (Inr res', w3)"
    and after: "metadata os r path w3 = (Inr m, w')"
    by (auto simp: bindI_Inr split: if_splits)
  have e1: "extends (view w) (view w1)" by (rule growsD [OF grows_root_reads(1) [OF o(1) s] b])
  from children_view [OF o s ch] obtain p where p: "full r path = Inr p" "extends (view w1) (view w2)"
    "fst ` set items = {n. name_ok n \<and> fs_tree (view w1) (child_path p n) \<noteq> None}"
    "\<forall>n m. (n, m) \<in> set items \<longrightarrow> describes (view w1) (child_path p n) m" by blast
  have pc: "child_path p n = place r (?c n)" for n
  proof (cases "path = []")
    case True
    then have "p = root_prefix r" using full_Inr [OF p(1)] by simp
    with True show ?thesis by (simp add: child_path_def)
  next
    case False
    with full_at [OF p(1)] show ?thesis by (simp add: child_path_assoc)
  qed
  have names: "n \<in> fst ` set items \<longleftrightarrow> name_ok n \<and> ?T (?c n) \<noteq> None" for n
    using name_ok_child [of n path] extends_tree [OF e1] by (auto simp: p(3) pc rel_def)
  have desc: "describes (view w) (place r (?c n)) m" if "(n, m) \<in> set items" for n m
    using p(4) that describes_cong [OF extends_tree [OF e1]] by (simp add: pc)
  have e2: "extends (view w) (view w2)" using e1 p(2) by (rule extends_trans)
  let ?P = "\<lambda>ys res1 w4. extends (view w) (view w4) \<and> (\<exists>new. sc_entries res1 = sc_entries res @ new
    \<and> nodes_of new = shown ?T (\<lambda>q. \<exists>n \<in> fst ` set ys. q = ?c n \<or> inside (?c n) q))"
  have P: "?P items res' w3"
  proof (rule foldI_world [OF fold, where P = ?P])
    show "?P [] res w2" using e2 by (auto simp: shown_def nodes_of_def)
  next
    fix ys x zs u v w4 w5
    assume split: "items = ys @ x # zs" and P: "?P ys u w4"
      and st: "walk_child os sha r cks (walk os sha r cks k) path x u w4 = (Inr v, w5)"
    obtain n m where x: "x = (n, m)" by (cases x)
    let ?q = "?c n"
    have mem: "(n, m) \<in> set items" by (simp add: split x)
    then have "n \<in> fst ` set items" by force
    then have n: "name_ok n" "?T ?q \<noteq> None" using names by blast+
    from st obtain h w6 where val: "validate ?q = Inr ()"
      and hash: "child_hash os sha r cks ?q (child_kind ?q m) (stamp_of m) w4 = (Inr h, w6)"
      and rest: "(if child_kind ?q m = Directory then walk os sha r cks k ?q (push_child (child_entry ?q m h) (stamp_of m) u)
             else returnI (push_child (child_entry ?q m h) (stamp_of m) u)) w6 = (Inr v, w5)"
      by (auto simp: walk_child_def x bindI_Inr Let_def split: if_splits)
    note ce = child_entry_shown [OF n(1) Suc.prems(3) refl desc [OF mem] n(2)]
    have e4: "extends (view w) (view w6)"
      using P growsD [OF grows_child_hash [OF o(1) s] hash] by (blast intro: extends_trans)
    have T6: "rel r (view w6) = ?T" by (rule extends_rel [OF e4])
    have wf6: "tree_wf (view w6)"
      using Suc.prems(2) extends_tree [OF e4] by (simp add: tree_wf_def is_dir_def)
    have deeper: "extends (view w6) (view w5) \<and> (\<exists>new. sc_entries v = sc_entries u @ child_entry ?q m h # new
        \<and> nodes_of new = shown ?T (inside ?q))"
    proof (cases "child_kind ?q m = Directory")
      case True
      have unres: "\<not> reserved ?q"
        using True ce(2) Suc.prems(3) components_child_path [OF n(1), of path]
        by (auto simp: reserved_def)
      have "walk os sha r cks k ?q (push_child (child_entry ?q m h) (stamp_of m) u) w6 = (Inr v, w5)"
        using rest True by simp
      from Suc.IH [OF this wf6] unres show ?thesis by (auto simp: T6 push_child_def)
    next
      case False
      then have none: "shown ?T (inside ?q) = {}"
        using nothing_inside [OF Suc.prems(2) n(1) refl] ce(2) by blast
      from rest False show ?thesis by (auto simp: none nodes_of_def push_child_def)
    qed
    from P obtain new where new: "sc_entries u = sc_entries res @ new"
      "nodes_of new = shown ?T (\<lambda>q. \<exists>n \<in> fst ` set ys. q = ?c n \<or> inside (?c n) q)" by blast
    from deeper obtain new2 where new2: "sc_entries v = sc_entries u @ child_entry ?q m h # new2"
      "nodes_of new2 = shown ?T (inside ?q)" by blast
    have one: "nodes_of [child_entry ?q m h] = shown ?T (\<lambda>q. q = ?q)"
      using ce(1,3) by (auto simp: nodes_of_def shown_def)
    have "nodes_of (new @ [child_entry ?q m h] @ new2)
        = shown ?T (\<lambda>q. \<exists>n \<in> fst ` set (ys @ [x]). q = ?c n \<or> inside (?c n) q)"
      unfolding nodes_of_append new(2) one new2(2) by (auto simp: shown_def x)
    then show "?P (ys @ [x]) v w5"
      using new(1) new2(1) deeper e4 by (intro conjI exI [of _ "new @ [child_entry ?q m h] @ new2"])
        (auto intro: extends_trans)
  qed
  have "extends (view w3) (view w')" by (rule growsD [OF grows_root_reads(1) [OF o(1) s] after])
  moreover have "shown ?T (\<lambda>q. \<exists>n \<in> fst ` set items. q = ?c n \<or> inside (?c n) q) = shown ?T (inside path)"
  proof (rule shown_cong)
    fix q node assume "scanned ?T q = Some node"
    then have "?T q \<noteq> None" by (rule scanned_Some)
    show "(\<exists>n \<in> fst ` set items. q = ?c n \<or> inside (?c n) q) \<longleftrightarrow> inside path q"
    proof
      assume "\<exists>n \<in> fst ` set items. q = ?c n \<or> inside (?c n) q"
      then obtain n where "name_ok n" "q = ?c n \<or> inside (?c n) q" using names by blast
      then show "inside path q" using inside_child by blast
    next
      assume "inside path q"
      from inside_first [OF Suc.prems(2) \<open>?T q \<noteq> None\<close> this] names
      show "\<exists>n \<in> fst ` set items. q = ?c n \<or> inside (?c n) q" by blast
    qed
  qed
  ultimately show ?case using P by (auto intro: extends_trans)
qed simp

lemma walk_describes:
  assumes o: "obeys os (root_fd r) view" "obeys_scan os (root_fd r) view" and s: "safe_name (root_prefix r)"
    and wf: "tree_wf (view w)" and run: "scan_root os sha r cks w = (Inr sc, w')"
  shows "tree_of (sc_entries sc) = scanned (rel r (view w))" "extends (view w) (view w')"
proof -
  let ?T = "rel r (view w)"
  from run obtain there w1 where ex: "exists_path os r [] w = (Inr there, w1)"
    and rest: "(if \<not> there then returnI \<lparr>sc_entries = [], sc_stamps = []\<rparr>
       else bindI (walk os sha r cks 130 [] \<lparr>sc_entries = [], sc_stamps = []\<rparr>) (\<lambda>res.
            bindI (metadata os r []) (\<lambda>m.
              let res = \<lparr>sc_entries = sort_key e_path (sc_entries res),
                         sc_stamps = bt_insert [] (stamp_of m) (sc_stamps res)\<rparr>
              in bindI (liftI (validate_manifest cks (sc_entries res))) (\<lambda>_. returnI res)))) w1 = (Inr sc, w')"
    by (auto simp: scan_root_def bindI_Inr)
  have e1: "extends (view w) (view w1)" by (rule growsD [OF grows_root_reads(2) [OF o(1) s] ex])
  have "tree_of (sc_entries sc) = scanned ?T \<and> extends (view w) (view w')"
  proof (cases there)
    case False
    obtain x w2 where x: "resultI (metadata os r []) w = (Inr x, w2)"
      "(case x of Inr _ \<Rightarrow> returnI True | Inl e \<Rightarrow> if e = Io NotFound then returnI False else failI e) w2 = (Inr there, w1)"
      using ex unfolding exists_path_def bindI_Inr by blast
    with False have me: "metadata os r [] w = (Inl (Fails (Io NotFound)), w1)"
      by (cases x) (auto simp: resultI_Inr split: if_splits)
    have full0: "full r [] = Inr (root_prefix r) \<or> (\<exists>e. full r [] = Inl (InvalidPath e))"
      by (auto simp: full_def Let_def)
    have "fst (os_openat2 os (root_fd r) (if root_prefix r = [] then dot else root_prefix r) Open_path w) = Inl NotFound"
    proof -
      from me full0 have m1: "bindI (open_full os r (root_prefix r) Open_path) (\<lambda>f. sysI (os_metadata os f)) w
          = (Inl (Fails (Io NotFound)), w1)"
        by (auto simp: metadata_def)
      have "sysI (os_metadata os f) v \<noteq> (Inl (Fails (Io NotFound)), v')" for f v v'
        using obeys_scanD(2) [OF o(2), of f v] by (auto simp: sysI_def split: prod.splits sum.splits)
      with m1 show ?thesis
        by (auto simp: bindI_Inl open_full_def sysI_def split: prod.splits sum.splits)
    qed
    from obeys_scanD(5) [OF o(2) s this] have pre: "root_prefix r \<noteq> []" "fs_tree (view w) (root_prefix r) = None" by simp_all
    have "?T q = None" for q
    proof (rule ccontr)
      assume q: "?T q \<noteq> None"
      then have q': "q \<noteq> []" "fs_tree (view w) (place r q) \<noteq> None" by (auto simp: rel_def split: if_splits)
      have "is_dir (view w) (root_prefix r)"
        by (rule tree_ancestor [OF wf q'(2)]) (auto simp: child_path_def below_iff pre(1))
      with pre show False by (simp add: is_dir_def)
    qed
    then have "scanned ?T = (\<lambda>_. None)" by (auto simp: scanned_def fun_eq_iff)
    with rest False e1 show ?thesis by (auto simp: tree_of_def)
  next
    case True
    with rest obtain res w2 m where wk: "walk os sha r cks 130 [] \<lparr>sc_entries = [], sc_stamps = []\<rparr> w1 = (Inr res, w2)"
      and md: "metadata os r [] w2 = (Inr m, w')" and es: "sc_entries sc = sort_key e_path (sc_entries res)"
      and ok: "validate_manifest cks (sc_entries sc) = Inr ()"
      by (auto simp: bindI_Inr Let_def)
    have "tree_wf (view w1)" using wf extends_tree [OF e1] by (simp add: tree_wf_def is_dir_def)
    from walk_shown [OF o s wk this] have wv: "extends (view w1) (view w2)"
      "nodes_of (sc_entries res) = shown (rel r (view w1)) (inside [])" by auto
    have nodes: "nodes_of (sc_entries sc) = shown ?T (inside [])"
      using wv(2) extends_rel [OF e1] by (simp add: es nodes_of_def)
    have "tree_of (sc_entries sc) q = Some n \<longleftrightarrow> scanned ?T q = Some n" for q n
    proof -
      have "manifest_ok cks (sc_entries sc)" using ok by (simp add: validate_manifest_iff)
      from tree_of_Some [OF this] have "tree_of (sc_entries sc) q = Some n \<longleftrightarrow> (q, n) \<in> nodes_of (sc_entries sc)"
        by (auto simp: nodes_of_def)
      moreover have "q \<noteq> []" if "scanned ?T q = Some n"
        using scanned_Some [OF that] by (auto simp: rel_def)
      ultimately show ?thesis by (auto simp: nodes shown_def inside_def)
    qed
    then have "tree_of (sc_entries sc) = scanned ?T" by (intro ext) (metis option.exhaust)
    moreover have "extends (view w2) (view w')" by (rule growsD [OF grows_root_reads(1) [OF o(1) s] md])
    ultimately show ?thesis using e1 wv(1) by (blast intro: extends_trans)
  qed
  then show "tree_of (sc_entries sc) = scanned ?T" "extends (view w) (view w')" by simp_all
qed

section \<open>Plans and reserved names\<close>

text \<open>No step of a plan touches a reserved name, so each does to the scanned tree what it does to the tree.\<close>

lemma scanned_plain: "\<not> reserved q \<Longrightarrow> scanned t q = t q"
  by (auto simp: scanned_def reserved_def list_ex_iff dest: in_set_butlastD)

lemma scanned_upd: "\<not> reserved q \<Longrightarrow> scanned (t(q := x)) = (scanned t)(q := x)"
  using scanned_plain [of q] by (auto simp: fun_eq_iff) (auto simp: scanned_def)

lemma scanned_clear:
  "(\<And>e. e \<in> set es \<Longrightarrow> \<not> reserved (e_path e)) \<Longrightarrow> scanned (clear es t) = clear es (scanned t)"
  unfolding clear_def by (induction es arbitrary: t) (simp_all add: scanned_upd)

lemma planned_unreserved:
  assumes p: "plan src dst opt = Inr p"
  shows "i \<in> set (directories p) \<union> set (files p) \<Longrightarrow> \<not> reserved (e_path (src ! i))"
    "i < length src \<Longrightarrow> x \<in> set (conflict_list p (e_path (src ! i))) \<Longrightarrow> \<not> reserved (e_path x)"
    "x \<in> set (removals p) \<Longrightarrow> \<not> reserved (e_path x)"
proof -
  have plain: "\<not> reserved (e_path e)" if "e \<in> set src \<union> set dst" "e_kind e \<noteq> Protected" for e
    using that manifest_ok_entry [OF planD(1) [OF p]] manifest_ok_entry [OF planD(2) [OF p]]
    by (auto simp: entry_ok_def)
  show "i \<in> set (directories p) \<union> set (files p) \<Longrightarrow> \<not> reserved (e_path (src ! i))"
    unfolding planD(3) [OF p]
    by (rule plain) (auto simp: planned_directories planned_files made_def transferred_def)
  show "\<not> reserved (e_path x)" if i: "i < length src" and x: "x \<in> set (conflict_list p (e_path (src ! i)))"
  proof (rule plain)
    note c = planned_conflict_list [OF p i x]
    have "x \<in> set dst"
      using x planned_conflicts [OF planD(1) [OF p] nth_mem [OF i], of dst opt]
      unfolding conflict_list_def planD(3) [OF p] by (auto simp: replaced_def split: if_splits)
    then show "x \<in> set src \<union> set dst" by simp
    show "e_kind x \<noteq> Protected"
      using conflictingD(2) [OF p nth_mem [OF i] c(2)] c(1) \<open>x \<in> set dst\<close> by (auto simp: shields_def)
  qed
  show "x \<in> set (removals p) \<Longrightarrow> \<not> reserved (e_path x)"
    unfolding planD(3) [OF p] planned_removals
    by (rule plain) (auto simp: removed_def shielded_def)
qed

lemma scanned_put:
  assumes p: "plan src dst opt = Inr p" and i: "i \<in> set (directories p) \<union> set (files p)"
  shows "scanned (put_entry src p i t) = put_entry src p i (scanned t)"
proof -
  have "i < length src" using i unfolding planD(3) [OF p] by (auto simp: planned_directories planned_files)
  then show ?thesis
    using planned_unreserved(1) [OF p i] planned_unreserved(2) [OF p]
    by (simp add: put_entry_conflicts scanned_upd scanned_clear)
qed

lemma scanned_puts:
  assumes p: "plan src dst opt = Inr p"
  shows "set ks \<subseteq> set (directories p) \<union> set (files p) \<Longrightarrow>
    scanned (fold (put_entry src p) ks t) = fold (put_entry src p) ks (scanned t)"
  by (induction ks arbitrary: t) (simp_all add: scanned_put [OF p])

text \<open>The three steps on the scanned tree.\<close>

definition seen :: "root \<Rightarrow> fs_view \<Rightarrow> str \<Rightarrow> node option" where
  "seen r v = scanned (rel r v)"

lemma extends_seen: "extends v v' \<Longrightarrow> seen r v' = seen r v"
  by (simp add: seen_def extends_rel)

lemma prepare_seen:
  assumes "obeys os (root_fd r) view" "safe_name (root_prefix r)"
    and p: "plan src dst opt = Inr p" and "prepare os r src p w = (Inr (), w')"
  shows "seen r (view w') = fold (put_entry src p) (directories p) (seen r (view w))"
  unfolding seen_def prepare_refines [OF assms] by (rule scanned_puts [OF p]) simp

lemma install_seen:
  assumes "obeys os (root_fd r) view" "safe_name (root_prefix r)"
    and p: "plan src dst opt = Inr p" and i: "i \<in> set (files p)"
    and "e_path e = e_path (src ! i)" "e_size e = e_size (src ! i)" "e_mtime e = e_mtime (src ! i)"
      "e_ns e = e_ns (src ! i)" "install os sha r e dst p f w = (Inr (), w')"
  shows "seen r (view w') = put_entry src p i (seen r (view w))"
  unfolding seen_def install_refines [OF assms] by (rule scanned_put [OF p]) (use i in simp)

lemma finish_seen:
  assumes o: "obeys os (root_fd r) view" and s: "safe_name (root_prefix r)"
    and p: "plan src dst opt = Inr p" and run: "finish os r src p w = (Inr (), w')"
    and t: "seen r (view w) = fold (put_entry src p) ks (tree_of dst)"
    and ks: "set ks = set (directories p) \<union> set (files p)"
  shows "seen r (view w') = carry_out src p (tree_of dst)"
proof -
  have all: "scanned (clear (removals p) (rel r (view w))) = carry_out src p (tree_of dst)"
    using scanned_clear [of "removals p" "rel r (view w)"] planned_unreserved(3) [OF p] t
      carried_out(1) [OF p refl ks] by (simp add: seen_def)
  have "clear (removals p) (rel r (view w)) (e_path (src ! i)) = Some Directory_node"
    if i: "i \<in> set (directories p)" for i
  proof -
    have "scanned (clear (removals p) (rel r (view w))) (e_path (src ! i)) = Some Directory_node"
      using carried_out(2) [OF p refl ks i] by (simp add: all)
    then show ?thesis using planned_unreserved(1) [OF p, of i] i by (simp add: scanned_plain)
  qed
  from finish_refines [OF o s run this] show ?thesis by (simp add: seen_def all)
qed

section \<open>Properties\<close>


end
