(* ===== verification/Client1.thy ===== *)
theory Client1
  imports Engine1 Scan_Model
begin

text \<open>
  The client of protocol version 1 (\<open>src/engine.rs\<close>: \<open>request\<close>, \<open>ok\<close>, \<open>synchronize\<close>) over a
  \<open>SyncTransport\<close>. The transport is a trait of this crate whose implementations own framing and
  delivery; it is the record \<open>link\<close> of its four methods, each a function of the world. Deadlines are
  passed on as they are.
\<close>

section \<open>The transport and the requests\<close>

record 'w link =
  l_request :: "byte list \<Rightarrow> nat \<Rightarrow> 'w \<Rightarrow> byte list res \<times> 'w"
  l_send_file :: "fd \<Rightarrow> u64 \<Rightarrow> nat \<Rightarrow> 'w \<Rightarrow> hash res \<times> 'w"
  l_receive_file :: "u64 \<Rightarrow> nat \<Rightarrow> 'w \<Rightarrow> received_file res \<times> 'w"
  l_close :: "'w \<Rightarrow> unit res \<times> 'w"

definition callI :: "('w \<Rightarrow> 'a res \<times> 'w) \<Rightarrow> ('w, 'a) io" where
  "callI c w = (case c w of (r, w') \<Rightarrow> (may r, w'))"

definition remote_error :: "byte \<Rightarrow> str \<Rightarrow> error" where
  "remote_error code t = Protocol (ascii ''remote error '' @ decimal (unat code) @ ascii '': '' @ t)"

definition request :: "'w link \<Rightarrow> message \<Rightarrow> nat \<Rightarrow> ('w, message) io" where
  "request link m deadline =
     bindI (liftI (encode m)) (\<lambda>bytes.
     bindI (callI (l_request link bytes deadline)) (\<lambda>response.
     bindI (liftI (decode response)) (\<lambda>result.
       case result of
         Error code t \<Rightarrow> failI (remote_error code t)
       | _ \<Rightarrow> returnI result)))"

definition expect_ok :: "'w link \<Rightarrow> message \<Rightarrow> nat \<Rightarrow> ('w, unit) io" where
  "expect_ok link m deadline =
     bindI (request link m deadline) (\<lambda>result.
       if result \<noteq> Ok then protocol_error ''expected OK'' else returnI ())"

section \<open>One synchronization\<close>

record job =
  j_push :: bool
  j_path :: str
  j_options :: options
  j_deadline :: nat

definition push_file ::
  "'w os \<Rightarrow> 'w link \<Rightarrow> nat \<Rightarrow> root \<Rightarrow> scan_result \<Rightarrow> manifest \<Rightarrow> nat \<Rightarrow> ('w, unit) io" where
  "push_file os link deadline r sc src index =
     bindI (indexI src index) (\<lambda>e.
     bindI (presentI (bt_get (sc_stamps sc) (e_path e))) (\<lambda>st.
     bindI (snapshot os r (e_path e) st) (\<lambda>f.
     bindI (expect_ok link (Begin (word_of_nat index)) deadline) (\<lambda>_.
     bindI (callI (l_send_file link f (e_size e) deadline)) (\<lambda>resource.
     bindI (ensure_unchanged os r (e_path e) st) (\<lambda>_.
       expect_ok link (Commit (word_of_nat index) resource) deadline))))))"

definition pull_file ::
  "'w os \<Rightarrow> (byte list \<Rightarrow> hash) \<Rightarrow> 'w link \<Rightarrow> nat \<Rightarrow> root \<Rightarrow> manifest \<Rightarrow> manifest \<Rightarrow> sync_plan \<Rightarrow> nat \<Rightarrow> ('w, unit) io" where
  "pull_file os sha link deadline r src dst p index =
     bindI (indexI src index) (\<lambda>e.
     bindI (expect_ok link (Get (word_of_nat index)) deadline) (\<lambda>_.
     bindI (callI (l_receive_file link (e_size e) deadline)) (\<lambda>received.
       if rf_size received \<noteq> e_size e \<or> rf_metadata received
       then protocol_error ''unexpected file transfer''
       else bindI (expect_ok link (Verified (word_of_nat index)) deadline) (\<lambda>_.
            install os sha r e dst p (rf_file received)))))"

definition synchronize_inner ::
  "'w os \<Rightarrow> (byte list \<Rightarrow> hash) \<Rightarrow> 'w link \<Rightarrow> root \<Rightarrow> scan_result \<Rightarrow> job \<Rightarrow> (sync_plan \<Rightarrow> ('w, unit) io)
     \<Rightarrow> ('w, unit) io" where
  "synchronize_inner os sha link r sc j on_plan =
     bindI (request link (Start (j_push j) (j_options j) (j_path j) (sc_entries sc)) (j_deadline j)) (\<lambda>reply.
       case reply of
         Manifest theirs \<Rightarrow>
           (let (src, dst) = (if j_push j then (sc_entries sc, theirs) else (theirs, sc_entries sc)) in
            bindI (liftI (plan src dst (j_options j))) (\<lambda>p.
            bindI (on_plan p) (\<lambda>_.
              if dry_run (j_options j) then expect_ok link Finish (j_deadline j)
              else
                bindI (if \<not> j_push j then prepare os r src p else returnI ()) (\<lambda>_.
                bindI (eachI (\<lambda>index.
                  if j_push j then push_file os link (j_deadline j) r sc src index
                  else pull_file os sha link (j_deadline j) r src dst p index) (files p)) (\<lambda>_.
                bindI (if j_push j then check_source os r sc else returnI ()) (\<lambda>_.
                bindI (expect_ok link Finish (j_deadline j)) (\<lambda>_.
                  if \<not> j_push j then finish os r src p else returnI ())))))))
       | _ \<Rightarrow> protocol_error ''expected manifest'')"

text \<open>The connection is closed whatever the result, and a failing close changes nothing about it.\<close>

definition synchronize ::
  "'w os \<Rightarrow> (byte list \<Rightarrow> hash) \<Rightarrow> 'w link \<Rightarrow> root \<Rightarrow> scan_result \<Rightarrow> job \<Rightarrow> (sync_plan \<Rightarrow> ('w, unit) io)
     \<Rightarrow> ('w, unit) io" where
  "synchronize os sha link r sc j on_plan =
     finallyI (synchronize_inner os sha link r sc j on_plan) (\<lambda>w. snd (l_close link w))"

section \<open>What the transport may do to the file system\<close>

text \<open>The methods of the transport and the observer of the plan leave the tree alone.\<close>

definition link_apart :: "'w link \<Rightarrow> (sync_plan \<Rightarrow> ('w, unit) io) \<Rightarrow> ('w \<Rightarrow> fs_view) \<Rightarrow> bool" where
  "link_apart link on_plan view \<longleftrightarrow>
     (\<forall>b d w. extends (view w) (view (snd (l_request link b d w))))
     \<and> (\<forall>f s d w. extends (view w) (view (snd (l_send_file link f s d w))))
     \<and> (\<forall>s d w. extends (view w) (view (snd (l_receive_file link s d w))))
     \<and> (\<forall>w. extends (view w) (view (snd (l_close link w))))
     \<and> (\<forall>p w. extends (view w) (view (snd (on_plan p w))))"

lemma grows_call: "(\<And>w. extends (view w) (view (snd (c w)))) \<Longrightarrow> grows view (callI c)"
  unfolding steps_def callI_def
  by (auto split: prod.split intro!: r_into_rtranclp) (metis snd_conv)+

lemma callI_Inr [io_simps]: "callI c w = (Inr x, w') \<longleftrightarrow> c w = (Inr x, w')"
  by (auto simp: callI_def may_def split: prod.splits sum.splits)

lemma grows_link [steps_rules]:
  assumes "link_apart link on_plan view"
  shows "grows view (request link m d)" "grows view (expect_ok link m d)"
    "grows view (callI (l_send_file link f s d))" "grows view (callI (l_receive_file link s d))" "grows view (on_plan p)"
proof -
  show r: "grows view (request link m d)" for m
    unfolding request_def
    by (rule steps_bind_lift, rule steps_bind, rule grows_call, use assms in \<open>simp add: link_apart_def\<close>,
        rule steps_bind_lift) (auto intro: steps_rules split: message.split)
  show "grows view (expect_ok link m d)"
    by (auto simp: expect_ok_def protocol_error_def intro!: steps_rules r)
  show "grows view (callI (l_send_file link f s d))" "grows view (callI (l_receive_file link s d))"
    using assms by (auto intro!: grows_call simp: link_apart_def)
  show "grows view (on_plan p)"
    using assms by (auto simp: steps_def link_apart_def intro!: r_into_rtranclp)
qed

lemma request_Inr:
  assumes "request link m d w = (Inr x, w')"
  obtains bytes response where "encode m = Inr bytes" "l_request link bytes d w = (Inr response, w')"
    "decode response = Inr x"
proof -
  from assms obtain bytes response w1 y where *: "encode m = Inr bytes"
    "l_request link bytes d w = (Inr response, w1)" "decode response = Inr y"
    "(case y of Error code t \<Rightarrow> failI (remote_error code t) | _ \<Rightarrow> returnI y) w1 = (Inr x, w')"
    by (auto simp: request_def io_simps)
  then have "y = x \<and> w1 = w'" by (cases y) auto
  with * that show ?thesis by blast
qed

section \<open>Pulling\<close>

lemma pull_file_seen:
  assumes o: "obeys os (root_fd r) view" and s: "safe_name (root_prefix r)" and l: "link_apart link on_plan view"
    and p: "plan src dst opt = Inr p" and i: "i \<in> set (files p)"
    and run: "pull_file os sha link d r src dst p i w = (Inr (), w')"
  shows "seen r (view w') = put_entry src p i (seen r (view w))"
proof -
  from run obtain u w1 f w2 v w3 where a: "expect_ok link (Get (word_of_nat i)) d w = (Inr u, w1)"
    and b: "callI (l_receive_file link (e_size (src ! i)) d) w1 = (Inr f, w2)"
    and c: "expect_ok link (Verified (word_of_nat i)) d w2 = (Inr v, w3)"
    and inst: "install os sha r (src ! i) dst p (rf_file f) w3 = (Inr (), w')"
    by (auto simp: pull_file_def bindI_Inr indexI_Inr split: if_splits)
  have "extends (view w) (view w3)"
    using growsD [OF grows_link(2) [OF l] a] growsD [OF grows_link(4) [OF l] b] growsD [OF grows_link(2) [OF l] c]
    by (blast intro: extends_trans)
  with install_seen [OF o s p i refl refl refl refl inst] show ?thesis by (simp add: extends_seen)
qed

text \<open>What a pull does once it has the plan, over the function that pulls a file.\<close>

lemma pull_run:
  assumes o: "obeys os (root_fd r) view" and s: "safe_name (root_prefix r)" and p: "plan src dst opt = Inr p"
    and start: "seen r (view w) = tree_of dst"
    and pull: "\<And>i v v'. i \<in> set (files p) \<Longrightarrow> pull i v = (Inr (), v')
      \<Longrightarrow> seen r (view v') = put_entry src p i (seen r (view v))"
    and fin: "grows view fin"
    and run: "bindI (prepare os r src p) (\<lambda>_. bindI (eachI pull (files p)) (\<lambda>_.
        bindI fin (\<lambda>_. finish os r src p))) w = (Inr (), w')"
  shows "seen r (view w') = carry_out src p (tree_of dst)"
proof -
  from run obtain u2 w3 u3 w4 u4 w5 where pr: "prepare os r src p w = (Inr u2, w3)"
    and ea: "eachI pull (files p) w3 = (Inr u3, w4)"
    and fo: "fin w4 = (Inr u4, w5)" and fi: "finish os r src p w5 = (Inr (), w')"
    by (auto simp: bindI_Inr)
  have r3: "seen r (view w3) = fold (put_entry src p) (directories p) (tree_of dst)"
    using prepare_seen [OF o s p, of w w3] pr start by simp
  have r4: "seen r (view w4) = fold (put_entry src p) (files p) (seen r (view w3))"
  proof (rule eachI_world [OF ea])
    fix ys i zs v1 v2
    assume f: "files p = ys @ i # zs" and P: "seen r (view v1) = fold (put_entry src p) ys (seen r (view w3))"
      and st: "pull i v1 = (Inr (), v2)"
    have "i \<in> set (files p)" by (simp add: f)
    from pull [OF this st] P show "seen r (view v2) = fold (put_entry src p) (ys @ [i]) (seen r (view w3))" by simp
  qed simp
  have r5: "seen r (view w5) = fold (put_entry src p) (directories p @ files p) (tree_of dst)"
    using extends_seen [OF growsD [OF fin fo]] r4 r3 by simp
  show ?thesis by (rule finish_seen [OF o s p fi r5]) simp
qed

lemma pull_result:
  assumes o: "obeys os (root_fd r) view" and s: "safe_name (root_prefix r)" and l: "link_apart link on_plan view"
    and job: "\<not> j_push j" "\<not> dry_run (j_options j)"
    and start: "seen r (view w) = tree_of (sc_entries sc)"
    and run: "synchronize os sha link r sc j on_plan w = (Inr (), w')"
  shows "\<exists>bytes response w1 theirs p.
    encode (Start False (j_options j) (j_path j) (sc_entries sc)) = Inr bytes
    \<and> l_request link bytes (j_deadline j) w = (Inr response, w1) \<and> decode response = Inr (Manifest theirs)
    \<and> plan theirs (sc_entries sc) (j_options j) = Inr p
    \<and> seen r (view w') = carry_out theirs p (seen r (view w))"
proof -
  let ?dst = "sc_entries sc" let ?d = "j_deadline j"
  from run obtain w9 where inner: "synchronize_inner os sha link r sc j on_plan w = (Inr (), w9)"
    and close: "w' = snd (l_close link w9)"
    by (auto simp: synchronize_def finallyI_Inr)
  from inner obtain reply w0 where rq0: "request link (Start (j_push j) (j_options j) (j_path j) ?dst) ?d w = (Inr reply, w0)"
    unfolding synchronize_inner_def bindI_Inr by blast
  from inner job rq0 obtain theirs w1 where rq: "request link (Start False (j_options j) (j_path j) ?dst) ?d w = (Inr (Manifest theirs), w1)"
    and rest: "bindI (liftI (plan theirs ?dst (j_options j))) (\<lambda>p.
            bindI (on_plan p) (\<lambda>_.
                bindI (prepare os r theirs p) (\<lambda>_.
                bindI (eachI (\<lambda>index. pull_file os sha link ?d r theirs ?dst p index) (files p)) (\<lambda>_.
                bindI (expect_ok link Finish ?d) (\<lambda>_. finish os r theirs p))))) w1 = (Inr (), w9)"
    by (cases reply) (auto simp: synchronize_inner_def bindI_Inr [of "request _ _ _"] Let_def)
  from rest obtain p u1 w2 where p: "plan theirs ?dst (j_options j) = Inr p"
    and op: "on_plan p w1 = (Inr u1, w2)"
    and body: "bindI (prepare os r theirs p) (\<lambda>_. bindI (eachI (\<lambda>index. pull_file os sha link ?d r theirs ?dst p index) (files p)) (\<lambda>_.
        bindI (expect_ok link Finish ?d) (\<lambda>_. finish os r theirs p))) w2 = (Inr (), w9)"
    by (auto simp: bindI_Inr [of "on_plan _"] bindI_Inr [of "liftI _"] pureI_def may_def split: sum.splits)
  have "extends (view w) (view w2)"
    using growsD [OF grows_link(1) [OF l] rq] growsD [OF grows_link(5) [OF l] op] by (rule extends_trans)
  then have r2: "seen r (view w2) = tree_of ?dst" using start by (simp add: extends_seen)
  have "seen r (view w9) = carry_out theirs p (tree_of ?dst)"
    by (rule pull_run [OF o s p r2 pull_file_seen [OF o s l p] grows_link(2) [OF l] body])
  moreover have "extends (view w9) (view w')"
    using l unfolding close by (simp add: link_apart_def)
  ultimately have "seen r (view w') = carry_out theirs p (seen r (view w))"
    using start by (simp add: extends_seen)
  moreover from request_Inr [OF rq] obtain bytes response where "encode (Start False (j_options j) (j_path j) ?dst) = Inr bytes"
    "l_request link bytes ?d w = (Inr response, w1)" "decode response = Inr (Manifest theirs)" by blast
  ultimately show ?thesis using p by blast
qed

text \<open>C2: A pull carries the plan out. When a pull that is no dry run reports success, the server answered
  START with a manifest, and the local tree, which was as scanned before, is what carrying out the plan
  for that manifest makes of it. The hypotheses are the documented effects of the system calls, and that
  the transport and the observer of the plan leave the local tree alone.\<close>

theorem pull_carries_out:
  assumes o: "obeys os (root_fd r) view" and s: "safe_name (root_prefix r)" and l: "link_apart link on_plan view"
    and job: "\<not> j_push j" "\<not> dry_run (j_options j)"
    and start: "seen r (view w) = tree_of (sc_entries sc)"
    and run: "synchronize os sha link r sc j on_plan w = (Inr (), w')"
  shows "\<exists>bytes response w1 theirs p.
    encode (Start False (j_options j) (j_path j) (sc_entries sc)) = Inr bytes
    \<and> l_request link bytes (j_deadline j) w = (Inr response, w1) \<and> decode response = Inr (Manifest theirs)
    \<and> plan theirs (sc_entries sc) (j_options j) = Inr p
    \<and> seen r (view w') = carry_out theirs p (seen r (view w))"
  by (rule pull_result [OF assms])

end
