(* ===== verification/Client2.thy ===== *)
theory Client2
  imports Engine2 Client1
begin

text \<open>
  The client of protocol version 2 (\<open>src/engine/v2.rs\<close>: \<open>request\<close>, \<open>ok\<close>, \<open>Resume\<close>, \<open>synchronize\<close>) over
  the transport of \<open>Client1\<close>. While a file is pulled the client holds its store, which is dropped on
  every way out of the loop's body and then records its activity. The body therefore runs in a world
  that has the store beside it: an operation that fails leaves the store as it was, one that succeeds
  leaves the time it has recorded, and \<open>holding\<close> drops what the body has left.
\<close>

section \<open>Holding a store\<close>

definition on_world :: "('w, 'a) io \<Rightarrow> ('w \<times> store, 'a) io" where
  "on_world m ws = (case m (fst ws) of (r, w') \<Rightarrow> (r, w', snd ws))"

definition with_store :: "(store \<Rightarrow> ('w, 'a) io) \<Rightarrow> ('w \<times> store, 'a) io" where
  "with_store f ws = (case f (snd ws) (fst ws) of (r, w') \<Rightarrow> (r, w', snd ws))"

definition set_store :: "(store \<Rightarrow> ('w, store) io) \<Rightarrow> ('w \<times> store, unit) io" where
  "set_store f ws =
     (case f (snd ws) (fst ws) of
        (Inr st, w') \<Rightarrow> (Inr (), w', st)
      | (Inl e, w') \<Rightarrow> (Inl e, w', snd ws))"

definition holding ::
  "'w os \<Rightarrow> (byte list \<Rightarrow> hash) \<Rightarrow> store \<Rightarrow> ('w \<times> store, 'a) io \<Rightarrow> ('w, 'a) io" where
  "holding os sha st body w = (case body (w, st) of (r, w', st') \<Rightarrow> (r, store_drop os sha st' w'))"

section \<open>Requests\<close>

text \<open>
  Decoding a description makes the temporary file of its table. \<open>Busy\<close> is no error of the decoder, so
  that it marks that the decoder has got to making it.
\<close>

definition decode_reply :: "'w os \<Rightarrow> (byte list \<Rightarrow> hash) \<Rightarrow> byte list \<Rightarrow> ('w, message2) io" where
  "decode_reply os sha bytes =
     bindI (if decode2 sha (Inl Busy) bytes = Inl Busy
            then bindI (sysI (os_tempfile os)) (\<lambda>_. returnI ()) else returnI ()) (\<lambda>_.
       liftI (decode2 sha (Inr ()) bytes))"

definition request2 :: "'w os \<Rightarrow> (byte list \<Rightarrow> hash) \<Rightarrow> 'w link \<Rightarrow> message2 \<Rightarrow> nat \<Rightarrow> ('w, message2) io" where
  "request2 os sha link m deadline =
     bindI (liftI (encode2 m)) (\<lambda>bytes.
     bindI (callI (l_request link bytes deadline)) (\<lambda>response.
     bindI (decode_reply os sha response) (\<lambda>m.
       case m of
         Common (Error code t) \<Rightarrow> failI (Remote code t)
       | _ \<Rightarrow> returnI m)))"

definition expect_ok2 :: "'w os \<Rightarrow> (byte list \<Rightarrow> hash) \<Rightarrow> 'w link \<Rightarrow> message2 \<Rightarrow> nat \<Rightarrow> ('w, unit) io" where
  "expect_ok2 os sha link m deadline =
     bindI (request2 os sha link m deadline) (\<lambda>reply.
       if reply \<noteq> Common Ok then invalidI ''expected v2 OK'' else returnI ())"

record resume =
  re_cache :: cache
  re_peer :: ident
  re_chunk_size :: u32

text \<open>\<open>(0..n).step_by(PAGE_CHUNKS)\<close>.\<close>

definition page_starts :: "nat \<Rightarrow> nat list" where
  "page_starts n = filter (\<lambda>i. i mod PAGE_CHUNKS = 0) [0..<n]"

section \<open>Pushing a file\<close>

definition push_chunk ::
  "'w os \<Rightarrow> (byte list \<Rightarrow> hash) \<Rightarrow> 'w link \<Rightarrow> nat \<Rightarrow> fd \<Rightarrow> description \<Rightarrow> u32 \<Rightarrow> u32 \<Rightarrow> ('w, unit) io" where
  "push_chunk os sha link deadline source d index chunk =
     bindI (chunk_file os source d (unat chunk)) (\<lambda>part.
     bindI (expect_ok2 os sha link (ChunkBegin index chunk) deadline) (\<lambda>_.
     bindI (pureI (chunk_length d (unat chunk))) (\<lambda>len.
     bindI (callI (l_send_file link part len deadline)) (\<lambda>resource.
       expect_ok2 os sha link (ChunkCommit index chunk resource) deadline))))"

definition push_page ::
  "'w os \<Rightarrow> (byte list \<Rightarrow> hash) \<Rightarrow> 'w link \<Rightarrow> nat \<Rightarrow> fd \<Rightarrow> description \<Rightarrow> byte list \<Rightarrow> u32 \<Rightarrow> nat \<Rightarrow> ('w, unit) io" where
  "push_page os sha link deadline source d table index start =
     bindI (pureI (page d table start)) (\<lambda>hashes.
     bindI (request2 os sha link (Hashes index (word_of_nat start) hashes) deadline) (\<lambda>reply.
       case reply of
         Missing actual actual_start actual_count cs \<Rightarrow>
           if actual \<noteq> index \<or> actual_start \<noteq> word_of_nat start \<or> unat actual_count \<noteq> length hashes
           then invalidI ''unexpected missing page''
           else bindI (liftI (validate_missing cs actual_start (length hashes))) (\<lambda>_.
                  eachI (push_chunk os sha link deadline source d index) cs)
       | _ \<Rightarrow> invalidI ''expected missing page''))"

definition push_file2 ::
  "'w os \<Rightarrow> (byte list \<Rightarrow> hash) \<Rightarrow> 'w link \<Rightarrow> nat \<Rightarrow> u32 \<Rightarrow> root \<Rightarrow> scan_result \<Rightarrow> manifest \<Rightarrow> nat \<Rightarrow> ('w, unit) io" where
  "push_file2 os sha link deadline csize r sc src i =
     (let index = word_of_nat i in
      bindI (indexI src i) (\<lambda>e.
      bindI (presentI (bt_get (sc_stamps sc) (e_path e))) (\<lambda>st.
      bindI (snapshot os r (e_path e) st) (\<lambda>file.
      bindI (scan_file os sha file csize) (\<lambda>(d, table).
      bindI (liftI (validate_description e d)) (\<lambda>_.
      bindI (expect_ok2 os sha link (Description index d) deadline) (\<lambda>_.
      bindI (pureI (chunks d)) (\<lambda>n.
      bindI (eachI (push_page os sha link deadline file d table index) (page_starts n)) (\<lambda>_.
      bindI (ensure_unchanged os r (e_path e) st) (\<lambda>_.
        expect_ok2 os sha link (FileCommit index) deadline))))))))))"

section \<open>Pulling a file\<close>

definition pull_chunk ::
  "'w os \<Rightarrow> (byte list \<Rightarrow> hash) \<Rightarrow> 'w link \<Rightarrow> nat \<Rightarrow> description \<Rightarrow> byte list \<Rightarrow> u32 \<Rightarrow> nat \<Rightarrow> ('w \<times> store, unit) io" where
  "pull_chunk os sha link deadline d table index chunk =
     bindI (on_world (expect_ok2 os sha link (ChunkGet index (word_of_nat chunk)) deadline)) (\<lambda>_.
     bindI (pureI (chunk_length d chunk)) (\<lambda>sz.
     bindI (on_world (callI (l_receive_file link sz deadline))) (\<lambda>received.
       if rf_metadata received \<or> rf_size received \<noteq> sz then invalidI ''unexpected chunk Resource''
       else bindI (set_store (\<lambda>st. store_receive os sha st table chunk (File_reader (rf_file received)))) (\<lambda>_.
            on_world (expect_ok2 os sha link (ChunkVerified index (word_of_nat chunk)) deadline)))))"

definition pull_page ::
  "'w os \<Rightarrow> (byte list \<Rightarrow> hash) \<Rightarrow> 'w link \<Rightarrow> nat \<Rightarrow> description \<Rightarrow> u32 \<Rightarrow> nat \<Rightarrow> byte list
     \<Rightarrow> ('w \<times> store, byte list) io" where
  "pull_page os sha link deadline d index start table =
     bindI (on_world (request2 os sha link (HashesGet index (word_of_nat start)) deadline)) (\<lambda>reply.
       case reply of
         Hashes actual actual_start hashes \<Rightarrow>
           if actual \<noteq> index \<or> unat actual_start \<noteq> start then invalidI ''unexpected hash page''
           else bindI (pureI (set_page d start hashes table)) (\<lambda>table.
                bindI (with_store (\<lambda>st. store_missing os sha st table start)) (\<lambda>missing.
                bindI (eachI (pull_chunk os sha link deadline d table index) missing) (\<lambda>_.
                  returnI table)))
       | _ \<Rightarrow> invalidI ''expected hash page'')"

definition pull_held ::
  "'w os \<Rightarrow> (byte list \<Rightarrow> hash) \<Rightarrow> 'w link \<Rightarrow> nat \<Rightarrow> root \<Rightarrow> entry \<Rightarrow> manifest \<Rightarrow> sync_plan \<Rightarrow> description \<Rightarrow> u32
     \<Rightarrow> ('w \<times> store, unit) io" where
  "pull_held os sha link deadline r e dst p d index =
     bindI (pureI (chunks d)) (\<lambda>n.
     bindI (foldI (pull_page os sha link deadline d index) (page_starts n) []) (\<lambda>table.
     bindI (with_store (\<lambda>st. store_assemble os sha st table)) (\<lambda>file.
     bindI (on_world (expect_ok2 os sha link (FileVerified index) deadline)) (\<lambda>_.
     bindI (on_world (install os sha r (e\<lparr>e_hash := Some (d_hash d)\<rparr>) dst p file)) (\<lambda>_.
       set_store (clear_committed os sha))))))"

definition pull_file2 ::
  "'w os \<Rightarrow> (byte list \<Rightarrow> hash) \<Rightarrow> (byte list \<Rightarrow> str) \<Rightarrow> 'w link \<Rightarrow> nat \<Rightarrow> resume \<Rightarrow> str \<Rightarrow> root \<Rightarrow> manifest \<Rightarrow> manifest
     \<Rightarrow> sync_plan \<Rightarrow> nat \<Rightarrow> ('w, unit) io" where
  "pull_file2 os sha hex link deadline re path r src dst p i =
     (let index = word_of_nat i in
      bindI (indexI src i) (\<lambda>e.
      bindI (request2 os sha link (Describe index (re_chunk_size re)) deadline) (\<lambda>reply.
        case reply of
          Description actual d \<Rightarrow>
            if actual \<noteq> index \<or> d_chunk_size d \<noteq> re_chunk_size re then invalidI ''unexpected description''
            else bindI (liftI (validate_description e d)) (\<lambda>_.
                 bindI (cache_open os sha hex (re_cache re) (re_peer re) False path e d) (\<lambda>st.
                   holding os sha st (pull_held os sha link deadline r e dst p d index)))
        | _ \<Rightarrow> invalidI ''expected description'')))"

section \<open>One synchronization\<close>

definition synchronize_inner2 ::
  "'w os \<Rightarrow> (byte list \<Rightarrow> hash) \<Rightarrow> (byte list \<Rightarrow> str) \<Rightarrow> 'w link \<Rightarrow> root \<Rightarrow> scan_result \<Rightarrow> job \<Rightarrow> resume
     \<Rightarrow> (sync_plan \<Rightarrow> ('w, unit) io) \<Rightarrow> ('w, unit) io" where
  "synchronize_inner2 os sha hex link r sc j re on_plan =
     (let deadline = j_deadline j in
      bindI (liftI (count 0 (re_chunk_size re))) (\<lambda>_.
      bindI (request2 os sha link (Common (Start (j_push j) (j_options j) (j_path j) (sc_entries sc))) deadline) (\<lambda>reply.
        case reply of
          Common (Manifest theirs) \<Rightarrow>
            (let (src, dst) = (if j_push j then (sc_entries sc, theirs) else (theirs, sc_entries sc)) in
             bindI (liftI (plan src dst (j_options j))) (\<lambda>p.
             bindI (on_plan p) (\<lambda>_.
               if dry_run (j_options j) then expect_ok2 os sha link (Common Finish) deadline
               else
                 bindI (if \<not> j_push j then prepare os r src p else returnI ()) (\<lambda>_.
                 bindI (eachI (\<lambda>i.
                   if j_push j then push_file2 os sha link deadline (re_chunk_size re) r sc src i
                   else pull_file2 os sha hex link deadline re (j_path j) r src dst p i) (files p)) (\<lambda>_.
                 bindI (if j_push j then check_source os r sc else returnI ()) (\<lambda>_.
                 bindI (expect_ok2 os sha link (Common Finish) deadline) (\<lambda>_.
                   if \<not> j_push j then finish os r src p else returnI ())))))))
        | _ \<Rightarrow> invalidI ''expected manifest'')))"

definition synchronize2 ::
  "'w os \<Rightarrow> (byte list \<Rightarrow> hash) \<Rightarrow> (byte list \<Rightarrow> str) \<Rightarrow> 'w link \<Rightarrow> root \<Rightarrow> scan_result \<Rightarrow> job \<Rightarrow> resume
     \<Rightarrow> (sync_plan \<Rightarrow> ('w, unit) io) \<Rightarrow> ('w, unit) io" where
  "synchronize2 os sha hex link r sc j re on_plan =
     finallyI (synchronize_inner2 os sha hex link r sc j re on_plan) (\<lambda>w. snd (l_close link w))"

end
