(* ===== verification/Startup.thy ===== *)
theory Startup
  imports Client2
begin

text \<open>
  What happens before a session: the directories the program is started on (\<open>src/fs.rs\<close>: \<open>Root::destination\<close>,
  \<open>Root::resolved_path\<close>), its configuration directory (\<open>src/config.rs\<close>: \<open>default_directory\<close>,
  \<open>load_directory\<close>), the place of the chunk cache and the identity (\<open>src/transport.rs\<close>: \<open>cache\<close>, \<open>identity\<close>,
  \<open>runtime\<close>). The calls of \<open>std\<close> and \<open>tempfile\<close> these make beyond those of \<open>Os\<close> are the fields of a second
  record. Paths are compared as \<open>std::path::Path\<close> does, by their components.
\<close>

section \<open>The environment\<close>

text \<open>\<open>en_display\<close> is the lossy text of a path that need not be UTF-8; \<open>en_persist\<close> is \<open>persist_noclobber\<close>
  and \<open>en_discard\<close> the removal of a named temporary file that was not persisted.\<close>

record 'w env =
  en_absolute :: "str \<Rightarrow> 'w \<Rightarrow> str sys \<times> 'w"
  en_try_exists :: "str \<Rightarrow> 'w \<Rightarrow> bool sys \<times> 'w"
  en_exists :: "str \<Rightarrow> 'w \<Rightarrow> bool \<times> 'w"
  en_is_file :: "str \<Rightarrow> 'w \<Rightarrow> bool \<times> 'w"
  en_is_dir :: "str \<Rightarrow> 'w \<Rightarrow> bool \<times> 'w"
  en_read_link :: "fd \<Rightarrow> 'w \<Rightarrow> str sys \<times> 'w"
  en_read_string :: "str \<Rightarrow> 'w \<Rightarrow> str sys \<times> 'w"
  en_named_temp :: "str \<Rightarrow> 'w \<Rightarrow> fd sys \<times> 'w"
  en_persist :: "fd \<Rightarrow> str \<Rightarrow> 'w \<Rightarrow> unit sys \<times> 'w"
  en_discard :: "fd \<Rightarrow> 'w \<Rightarrow> 'w"
  en_display :: "str \<Rightarrow> str"
  en_home :: "str option"

definition asks :: "('w \<Rightarrow> 'a \<times> 'w) \<Rightarrow> ('w, 'a) io" where
  "asks c w = (case c w of (x, w') \<Rightarrow> (Inr x, w'))"

section \<open>Paths\<close>

definition path_parts :: "str \<Rightarrow> str list" where
  "path_parts p = filter (\<lambda>c. c \<noteq> [] \<and> c \<noteq> dot) (components p)"

definition path_of :: "str list \<Rightarrow> str" where
  "path_of cs = slash # join_with slash cs"

text \<open>\<open>a.starts_with(b)\<close> for absolute paths.\<close>

definition path_within :: "str \<Rightarrow> str \<Rightarrow> bool" where
  "path_within a b \<longleftrightarrow> prefix (path_parts b) (path_parts a)"

section \<open>Roots\<close>

text \<open>The loop of \<open>destination\<close> over the components of the path from the last to the first; a last component
  that is \<open>..\<close> has no file name.\<close>

fun existing_base :: "'w env \<Rightarrow> str \<Rightarrow> str list \<Rightarrow> str list \<Rightarrow> ('w, str list \<times> str list) io" where
  "existing_base en path [] names =
     bindI (sysI (en_try_exists en (path_of []))) (\<lambda>there.
       if there then returnI ([], names) else failI (InvalidPath (en_display en path)))"
| "existing_base en path (c # cs) names =
     bindI (sysI (en_try_exists en (path_of (rev (c # cs))))) (\<lambda>there.
       if there then returnI (c # cs, names)
       else if c = dotdot then failI (InvalidPath (en_display en path))
       else if \<not> valid_utf8 c then failI (InvalidPath (ascii ''non-UTF-8 root''))
       else existing_base en path cs (names @ [c]))"

definition destination :: "'w os \<Rightarrow> 'w env \<Rightarrow> str \<Rightarrow> ('w, root) io" where
  "destination os en path =
     bindI (sysI (en_absolute en path)) (\<lambda>absolute.
     bindI (existing_base en path (rev (path_parts absolute)) []) (\<lambda>(base, names).
     bindI (root_open os (path_of (rev base))) (\<lambda>r.
       let pre = join_with slash (rev names) in
       bindI (if pre \<noteq> [] then liftI (validate pre) else returnI ()) (\<lambda>_.
         returnI (r\<lparr>root_prefix := pre\<rparr>)))))"

definition resolved_path :: "'w env \<Rightarrow> root \<Rightarrow> ('w, str) io" where
  "resolved_path en r =
     bindI (sysI (en_read_link en (root_fd r))) (\<lambda>p. returnI (path_join p (root_prefix r)))"

section \<open>The chunk cache\<close>

definition cache_limits :: "resume_config \<Rightarrow> limits" where
  "cache_limits rs =
     \<lparr>limits.max_bytes = resume_config.max_bytes rs, max_transfers = unat (resume_config.max_transfers rs),
      retention_seconds = resume_config.retention_seconds rs\<rparr>"

text \<open>What is left out of a resume configuration.\<close>

definition default_resume :: "u32 \<Rightarrow> resume_config" where
  "default_resume chunk =
     \<lparr>chunk_size = chunk, directory = ascii ''transfers'', max_bytes = 512 * 1024 * 1024, max_transfers = 128,
      retention_seconds = 7 * 24 * 60 * 60\<rparr>"

lemma default_resume_ok: "resume_ok (default_resume chunk) \<longleftrightarrow> MIN_CHUNK_SIZE \<le> chunk \<and> chunk \<le> MAX_CHUNK_SIZE"
  by (simp add: resume_ok_def default_resume_def MAX_ENTRIES_def)

definition cache_of :: "'w os \<Rightarrow> 'w env \<Rightarrow> config \<Rightarrow> root \<Rightarrow> ('w, cache option) io" where
  "cache_of os en cfg r =
     (case resume cfg of
        None \<Rightarrow> returnI None
      | Some rs \<Rightarrow>
          bindI (resolved_path en r) (\<lambda>root_path.
          bindI (destination os en (directory rs)) (\<lambda>d.
          bindI (resolved_path en d) (\<lambda>dir.
            if path_within dir root_path \<or> path_within root_path dir
            then config_error ''resume directory must be outside the synchronized tree''
            else if \<not> valid_utf8 root_path then config_error ''non-UTF-8 root''
            else returnI (Some \<lparr>ca_directory = dir, ca_root_id = root_path, ca_limits = Some (cache_limits rs)\<rparr>)))))"

section \<open>The configuration directory\<close>

definition MINIMAL_CONFIG :: str where
  "MINIMAL_CONFIG = ascii ''permits:'' @ [10] @ ascii ''  - others: deny'' @ [10]"

definition config_file :: "str \<Rightarrow> str" where
  "config_file dir = path_join dir (ascii ''config.yaml'')"

definition default_directory :: "'w env \<Rightarrow> str res" where
  "default_directory en =
     (case en_home en of
        None \<Rightarrow> Inl (Config (ascii ''HOME is unset; specify --config DIRECTORY''))
      | Some h \<Rightarrow>
          if h = [] then Inl (Config (ascii ''HOME is unset; specify --config DIRECTORY''))
          else Inr (path_join h (ascii ''.rsSync'')))"

text \<open>A file that another process has created in the meantime is kept. The temporary file is removed when
  it is dropped without having been persisted.\<close>

definition persist_config :: "'w env \<Rightarrow> fd \<Rightarrow> str \<Rightarrow> ('w, unit) io" where
  "persist_config en f path w =
     (case en_persist en f path w of
        (Inr _, w') \<Rightarrow> (Inr (), w')
      | (Inl k, w') \<Rightarrow> (if k = AlreadyExists then Inr () else Inl (Fails (Io k)), en_discard en f w'))"

definition bootstrap_file :: "'w os \<Rightarrow> 'w env \<Rightarrow> str \<Rightarrow> ('w, unit) io" where
  "bootstrap_file os en dir =
     bindI (sysI (en_named_temp en dir)) (\<lambda>f.
     bindI (on_failI (bindI (sysI (os_write os f MINIMAL_CONFIG)) (\<lambda>_. sysI (os_sync os f))) (en_discard en f)) (\<lambda>_.
       persist_config en f (config_file dir)))"

definition bootstrap :: "'w os \<Rightarrow> 'w env \<Rightarrow> str \<Rightarrow> ('w, unit) io" where
  "bootstrap os en dir =
     bindI (sysI (os_create_dirs os dir)) (\<lambda>_.
     bindI (sysI (en_try_exists en (config_file dir))) (\<lambda>there.
       if there then returnI () else bootstrap_file os en dir))"

definition load_directory ::
  "'w os \<Rightarrow> 'w env \<Rightarrow> (str \<Rightarrow> byte list option) \<Rightarrow> (io_kind \<Rightarrow> str) \<Rightarrow> (str \<Rightarrow> str + config) \<Rightarrow> str \<Rightarrow> bool
     \<Rightarrow> ('w, config) io" where
  "load_directory os en hex_decode io_text parse dir initialize =
     bindI (if initialize then bootstrap os en dir else returnI ()) (\<lambda>_.
     bindI (sysI (en_read_string en (config_file dir))) (\<lambda>txt.
       liftI (load_config hex_decode io_text parse dir (Inr txt))))"

section \<open>The identity and the runtime's directories\<close>

text \<open>Identities are those of the crate \<open>rns_identity\<close>; its errors are texts here.\<close>

record ('w, 'i) identities =
  id_from_file :: "str \<Rightarrow> 'w \<Rightarrow> (str + 'i) \<times> 'w"
  id_new :: "'w \<Rightarrow> 'i \<times> 'w"
  id_to_file :: "'i \<Rightarrow> str \<Rightarrow> 'w \<Rightarrow> (str + unit) \<times> 'w"

definition transportI :: "('w \<Rightarrow> (str + 'a) \<times> 'w) \<Rightarrow> ('w, 'a) io" where
  "transportI c w =
     (case c w of (Inl t, w') \<Rightarrow> (Inl (Fails (Transport t)), w') | (Inr x, w') \<Rightarrow> (Inr x, w'))"

definition load_identity :: "'w env \<Rightarrow> ('w, 'i) identities \<Rightarrow> config \<Rightarrow> bool \<Rightarrow> ('w, 'i) io" where
  "load_identity en ids cfg read_only =
     bindI (asks (en_exists en (identity cfg))) (\<lambda>there.
       if there then transportI (id_from_file ids (identity cfg))
       else if read_only then config_error ''dry-run requires an existing identity; run 'rrsync identity' first''
       else bindI (asks (id_new ids)) (\<lambda>i.
            bindI (transportI (id_to_file ids i (identity cfg))) (\<lambda>_. returnI i)))"

fun all_dirs :: "'w env \<Rightarrow> str list \<Rightarrow> ('w, bool) io" where
  "all_dirs en [] = returnI True"
| "all_dirs en (d # ds) = bindI (asks (en_is_dir en d)) (\<lambda>there. if there then all_dirs en ds else returnI False)"

text \<open>\<open>resolve\<close> is the runtime's own resolution of its configuration directory, \<open>storage\<close> the eight
  directories it keeps below it.\<close>

definition runtime_check ::
  "'w env \<Rightarrow> (str option \<Rightarrow> str) \<Rightarrow> (str \<Rightarrow> str list) \<Rightarrow> config \<Rightarrow> bool \<Rightarrow> ('w, unit) io" where
  "runtime_check en resolve storage cfg read_only =
     (if \<not> read_only then returnI ()
      else let dir = resolve (reticulum_config cfg) in
        bindI (asks (en_is_file en (config_file dir))) (\<lambda>there.
        bindI (if there then all_dirs en (storage dir) else returnI False) (\<lambda>ready.
          if ready then returnI ()
          else config_error ''dry-run requires an initialized Reticulum configuration and storage directories'')))"

end
