(* ===== verification/Content.thy ===== *)
theory Content
  imports Chunk_Store
begin

text \<open>
  What the files hold that the program writes: a staged file before it is renamed into place, and the
  file a store is assembled into. \<open>data_laws\<close> states the documented effects of the system calls on the
  content of temporary files: a new one is empty, a write appends, a read gives at most what was asked
  for, and nothing else changes them.
\<close>

section \<open>The laws\<close>

definition data_laws :: "'w os \<Rightarrow> ('w \<Rightarrow> fd \<Rightarrow> byte list option) \<Rightarrow> bool" where
  "data_laws os data \<longleftrightarrow>
     reads_keep os data
     \<and> (\<forall>f n w b w'. os_read os f n w = (Inr b, w') \<longrightarrow> length b \<le> n)
     \<and> (\<forall>w f w'. os_tempfile os w = (Inr f, w') \<longrightarrow> data w' = (data w)(f \<mapsto> []))
     \<and> (\<forall>d p w f n w'. os_tempfile_in os d p w = (Inr (f, n), w') \<longrightarrow> data w' = (data w)(f \<mapsto> []))
     \<and> (\<forall>f b c w w'. data w f = Some c \<and> os_write os f b w = (Inr (), w') \<longrightarrow> data w' = (data w)(f \<mapsto> c @ b))
     \<and> (\<forall>f sec ns w. data (snd (os_futimens os f sec ns w)) = data w)
     \<and> (\<forall>f w. data (snd (os_sync os f w)) = data w)"

lemma data_lawsD:
  assumes "data_laws os data"
  shows "reads_keep os data" "os_read os f n w = (Inr b, w') \<Longrightarrow> length b \<le> n"
    "os_tempfile os w = (Inr f, w') \<Longrightarrow> data w' = (data w)(f \<mapsto> [])"
    "os_tempfile_in os dd p w = (Inr (f, name), w') \<Longrightarrow> data w' = (data w)(f \<mapsto> [])"
    "data w f = Some c \<Longrightarrow> os_write os f b w = (Inr (), w') \<Longrightarrow> data w' = (data w)(f \<mapsto> c @ b)"
    "keeps data (sysI (os_futimens os f sec ns))" "keeps data (sysI (os_sync os f))"
proof -
  note l = assms [unfolded data_laws_def]
  show "reads_keep os data" using l by blast
  show "length b \<le> n" if "os_read os f n w = (Inr b, w')" using l [THEN conjunct2, THEN conjunct1, rule_format, OF that] .
  show "os_tempfile os w = (Inr f, w') \<Longrightarrow> data w' = (data w)(f \<mapsto> [])" using l by blast
  show "os_tempfile_in os dd p w = (Inr (f, name), w') \<Longrightarrow> data w' = (data w)(f \<mapsto> [])" using l by blast
  show "data w f = Some c \<Longrightarrow> os_write os f b w = (Inr (), w') \<Longrightarrow> data w' = (data w)(f \<mapsto> c @ b)" using l by blast
  show "keeps data (sysI (os_futimens os f sec ns))" using l by (intro keeps_sys) blast
  show "keeps data (sysI (os_sync os f))" using l by (intro keeps_sys) blast
qed

section \<open>Copying\<close>

lemma read_exact_data:
  assumes l: "data_laws os data"
  shows "read_exact os f todo acc w = (Inr r, w') \<Longrightarrow> data w' = data w \<and> length r = length acc + todo"
proof (induction todo arbitrary: acc w rule: less_induct)
  case (less todo)
  show ?case
  proof (cases "todo = 0")
    case True
    with less.prems show ?thesis by (subst (asm) read_exact_unfold) simp
  next
    case False
    with less.prems obtain b w1 where b: "os_read os f todo w = (Inr b, w1)" "b \<noteq> []"
      and rec: "read_exact os f (todo - length b) (acc @ b) w1 = (Inr r, w')"
      by (subst (asm) read_exact_unfold) (auto simp: io_simps sysI_Inr)
    have "sysI (os_read os f todo) w = (Inr b, w1)" using b by (simp add: sysI_Inr)
    then have "data w1 = data w" by (rule keeps_world [OF keeps_reads(5) [OF data_lawsD(1) [OF l]]])
    moreover have "data w' = data w1 \<and> length r = length (acc @ b) + (todo - length b)"
      by (rule less.IH [OF _ rec]) (use b(2) False in \<open>cases b; simp\<close>)
    moreover have "length b \<le> todo" by (rule data_lawsD(2) [OF l b(1)])
    ultimately show ?thesis by simp
  qed
qed

lemma read_blocks_data:
  assumes l: "data_laws os data"
  shows "read_blocks os f (\<lambda>b. sysI (os_write os out b)) todo acc w = (Inr r, w') \<Longrightarrow> data w out = Some c \<Longrightarrow>
    \<exists>b. r = acc @ b \<and> length b = todo \<and> data w' = (data w)(out \<mapsto> c @ b)"
proof (induction todo arbitrary: acc w c rule: less_induct)
  case (less todo)
  show ?case
  proof (cases "todo = 0")
    case True
    with less.prems show ?thesis by (subst (asm) read_blocks_unfold) (auto simp: map_upd_triv)
  next
    case False
    let ?n = "min todo 65536"
    from False less.prems(1) obtain b w1 u w2 where b: "read_exact os f ?n [] w = (Inr b, w1)"
      and wr: "os_write os out b w1 = (Inr (), w2)"
      and rec: "read_blocks os f (\<lambda>b. sysI (os_write os out b)) (todo - ?n) (acc @ b) w2 = (Inr r, w')"
      by (subst (asm) read_blocks_unfold) (auto simp: bindI_Inr sysI_Inr)
    from read_exact_data [OF l b] have d1: "data w1 = data w" "length b = ?n" by simp_all
    have d2: "data w2 = (data w)(out \<mapsto> c @ b)"
      using data_lawsD(5) [OF l _ wr] d1(1) less.prems(2) by simp
    have "todo - ?n < todo" using False by simp
    from less.IH [OF this rec, of "c @ b"] d2 obtain b2 where "r = (acc @ b) @ b2" "length b2 = todo - ?n"
      "data w' = (data w2)(out \<mapsto> (c @ b) @ b2)" by (metis fun_upd_same)
    then show ?thesis using d1(2) d2 by (intro exI [of _ "b @ b2"]) simp
  qed
qed

lemma keeps_verified:
  assumes "reads_keep os view"
  shows "keeps view (store_verified os sha s table i)"
  using assms by (auto simp: store_verified_def intro!: keeps_rules keeps_reads)

lemma assemble_chunk_data:
  assumes l: "data_laws os data" and d: "desc_ok (cs_description s)" and i: "i < n_chunks (cs_description s)"
    and run: "assemble_chunk os sha s table out i whole w = (Inr whole', w')" and c: "data w out = Some whole"
  shows "data w' out = Some whole' \<and> length whole' = length whole + chunk_len (cs_description s) i"
proof -
  let ?d = "cs_description s"
  have len: "chunk_length ?d i = Inr (word_of_nat (chunk_len ?d i))" by (rule chunk_length_value [OF d i])
  have fit: "unat (word_of_nat (chunk_len ?d i) :: u64) = chunk_len ?d i"
    using chunk_len_bounds [OF d i] desc_ok_bounds(2) [OF d] by (simp add: unat_of_nat)
  from run obtain v w1 where v: "store_verified os sha s table i w = (Inr v, w1)"
    and rest: "(case v of None \<Rightarrow> failI (HashMismatch (ascii ''missing or damaged chunk '' @ decimal i))
       | Some f \<Rightarrow> bindI (pureI (chunk_length ?d i)) (\<lambda>len.
             read_blocks os f (\<lambda>b. sysI (os_write os out b)) (unat len) whole)) w1 = (Inr whole', w')"
    by (auto simp: assemble_chunk_def bindI_Inr)
  then obtain f where rb: "read_blocks os f (\<lambda>b. sysI (os_write os out b)) (chunk_len ?d i) whole w1 = (Inr whole', w')"
    using fit len by (auto simp: bindI_Inr split: option.splits)
  have "data w1 out = Some whole"
    using keeps_world [OF keeps_verified [OF data_lawsD(1) [OF l]] v] c by simp
  from read_blocks_data [OF l rb this] show ?thesis by auto
qed

lemma stage_loop_data:
  assumes l: "data_laws os data"
  shows "stage_loop os f path lim hashing rd cnt dg w = (Inr (cnt', dg'), w') \<Longrightarrow> data w f = Some c \<Longrightarrow>
    \<exists>b. data w' f = Some (c @ b) \<and> cnt' = cnt + length b \<and> dg' = (if hashing then dg @ b else dg)"
proof (induction "Suc lim - cnt" arbitrary: rd cnt dg w c rule: less_induct)
  case less
  from less.prems(1) obtain b rd' w1 where b: "read_from os rd 65536 w = (Inr (b, rd'), w1)"
    and rest: "(if b = [] then returnI (cnt, dg)
       else if lim < cnt + length b then failI (Changed path)
       else bindI (sysI (os_write os f b)) (\<lambda>_.
              stage_loop os f path lim hashing rd' (cnt + length b) (if hashing then dg @ b else dg))) w1
      = (Inr (cnt', dg'), w')"
    by (subst (asm) stage_loop_unfold) (auto simp: bindI_Inr)
  have "keeps data (read_from os rd 65536)"
    by (cases rd) (auto simp: read_from_def intro!: keeps_rules keeps_reads(5) [OF data_lawsD(1) [OF l]])
  from keeps_world [OF this b] have d1: "data w1 f = Some c" using less.prems(2) by simp
  show ?case
  proof (cases "b = []")
    case True
    with rest d1 show ?thesis by auto
  next
    case False
    with rest obtain w2 where wr: "os_write os f b w1 = (Inr (), w2)" and small: "\<not> lim < cnt + length b"
      and rec: "stage_loop os f path lim hashing rd' (cnt + length b) (if hashing then dg @ b else dg) w2
        = (Inr (cnt', dg'), w')"
      by (auto simp: bindI_Inr sysI_Inr split: if_splits)
    have "data w2 f = Some (c @ b)" using data_lawsD(5) [OF l d1 wr] by simp
    moreover have "Suc lim - (cnt + length b) < Suc lim - cnt" using False small by (cases b) auto
    ultimately obtain b2 where "data w' f = Some ((c @ b) @ b2)" "cnt' = cnt + length b + length b2"
      "dg' = (if hashing then (if hashing then dg @ b else dg) @ b2 else (if hashing then dg @ b else dg))"
      using less.hyps [OF _ rec] by blast
    then show ?thesis by (intro exI [of _ "b @ b2"]) auto
  qed
qed

section \<open>Properties\<close>

text \<open>C21: What is staged is what was announced. When staging a file succeeds, the temporary file that will be
  renamed into place holds exactly as many bytes as the entry has, and where a hash was given, as with
  checksums and for every chunk, these bytes have that hash; whatever the sender delivered, and in
  whatever portions it was read.\<close>

theorem staged_exactly:
  assumes l: "data_laws os data" and run: "stage_inner os sha r path rd sz expected mtime w = (Inr s, w')"
  shows "\<exists>c. data w' (sg_temp s) = Some c \<and> length c = unat sz \<and> (\<forall>h. expected = Some h \<longrightarrow> sha c = h)"
proof -
  from run obtain d name w1 temp tn w2 where tmp: "os_tempfile_in os d reserved_prefix w1 = (Inr (temp, tn), w2)"
    and body: "stage_body os sha path rd sz expected mtime
        \<lparr>sg_dir = d, sg_name = name, sg_temp_name = tn, sg_temp = temp\<rparr> w2 = (Inr s, w')"
    by (auto simp: stage_inner_def bindI_Inr sysI_Inr on_failI_Inr Let_def)
  from body obtain x w3 where "stage_loop os temp path (unat sz) (expected \<noteq> None) rd 0 [] w2 = (Inr x, w3)"
    and "(case x of (cnt, dg) \<Rightarrow> if cnt \<noteq> unat sz then failI (Changed path)
       else if (case expected of None \<Rightarrow> False | Some h \<Rightarrow> sha dg \<noteq> h) then failI (HashMismatch path)
       else bindI (case mtime of None \<Rightarrow> returnI () | Some (sec, ns) \<Rightarrow> set_mtime os temp sec ns) (\<lambda>_.
            bindI (sysI (os_sync os temp)) (\<lambda>_. returnI
              \<lparr>sg_dir = d, sg_name = name, sg_temp_name = tn, sg_temp = temp\<rparr>))) w3 = (Inr s, w')"
    unfolding stage_body_def bindI_Inr [of "stage_loop _ _ _ _ _ _ _ _"] staged.select_convs by blast
  then obtain cnt dg where
    loop: "stage_loop os temp path (unat sz) (expected \<noteq> None) rd 0 [] w2 = (Inr (cnt, dg), w3)"
    and rest: "(if cnt \<noteq> unat sz then failI (Changed path)
       else if (case expected of None \<Rightarrow> False | Some h \<Rightarrow> sha dg \<noteq> h) then failI (HashMismatch path)
       else bindI (case mtime of None \<Rightarrow> returnI () | Some (sec, ns) \<Rightarrow> set_mtime os temp sec ns) (\<lambda>_.
            bindI (sysI (os_sync os temp)) (\<lambda>_. returnI
              \<lparr>sg_dir = d, sg_name = name, sg_temp_name = tn, sg_temp = temp\<rparr>))) w3 = (Inr s, w')"
    by (cases x) simp
  from rest have cnt: "cnt = unat sz" and hash: "\<not> (case expected of None \<Rightarrow> False | Some h \<Rightarrow> sha dg \<noteq> h)"
    by (auto split: if_splits)
  with rest obtain u w4 u2 where
    times: "(case mtime of None \<Rightarrow> returnI () | Some (sec, ns) \<Rightarrow> set_mtime os temp sec ns) w3 = (Inr u, w4)"
    and sync: "sysI (os_sync os temp) w4 = (Inr u2, w')" and s: "sg_temp s = temp"
    by (auto simp: bindI_Inr)
  have "data w2 temp = Some []" using data_lawsD(4) [OF l tmp] by simp
  from stage_loop_data [OF l loop this] obtain c where c: "data w3 temp = Some c" "cnt = length c"
    "dg = (if expected \<noteq> None then c else [])" by auto
  have "keeps data (case mtime of None \<Rightarrow> returnI () | Some (sec, ns) \<Rightarrow> set_mtime os temp sec ns)"
    by (auto simp: set_mtime_def intro!: keeps_rules data_lawsD(6) [OF l] split: option.split)
  from keeps_world [OF this times] keeps_world [OF data_lawsD(7) [OF l] sync] c(1)
  have "data w' temp = Some c" by simp
  with c hash s cnt show ?thesis by auto
qed

text \<open>C20: What a cache is assembled into is the described file. When assembling succeeds, the new file holds as
  many bytes as the description has and their digest is the digest of the whole file, although the chunks
  may have been received in different runs and changed on disk since.\<close>

theorem assembled_exactly:
  assumes "data_laws os data" "desc_ok (cs_description s)" "store_assemble os sha s table w = (Inr out, w')"
  shows "\<exists>c. data w' out = Some c \<and> sha c = d_hash (cs_description s) \<and> length c = unat (d_size (cs_description s))"
proof -
  let ?d = "cs_description s"
  note l = assms(1) and d = assms(2)
  from assms(3) obtain w1 whole w2 where tmp: "os_tempfile os w = (Inr out, w1)"
    and fold: "foldI (assemble_chunk os sha s table out) [0..<n_chunks ?d] [] w1 = (Inr whole, w2)"
    and hash: "sha whole = d_hash ?d" and rew: "sysI (os_rewind os out) w2 = (Inr (), w')"
    by (auto simp: store_assemble_def bindI_Inr sysI_Inr chunks_ok [OF d] split: if_splits)
  have "data w2 out = Some whole \<and> length whole = (\<Sum>i<length [0..<n_chunks ?d]. chunk_len ?d i)"
  proof (rule foldI_world [OF fold, where P = "\<lambda>ys whole w. data w out = Some whole
      \<and> length whole = (\<Sum>i<length ys. chunk_len ?d i)"])
    show "data w1 out = Some [] \<and> length [] = (\<Sum>i<length []. chunk_len ?d i)"
      using data_lawsD(3) [OF l tmp] by simp
    fix ys i zs u v and v1 v2
    assume eq: "[0..<n_chunks ?d] = ys @ i # zs"
      and P: "data v1 out = Some u \<and> length u = (\<Sum>i<length ys. chunk_len ?d i)"
      and run: "assemble_chunk os sha s table out i u v1 = (Inr v, v2)"
    have i: "i = length ys" "i < n_chunks ?d" using upt_split [OF eq] by simp_all
    from assemble_chunk_data [OF l d i(2) run] P i(1)
    show "data v2 out = Some v \<and> length v = (\<Sum>i<length (ys @ [i]). chunk_len ?d i)" by simp
  qed
  moreover have "data w' = data w2" by (rule keeps_world [OF keeps_reads(6) [OF data_lawsD(1) [OF l]] rew])
  ultimately show ?thesis using chunk_len_total [OF d] hash by (intro exI [of _ whole]) simp
qed

section \<open>Witnesses\<close>

text \<open>Any file that is opened holds three bytes; the world has the temporary files and the read position.\<close>

definition disk_os :: "((fd \<Rightarrow> byte list option) \<times> nat) os" where
  "disk_os =
     \<lparr>os_openat2 = (\<lambda>_ _ m w. (Inr 1, w)),
      os_openat = (\<lambda>_ _ w. (Inl NotFound, w)),
      os_metadata = (\<lambda>_ w. (Inr \<lparr>m_type = Regular, m_dev = 1, m_ino = 1, m_len = 3, m_mtime = 0, m_mtime_ns = 0,
         m_ctime = 0, m_ctime_ns = 0, m_nlink = 1\<rparr>, w)),
      os_read_dir = (\<lambda>_ w. (Inr [], w)),
      os_mkdirat = (\<lambda>_ n w. (Inr (), w)),
      os_unlinkat = (\<lambda>_ n _ w. (Inr (), w)),
      os_renameat = (\<lambda>_ _ _ n w. (Inr (), w)),
      os_sync = (\<lambda>_ w. (Inr (), w)),
      os_futimens = (\<lambda>_ _ _ w. (Inr (), w)),
      os_flock = (\<lambda>_ _ w. (Inr (), w)),
      os_read = (\<lambda>_ n w. (Inr (take n (drop (snd w) [1, 2, 3])), fst w, snd w + n)),
      os_write = (\<lambda>f b w. (Inr (), case fst w f of None \<Rightarrow> w | Some c \<Rightarrow> ((fst w)(f \<mapsto> c @ b), snd w))),
      os_rewind = (\<lambda>_ w. (Inr (), fst w, 0)),
      os_seek = (\<lambda>_ _ w. (Inr (), w)),
      os_tempfile_in = (\<lambda>_ p w. (Inr (8, p), (fst w)(8 \<mapsto> []), snd w)),
      os_tempfile = (\<lambda>w. (Inr 9, (fst w)(9 \<mapsto> []), snd w)),
      os_open_root = (\<lambda>_ w. (Inr 0, w)),
      os_create_dirs = (\<lambda>_ w. (Inr (), w)),
      os_now = (\<lambda>w. (5, w)),
      os_clock = (\<lambda>w. (Some 5, w)),
      os_reads = 10\<rparr>"

lemma disk_laws: "data_laws disk_os fst"
  by (auto simp: data_laws_def reads_keep_def disk_os_def)

definition three_bytes :: description where
  "three_bytes = \<lparr>d_size = 3, d_chunk_size = 4096, d_hash = 3\<rparr>"

definition three_store :: store where
  "three_store = \<lparr>cs_root = \<lparr>root_fd = 0, root_prefix = []\<rparr>, cs_description = three_bytes,
     cs_last_activity = 0, cs_lock = 1, cs_cache_lock = 2\<rparr>"

definition length_digest :: "byte list \<Rightarrow> hash" where
  "length_digest b = word_of_nat (length b)"

lemma three_bytes_facts:
  "desc_ok three_bytes" "chunks three_bytes = Inr 1" "chunk_length three_bytes 0 = Inr 3"
  "chunk_hash three_bytes (be_hash 3) 0 = Inr 3"
proof -
  show d: "desc_ok three_bytes"
    by (simp add: desc_ok_def three_bytes_def MIN_CHUNK_SIZE_def MAX_CHUNK_SIZE_def MAX_FILE_def)
  have n: "n_chunks three_bytes = 1" by (simp add: n_chunks_def three_bytes_def div_ceil_def)
  show "chunks three_bytes = Inr 1" using chunks_ok [OF d] n by simp
  show "chunk_length three_bytes 0 = Inr 3"
    using chunk_length_value [OF d, of 0] n by (simp add: chunk_len_def three_bytes_def)
  have "table_hash (be_hash 3) 0 = Some 3" by (simp add: read_at_table read_at_def)
  then show "chunk_hash three_bytes (be_hash 3) 0 = Inr 3" using chunk_hash_Inr [OF d] n by simp
qed

lemma three_name:
  "store_name three_store 0 = Inr (ascii ''00000000/00000000.chunk'')"
  "full \<lparr>root_fd = 0, root_prefix = []\<rparr> (ascii ''00000000/00000000.chunk'') = Inr (ascii ''00000000/00000000.chunk'')"
proof -
  have "hex08 0 = ascii ''00000000''"
    by (simp add: hex08_def hex_text.simps hex_digit_def ascii_def eval_nat_numeral)
  then show "store_name three_store 0 = Inr (ascii ''00000000/00000000.chunk'')"
    using three_bytes_facts(3) by (simp add: store_name_def three_store_def ascii_def)
  show "full \<lparr>root_fd = 0, root_prefix = []\<rparr> (ascii ''00000000/00000000.chunk'') = Inr (ascii ''00000000/00000000.chunk'')"
    by code_simp
qed

lemma three_assembled:
  "store_assemble disk_os length_digest three_store (be_hash 3) (\<lambda>_. None, 0)
     = (Inr 9, [9 \<mapsto> [1, 2, 3]], 0)"
proof -
  have "read_all os f 10 = read_all os f (Suc (Suc 8))" for os :: "((fd \<Rightarrow> byte list option) \<times> nat) os" and f
    by simp
  note fuel = this [THEN fun_cong, THEN fun_cong, unfolded read_all.simps]
  show ?thesis
    using three_bytes_facts three_name
    by (simp add: fuel store_assemble_def assemble_chunk_def store_verified_def three_store_def three_bytes_def
      open_file_def open_full_def hash_file_def bindI_def pureI_def resultI_def sysI_def disk_os_def
      read_blocks.simps read_exact.simps length_digest_def)
qed

lemma assembled_exactly_witness:
  "\<exists>c. [9 \<mapsto> [1 :: byte, 2, 3]] (9 :: nat) = Some c \<and> length_digest c = 3 \<and> length c = 3"
  using assembled_exactly [OF disk_laws _ three_assembled] three_bytes_facts(1)
  by (simp add: three_store_def three_bytes_def)

lemma three_staged:
  "stage_inner disk_os length_digest \<lparr>root_fd = 0, root_prefix = []\<rparr> (ascii ''f'') (Bytes_reader [7, 7]) 2 (Some 2) None
      (\<lambda>_. None, 0)
     = (Inr \<lparr>sg_dir = 1, sg_name = ascii ''f'', sg_temp_name = reserved_prefix, sg_temp = 8\<rparr>, [8 \<mapsto> [7, 7]], 0)"
proof -
  have "full \<lparr>root_fd = 0, root_prefix = []\<rparr> (ascii ''f'') = Inr (ascii ''f'')" "validate (ascii ''f'') = Inr ()"
    "rsplit_once slash (ascii ''f'') = None"
    by code_simp+
  then show ?thesis
    by (simp add: stage_inner_def stage_body_def parent_def open_full_def stage_loop.simps read_from_def bindI_def
      pureI_def on_failI_def sysI_def disk_os_def length_digest_def Let_def)
qed

lemma staged_exactly_witness: "\<exists>c. [8 \<mapsto> [7 :: byte, 7]] (8 :: nat) = Some c \<and> length c = 2 \<and> length_digest c = 2"
  using staged_exactly [OF disk_laws three_staged] by simp

lemma chunk_files_kept_witness:
  "\<exists>shard file. store_name three_store 0 = Inr (shard @ slash # file) \<and> shard_name shard \<and> chunk_name file"
proof -
  have "desc_ok (cs_description three_store)" "0 < n_chunks (cs_description three_store)"
    using three_bytes_facts(1) by (simp_all add: three_store_def n_chunks_def three_bytes_def div_ceil_def)
  from chunk_files_kept [OF this] show ?thesis by blast
qed

end
