(* ===== verification/Session2.thy ===== *)
theory Session2
  imports Engine2 Content
begin

text \<open>
  The server of protocol version 2 as a state machine. Its invariant extends the one of version 1 with
  the transfer in progress: the description agrees with the entry of the manifest, an upload asks only
  for chunks of the page that was negotiated last, a received resource has the length of the chunk that
  was begun, and a download has served chunks of its last page only. The invariant holds in every
  reachable state; from it follow that no request makes the server panic, that a file is committed only
  when all of its pages were negotiated and no chunk is missing, and that every reply can be sent.
\<close>

section \<open>The invariant\<close>

definition upload_ok :: "transfer \<Rightarrow> store \<Rightarrow> nat fset \<Rightarrow> bool" where
  "upload_ok t st missing \<longleftrightarrow>
     cs_description st = t_description t
     \<and> (\<forall>i. i |\<in>| missing \<longrightarrow> t_page_start t \<le> i \<and> i < t_next_page t)
     \<and> (\<forall>i. t_pending t = Some i \<longrightarrow> i |\<in>| missing)
     \<and> (\<forall>f. t_received t = Some f \<longrightarrow>
          \<not> rf_metadata f \<and> (\<exists>i. t_pending t = Some i \<and> chunk_length (t_description t) i = Inr (rf_size f)))"

definition download_ok :: "transfer \<Rightarrow> nat fset \<Rightarrow> bool" where
  "download_ok t served \<longleftrightarrow>
     t_received t = None \<and> length (t_table t) = 32 * n_chunks (t_description t)
     \<and> (\<forall>i. i |\<in>| served \<longrightarrow> t_page_start t \<le> i \<and> i < t_next_page t)
     \<and> (\<forall>i. t_pending t = Some i \<longrightarrow> i |\<notin>| served \<and> t_page_start t \<le> i \<and> i < t_next_page t)"

definition transfer_ok :: "session \<Rightarrow> transfer \<Rightarrow> bool" where
  "transfer_ok s t \<longleftrightarrow>
     s_pending s = Some (t_index t) \<and> desc_ok (t_description t)
     \<and> validate_description (s_source s ! t_index t) (t_description t) = Inr ()
     \<and> t_page_start t \<le> t_next_page t \<and> t_next_page t \<le> n_chunks (t_description t)
     \<and> (case t_payload t of
          Upload st missing \<Rightarrow> s_push s \<and> upload_ok t st missing
        | Download f served \<Rightarrow> \<not> s_push s \<and> download_ok t served)"

definition server2_ok :: "(ident \<Rightarrow> permission) \<Rightarrow> server2 \<Rightarrow> bool" where
  "server2_ok perms v \<longleftrightarrow>
     (case v_session (b_base v) of
        None \<Rightarrow> b_transfer v = None \<and> b_peer v = None \<and> b_path v = []
      | Some s \<Rightarrow>
          session_core perms s \<and> s_received s = None \<and> b_peer v \<noteq> None
          \<and> (case b_transfer v of None \<Rightarrow> s_pending s = None | Some t \<Rightarrow> transfer_ok s t))"

text \<open>A description is only made by \<open>header\<close> and \<open>scan\<close>, which check its geometry.\<close>

fun message2_typed :: "message2 \<Rightarrow> bool" where
  "message2_typed (Description i d) = desc_ok d"
| "message2_typed m = True"

inductive step2 ::
  "'w os \<Rightarrow> (byte list \<Rightarrow> hash) \<Rightarrow> (byte list \<Rightarrow> str) \<Rightarrow> (ident \<Rightarrow> permission) \<Rightarrow> server2 \<Rightarrow> server2 \<Rightarrow> bool"
  for os :: "'w os" and sha hex perms where
  request2: "message2_typed m \<Longrightarrow> handle2 os sha hex c peer (perms c) m v w = ((r, v'), w') \<Longrightarrow> step2 os sha hex perms v v'"
| completion2: "receive2 c f v = Inr v' \<Longrightarrow> step2 os sha hex perms v v'"
| lost2: "disconnect2 os sha c v w = (v', w') \<Longrightarrow> step2 os sha hex perms v v'"
| traffic2: "step2 os sha hex perms v (touch2 c now v)"
| lease2: "expire2 os sha now timeout v w = ((e, v'), w') \<Longrightarrow> step2 os sha hex perms v v'"

definition reachable2 ::
  "'w os \<Rightarrow> (byte list \<Rightarrow> hash) \<Rightarrow> (byte list \<Rightarrow> str) \<Rightarrow> (ident \<Rightarrow> permission) \<Rightarrow> root \<Rightarrow> cache \<Rightarrow> server2 \<Rightarrow> bool" where
  "reachable2 os sha hex perms r ca v \<longleftrightarrow> (step2 os sha hex perms)\<^sup>*\<^sup>* (new_server2 r ca) v"

section \<open>What a successful command has done\<close>

lemma invalidI_Inr [simp]: "invalidI t w \<noteq> (Inr x, w')"
  by (simp add: invalidI_def)

lemma transfer_of_Inr [io_simps]: "transfer_of state index w = (Inr t, w') \<longleftrightarrow> state = Some t \<and> t_index t = unat index \<and> w' = w"
  by (auto simp: transfer_of_def split: option.split)

lemma if_invalidI_Inr [io_simps]: "(if b then invalidI t else m) w = (Inr x, w') \<longleftrightarrow> \<not> b \<and> m w = (Inr x, w')"
  by simp

lemma if_bad_Inr [io_simps]: "(if b then returnI True else m) w = (Inr False, w') \<longleftrightarrow> \<not> b \<and> m w = (Inr False, w')"
  by simp

lemma cache_open_Inr: "cache_open os sha hex ca peer push pre e d w = (Inr st, w') \<Longrightarrow> cs_description st = d"
  by (auto simp: cache_open_def bindI_Inr Let_def dest: open_Inr split: option.splits)

lemma store_touch_Inr: "store_touch os sha s w = (Inr s', w') \<Longrightarrow> cs_description s' = cs_description s"
  by (auto simp: store_touch_def bindI_Inr)

lemma store_receive_Inr: "store_receive os sha s table i rd w = (Inr s', w') \<Longrightarrow> cs_description s' = cs_description s"
  by (auto simp: store_receive_def bindI_Inr dest: store_touch_Inr)

lemma description_command_ok:
  assumes s: "session_core perms s" "s_received s = None" "\<not> dry_run (s_options s)" "s_pending s = None"
    and d: "desc_ok d" and run: "description_command os sha hex v peer s i d w = (Inr (rep, s', t'), w')"
  shows "b_transfer v = None \<and> session_core perms s' \<and> s_received s' = None \<and> s_connection s' = s_connection s
    \<and> (case t' of None \<Rightarrow> s_pending s' = None | Some t \<Rightarrow> transfer_ok s' t)"
proof -
  from run obtain st w1 w2 where r: "s_push s" "unat i \<in> set (files (s_plan s))" "unat i |\<notin>| s_done s"
    "b_transfer v = None" "validate_description (s_source s ! unat i) d = Inr ()"
    "cache_open os sha hex (b_cache v) peer True (b_path v) (s_source s ! unat i) d w1 = (Inr st, w2)"
    "s' = s\<lparr>s_pending := Some (unat i)\<rparr>" "t' = Some (start_transfer (unat i) d [] (Upload st {||}))"
    by (auto simp: description_command_def Let_def io_simps)
  from cache_open_Inr [OF r(6)] have "cs_description st = d" .
  with r d s show ?thesis
    by (auto simp: transfer_ok_def upload_ok_def start_transfer_def session_core_def)
qed

lemma describe_command_ok:
  assumes s: "session_core perms s" "s_received s = None" "\<not> dry_run (s_options s)" "s_pending s = None"
    and run: "describe_command os sha v s i cs w = (Inr (rep, s', t'), w')"
  shows "b_transfer v = None \<and> session_core perms s' \<and> s_received s' = None \<and> s_connection s' = s_connection s
    \<and> (case t' of None \<Rightarrow> s_pending s' = None | Some t \<Rightarrow> transfer_ok s' t)"
proof -
  from run obtain f d table w1 w2 where r: "\<not> s_push s" "unat i \<in> set (files (s_plan s))" "unat i |\<notin>| s_done s"
    "b_transfer v = None" "validate_description (s_source s ! unat i) d = Inr ()"
    "scan_file os sha f cs w1 = (Inr (d, table), w2)"
    "s' = s\<lparr>s_pending := Some (unat i)\<rparr>" "t' = Some (start_transfer (unat i) d table (Download f {||}))"
    by (auto simp: describe_command_def Let_def io_simps)
  from scan_file_Inr [OF r(6)] have "desc_ok d" "length table = 32 * n_chunks d" by simp_all
  with r s show ?thesis
    by (auto simp: transfer_ok_def download_ok_def start_transfer_def session_core_def)
qed


lemma hashes_command_ok:
  assumes t: "b_transfer v = Some t" "transfer_ok s t"
    and run: "hashes_command os sha v s i start hs w = (Inr (rep, s', t'), w')"
  shows "s' = s \<and> (\<exists>u. t' = Some u \<and> transfer_ok s u)"
proof -
  have d: "desc_ok (t_description t)" using t(2) by (simp add: transfer_ok_def)
  from run t(1) obtain st missing where p: "t_payload t = Upload st missing" by (cases "t_payload t") (auto simp: hashes_command_def io_simps)
  with run t(1) obtain table list w1 where r: "t_pending t = None" "missing = {||}" "unat start = t_next_page t"
    "set_page (t_description t) (unat start) hs (t_table t) = Inr table"
    "store_missing os sha st table (unat start) w1 = (Inr list, w')"
    "s' = s" "t' = Some (t\<lparr>t_table := table, t_payload := Upload st (fset_of_list list), t_page_start := unat start,
                            t_next_page := t_next_page t + length hs\<rparr>)"
    by (auto simp: hashes_command_def io_simps Let_def)
  have up: "s_push s" "upload_ok t st {||}" using t(2) p r(2) by (simp_all add: transfer_ok_def)
  have pl: "page_len (t_description t) (unat start) = Inr (length hs)"
    using r(4) by (simp add: set_page_Inr [OF d])
  have dst: "cs_description st = t_description t" using up by (simp add: upload_ok_def)
  have "set list \<subseteq> {unat start..<unat start + length hs}"
    using store_missing_Inr [OF _ r(5)] d dst pl by auto
  moreover have "unat start + length hs \<le> n_chunks (t_description t)" using page_len_pos [OF d pl] by simp
  ultimately show ?thesis
    using t(2) r up by (auto simp: transfer_ok_def upload_ok_def fset_of_list_elem)
qed

lemma hashes_get_command_ok:
  assumes t: "b_transfer v = Some t" "transfer_ok s t"
    and run: "hashes_get_command v s i start w = (Inr (rep, s', t'), w')"
  shows "s' = s \<and> (\<exists>u. t' = Some u \<and> transfer_ok s u)"
proof -
  have d: "desc_ok (t_description t)" using t(2) by (simp add: transfer_ok_def)
  from run t(1) obtain f served where p: "t_payload t = Download f served"
    by (cases "t_payload t") (auto simp: hashes_get_command_def io_simps)
  with run t(1) obtain hs where r: "t_pending t = None" "unat start = t_next_page t"
    "page (t_description t) (t_table t) (unat start) = Inr hs" "s' = s"
    "t' = Some (t\<lparr>t_payload := Download f {||}, t_page_start := unat start,
                  t_next_page := t_next_page t + length hs\<rparr>)"
    by (auto simp: hashes_get_command_def io_simps)
  have "page_len (t_description t) (unat start) = Inr (length hs)" using r(3) by (simp add: page_Inr [OF d])
  from page_len_pos [OF d this] show ?thesis
    using t(2) p r by (auto simp: transfer_ok_def download_ok_def)
qed

lemma chunk_command_ok:
  assumes t: "b_transfer v = Some t" "transfer_ok s t"
    and run: "chunk_begin_command v s i chunk w = (Inr (rep, s', t'), w')
      \<or> chunk_commit_command os sha v s i chunk resource w = (Inr (rep, s', t'), w')
      \<or> chunk_get_command os v s i chunk w = (Inr (rep, s', t'), w')
      \<or> chunk_verified_command v s i chunk w = (Inr (rep, s', t'), w')"
  shows "s' = s \<and> (\<exists>u. t' = Some u \<and> transfer_ok s u)"
proof (cases "t_payload t")
  case (Upload st missing)
  then consider "t_pending t = None" "unat chunk |\<in>| missing" "s' = s" "t' = Some (t\<lparr>t_pending := Some (unat chunk)\<rparr>)"
    | rd st' w1 where "t_pending t = Some (unat chunk)" "store_receive os sha st (t_table t) (unat chunk) rd w1 = (Inr st', w')"
      "s' = s" "t' = Some (t\<lparr>t_received := None, t_pending := None, t_payload := Upload st' (missing |-| {|unat chunk|})\<rparr>)"
    using run t(1)
    by (auto simp: chunk_begin_command_def chunk_commit_command_def chunk_get_command_def chunk_verified_command_def
        io_simps split: option.splits)
  then show ?thesis
  proof cases
    case 1
    then show ?thesis using t(2) Upload by (auto simp: transfer_ok_def upload_ok_def)
  next
    case 2
    then show ?thesis using t(2) Upload store_receive_Inr [OF 2(2)] by (auto simp: transfer_ok_def upload_ok_def)
  qed
next
  case (Download f served)
  with run t(1) consider
      "t_pending t = None" "unat chunk |\<notin>| served" "t_page_start t \<le> unat chunk" "unat chunk < t_next_page t"
      "s' = s" "t' = Some (t\<lparr>t_pending := Some (unat chunk)\<rparr>)"
    | "t_pending t = Some (unat chunk)" "s' = s"
      "t' = Some (t\<lparr>t_payload := Download f (finsert (unat chunk) served), t_pending := None\<rparr>)"
    by (auto simp: chunk_begin_command_def chunk_commit_command_def chunk_get_command_def chunk_verified_command_def
        io_simps not_less split: option.splits)
  then show ?thesis
    by cases (use t(2) Download in \<open>auto simp: transfer_ok_def download_ok_def\<close>)
qed

lemma file_commit_command_Inr:
  assumes "b_transfer v = Some t" "file_commit_command os sha v s i w = (Inr (rep, s', t'), w')"
  obtains st fl w1 w2 w3 where "t_index t = unat i" "t_payload t = Upload st {||}" "t_pending t = None"
    "chunks (t_description t) = Inr (t_next_page t)"
    "store_assemble os sha st (t_table t) w = (Inr fl, w1)"
    "if s_prepared s then w2 = w1 else prepare os (s_root s) (s_source s) (s_plan s) w1 = (Inr (), w2)"
    "t_index t < length (s_source s)"
    "install os sha (s_root s) ((s_source s ! t_index t)\<lparr>e_hash := Some (d_hash (t_description t))\<rparr>)
       (s_destination s) (s_plan s) fl w2 = (Inr (), w3)"
    "rep = ok2" "t' = None"
    "s' = s\<lparr>s_prepared := True, s_done := finsert (t_index t) (s_done s), s_pending := None\<rparr>"
proof (cases "t_payload t")
  case (Download f served)
  with assms show ?thesis by (auto simp: file_commit_command_def io_simps)
next
  case (Upload st missing)
  with assms show ?thesis
    by (cases "s_prepared s") (auto simp: file_commit_command_def io_simps dropI_def intro: that)
qed

lemma file_verified_command_Inr:
  assumes "b_transfer v = Some t" "file_verified_command os v s i w = (Inr (rep, s', t'), w')"
  shows "t_index t = unat i \<and> (\<exists>f served. t_payload t = Download f served) \<and> t_pending t = None
    \<and> chunks (t_description t) = Inr (t_next_page t) \<and> rep = ok2 \<and> t' = None
    \<and> s' = s\<lparr>s_done := finsert (t_index t) (s_done s), s_pending := None\<rparr>"
  using assms by (cases "t_payload t") (auto simp: file_verified_command_def io_simps split: if_splits)

lemma core_done:
  assumes "session_core perms s" "\<not> dry_run (s_options s)" "i \<in> set (files (s_plan s))"
  shows "s_push s \<Longrightarrow> session_core perms (s\<lparr>s_prepared := True, s_done := finsert i (s_done s), s_pending := None\<rparr>)"
    "\<not> s_push s \<Longrightarrow> session_core perms (s\<lparr>s_done := finsert i (s_done s), s_pending := None\<rparr>)"
  using assms by (auto simp: session_core_def)

lemma file_command_ok:
  assumes t: "b_transfer v = Some t" "transfer_ok s t" and s: "session_core perms s" "s_received s = None" "\<not> dry_run (s_options s)"
    and run: "file_commit_command os sha v s i w = (Inr (rep, s', t'), w')
      \<or> file_verified_command os v s i w = (Inr (rep, s', t'), w')"
  shows "session_core perms s' \<and> s_received s' = None \<and> s_connection s' = s_connection s \<and> t' = None \<and> s_pending s' = None"
proof -
  have "s_pending s = Some (t_index t)" using t(2) by (simp add: transfer_ok_def)
  note i = core_pending(1) [OF s(1) this]
  from run show ?thesis
  proof
    assume run: "file_commit_command os sha v s i w = (Inr (rep, s', t'), w')"
    obtain st where r: "t_payload t = Upload st {||}" "t' = None"
      "s' = s\<lparr>s_prepared := True, s_done := finsert (t_index t) (s_done s), s_pending := None\<rparr>"
      by (rule file_commit_command_Inr [OF t(1) run])
    have "s_push s" using t(2) r(1) by (simp add: transfer_ok_def)
    from core_done(1) [OF s(1,3) i this] show ?thesis unfolding r(2,3) using s(2) by simp
  next
    assume run: "file_verified_command os v s i w = (Inr (rep, s', t'), w')"
    from file_verified_command_Inr [OF t(1) run] obtain f served where r: "t_payload t = Download f served" "t' = None"
      "s' = s\<lparr>s_done := finsert (t_index t) (s_done s), s_pending := None\<rparr>" by blast
    have "\<not> s_push s" using t(2) r(1) by (simp add: transfer_ok_def)
    from core_done(2) [OF s(1,3) i this] show ?thesis unfolding r(2,3) using s(2) by simp
  qed
qed


section \<open>Every operation keeps the invariant\<close>

lemma start_inner_Inr:
  assumes "handle_inner os sha c (perms c) (Start push opt path m) base w = (Inr (rep, base'), w')"
  shows "\<exists>s sc. v_session base = None \<and> session_core perms s \<and> s_received s = None \<and> s_pending s = None
    \<and> s_connection s = c \<and> base' = base\<lparr>v_session := Some s\<rparr> \<and> rep = Reply (Manifest sc)"
proof -
  from assms have perm: "perms c \<noteq> Deny"
    and run: "start_session os sha c (perms c) push opt path m base w = (Inr (rep, base'), w')"
    by (auto simp: handle_inner_def split: if_splits)
  from start_session_Inr [OF run] obtain r sc p now w1 w2 where st:
    "push \<longrightarrow> perms c = Full" "v_session base = None" "scan_root os sha r (checksum opt) w1 = (Inr sc, w2)"
    "plan (if push then m else sc_entries sc) (if push then sc_entries sc else m) opt = Inr p"
    "base' = base\<lparr>v_session := Some (fresh_session c push opt r m sc p now)\<rparr>" "rep = Reply (Manifest (sc_entries sc))"
    by blast
  have "session_ok perms (fresh_session c push opt r m sc p now)"
    by (rule fresh_session_ok [OF st(3,4)]) (use perm st(1) in simp_all)
  from session_ok_core [OF this] st show ?thesis
    by (intro exI [of _ "fresh_session c push opt r m sc p now"] exI [of _ "sc_entries sc"]) (simp add: fresh_session_def)
qed

lemma finish_inner_Inr:
  assumes "handle_inner os sha c p Finish base w = (Inr (rep, base'), w')"
  shows "base' = base\<lparr>v_session := None\<rparr>"
proof -
  have "\<And>push opt path m. Finish \<noteq> Start push opt path m" by simp
  from handle_command_Inr [OF assms this] show ?thesis by (auto simp: command_Inr)
qed

text \<open>What is known when a command runs: its session is a valid one of the requesting connection.\<close>

definition ready :: "(ident \<Rightarrow> permission) \<Rightarrow> message2 \<Rightarrow> server2 \<Rightarrow> session \<Rightarrow> bool" where
  "ready perms m v s \<longleftrightarrow>
     session_core perms s \<and> s_received s = None \<and> b_peer v \<noteq> None \<and> v_session (b_base v) \<noteq> None
     \<and> (dry_run (s_options s) \<longrightarrow> m = Common Finish)
     \<and> (case b_transfer v of None \<Rightarrow> s_pending s = None | Some t \<Rightarrow> transfer_ok s t)"

lemma transfer_ok_activity: "transfer_ok (s\<lparr>s_activity := now\<rparr>) t \<longleftrightarrow> transfer_ok s t"
  by (simp add: transfer_ok_def split: payload.split)

lemma core_activity: "session_core perms (s\<lparr>s_activity := now\<rparr>) \<longleftrightarrow> session_core perms s"
  by (simp add: session_core_def)

text \<open>The session a successful command runs in.\<close>

lemma handle_command2_Inr:
  assumes ok: "server2_ok perms v" and run: "handle_command2 os sha hex c peer p m v w = (Inr (rep, v'), w')"
  obtains s0 s now w1 where "v_session (b_base v) = Some s0" "s = s0\<lparr>s_activity := now\<rparr>" "s_connection s = c"
    "b_peer v = Some peer" "s_push s \<longrightarrow> p = Full" "nowI os w = (Inr now, w1)"
    "ready perms m v s" "command2 os sha hex c peer p m v s w1 = (Inr (rep, v'), w')"
proof -
  from run obtain s0 now w1 where *: "v_session (b_base v) = Some s0" "s_connection s0 = c"
    "b_peer v = Some peer" "s_push s0 \<longrightarrow> p = Full" "nowI os w = (Inr now, w1)"
    "dry_run (s_options s0) \<longrightarrow> m = Common Finish"
    "command2 os sha hex c peer p m v (s0\<lparr>s_activity := now\<rparr>) w1 = (Inr (rep, v'), w')"
    by (auto simp: handle_command2_def io_simps Let_def split: option.splits if_splits)
  have "ready perms m v (s0\<lparr>s_activity := now\<rparr>)"
    using ok * by (auto simp: ready_def server2_ok_def core_activity transfer_ok_activity split: option.splits)
  with * that [of s0 "s0\<lparr>s_activity := now\<rparr>" now w1] show ?thesis by simp
qed

lemma update_ok:
  assumes "session_core perms s'" "s_received s' = None" "b_peer v \<noteq> None"
    "case t' of None \<Rightarrow> s_pending s' = None | Some t \<Rightarrow> transfer_ok s' t"
  shows "server2_ok perms (v\<lparr>b_base := (b_base v)\<lparr>v_session := Some s'\<rparr>, b_transfer := t'\<rparr>)"
  using assms by (simp add: server2_ok_def)

lemma transfer_command_ok:
  assumes r: "ready perms m v s" and ty: "message2_typed m" and m: "m \<noteq> Common Finish"
    and run: "transfer_command os sha hex peer m v s w = (Inr (rep, s', t'), w')"
  shows "session_core perms s' \<and> s_received s' = None
    \<and> (case t' of None \<Rightarrow> s_pending s' = None | Some t \<Rightarrow> transfer_ok s' t)"
proof -
  have s: "session_core perms s" "s_received s = None" "\<not> dry_run (s_options s)" using r m by (auto simp: ready_def)
  have free: "b_transfer v = None \<Longrightarrow> s_pending s = None" using r by (simp add: ready_def)
  have tr: "\<And>t. b_transfer v = Some t \<Longrightarrow> transfer_ok s t" using r by (simp add: ready_def)
  have same: ?thesis if "\<exists>u. s' = s \<and> t' = Some u \<and> transfer_ok s u" using that s by auto
  show ?thesis
  proof (cases m)
    case (Description i d)
    with run have run': "description_command os sha hex v peer s i d w = (Inr (rep, s', t'), w')"
      by (simp add: transfer_command_def)
    then have "b_transfer v = None" by (auto simp: description_command_def Let_def io_simps)
    from description_command_ok [OF s free [OF this] _ run'] ty Description show ?thesis by simp
  next
    case (Describe i cs)
    with run have run': "describe_command os sha v s i cs w = (Inr (rep, s', t'), w')"
      by (simp add: transfer_command_def)
    then have "b_transfer v = None" by (auto simp: describe_command_def Let_def io_simps)
    from describe_command_ok [OF s free [OF this] run'] show ?thesis by simp
  next
    case (Hashes i start hs)
    with run have run': "hashes_command os sha v s i start hs w = (Inr (rep, s', t'), w')"
      by (simp add: transfer_command_def)
    then obtain t where t: "b_transfer v = Some t" by (auto simp: hashes_command_def io_simps)
    from hashes_command_ok [OF t tr [OF t] run'] show ?thesis by (intro same) auto
  next
    case (HashesGet i start)
    with run have run': "hashes_get_command v s i start w = (Inr (rep, s', t'), w')"
      by (simp add: transfer_command_def)
    then obtain t where t: "b_transfer v = Some t" by (auto simp: hashes_get_command_def io_simps)
    from hashes_get_command_ok [OF t tr [OF t] run'] show ?thesis by (intro same) auto
  next
    case (ChunkBegin i chunk)
    with run have run': "chunk_begin_command v s i chunk w = (Inr (rep, s', t'), w')"
      by (simp add: transfer_command_def)
    then obtain t where t: "b_transfer v = Some t" by (auto simp: chunk_begin_command_def io_simps)
    from chunk_command_ok [OF t tr [OF t] disjI1 [OF run']] show ?thesis by (intro same) auto
  next
    case (ChunkCommit i chunk resource)
    with run have run': "chunk_commit_command os sha v s i chunk resource w = (Inr (rep, s', t'), w')"
      by (simp add: transfer_command_def)
    then obtain t where t: "b_transfer v = Some t" by (auto simp: chunk_commit_command_def io_simps)
    from chunk_command_ok [OF t tr [OF t] disjI2 [OF disjI1 [OF run']]] show ?thesis by (intro same) auto
  next
    case (ChunkGet i chunk)
    with run have run': "chunk_get_command os v s i chunk w = (Inr (rep, s', t'), w')"
      by (simp add: transfer_command_def)
    then obtain t where t: "b_transfer v = Some t" by (auto simp: chunk_get_command_def io_simps)
    from chunk_command_ok [OF t tr [OF t] disjI2 [OF disjI2 [OF disjI1 [OF run']]]] show ?thesis by (intro same) auto
  next
    case (ChunkVerified i chunk)
    with run have run': "chunk_verified_command v s i chunk w = (Inr (rep, s', t'), w')"
      by (simp add: transfer_command_def)
    then obtain t where t: "b_transfer v = Some t" by (auto simp: chunk_verified_command_def io_simps)
    from chunk_command_ok [OF t tr [OF t] disjI2 [OF disjI2 [OF disjI2 [OF run']]]] show ?thesis by (intro same) auto
  next
    case (FileCommit i)
    with run have run': "file_commit_command os sha v s i w = (Inr (rep, s', t'), w')"
      by (simp add: transfer_command_def)
    then obtain t where t: "b_transfer v = Some t" by (auto simp: file_commit_command_def io_simps)
    from file_command_ok [OF t tr [OF t] s disjI1 [OF run']] show ?thesis by simp
  next
    case (FileVerified i)
    with run have run': "file_verified_command os v s i w = (Inr (rep, s', t'), w')"
      by (simp add: transfer_command_def)
    then obtain t where t: "b_transfer v = Some t" by (auto simp: file_verified_command_def io_simps)
    from file_command_ok [OF t tr [OF t] s disjI2 [OF run']] show ?thesis by simp
  qed (use run in \<open>simp_all add: transfer_command_def split: message.splits\<close>)
qed

lemma command2_ok:
  assumes r: "ready perms m v s" and ty: "message2_typed m"
    and run: "command2 os sha hex c peer p m v s w = (Inr (rep, v'), w')"
  shows "server2_ok perms v'"
proof (cases "m = Common Finish")
  case True
  with run have "b_transfer v = None \<and> (\<exists>base. v' = v\<lparr>b_base := base, b_peer := None, b_path := []\<rparr> \<and> v_session base = None)"
    by (auto simp: command2_def finish2_def io_simps dest: finish_inner_Inr)
  then show ?thesis by (auto simp: server2_ok_def)
next
  case False
  with run obtain s' t' w1 where res: "transfer_command os sha hex peer m v s w = (Inr (rep, s', t'), w1)"
    "v' = v\<lparr>b_base := (b_base v)\<lparr>v_session := Some s'\<rparr>, b_transfer := t'\<rparr>"
    by (auto simp: command2_def io_simps)
  have "b_peer v \<noteq> None" using r by (simp add: ready_def)
  with transfer_command_ok [OF r ty False res(1)] show ?thesis unfolding res(2) by (intro update_ok) simp_all
qed

lemma handle_inner2_ok:
  assumes ok: "server2_ok perms v" and ty: "message2_typed m"
    and run: "handle_inner2 os sha hex c peer (perms c) m v w = (Inr (rep, v'), w')"
  shows "server2_ok perms v'"
proof (cases "\<exists>push opt path man. m = Common (Start push opt path man)")
  case True
  then obtain push opt path man where m: "m = Common (Start push opt path man)" by blast
  with run obtain rep1 base w1 where h: "handle_inner os sha c (perms c) (Start push opt path man) (b_base v) w = (Inr (rep1, base), w1)"
    and rest: "(case rep1 of Reply r \<Rightarrow> returnI (Reply2 (Common r), v\<lparr>b_base := base, b_peer := Some peer, b_path := path\<rparr>)
            | Reply_file _ _ \<Rightarrow> panicI) w1 = (Inr (rep, v'), w')"
    by (auto simp: handle_inner2_def io_simps split: if_splits)
  from start_inner_Inr [where c = c and perms = perms, OF h] obtain s sc where s: "v_session (b_base v) = None" "session_core perms s" "s_received s = None"
    "s_pending s = None" "base = (b_base v)\<lparr>v_session := Some s\<rparr>" "rep1 = Reply (Manifest sc)" by blast
  then have "b_transfer v = None" using ok by (simp add: server2_ok_def)
  with s rest show ?thesis by (auto simp: server2_ok_def)
next
  case False
  with run have "handle_command2 os sha hex c peer (perms c) m v w = (Inr (rep, v'), w')"
    by (auto simp: handle_inner2_def split: if_splits message2.splits message.splits)
  then show ?thesis
    by (rule handle_command2_Inr [OF ok]) (rule command2_ok [OF _ ty])
qed

lemma disconnect2_ok: "server2_ok perms v \<Longrightarrow> disconnect2 os sha c v w = (v', w') \<Longrightarrow> server2_ok perms v'"
  by (auto simp: disconnect2_def disconnect_def server2_ok_def split: option.splits if_splits)

lemma receive2_ok:
  assumes ok: "server2_ok perms v" and run: "receive2 c f v = Inr v'"
  shows "server2_ok perms v'"
proof (cases "v' = v")
  case False
  with run obtain s t i where s: "v_session (b_base v) = Some s" "s_push s" "\<not> rf_metadata f" "b_transfer v = Some t"
    "t_received t = None" "t_pending t = Some i" "chunk_length (t_description t) i = Inr (rf_size f)"
    "v' = v\<lparr>b_transfer := Some (t\<lparr>t_received := Some f\<rparr>)\<rparr>"
    by (auto simp: receive2_def accepts_file2_def result_simps split: option.splits if_splits sum.splits failure.splits)
  then have "transfer_ok s (t\<lparr>t_received := Some f\<rparr>)"
    using ok by (auto simp: server2_ok_def transfer_ok_def upload_ok_def split: payload.splits)
  with s ok show ?thesis by (simp add: server2_ok_def)
qed (use ok in simp)

lemma step2_ok: "step2 os sha hex perms v v' \<Longrightarrow> server2_ok perms v \<Longrightarrow> server2_ok perms v'"
proof (induction rule: step2.induct)
  case (request2 m c peer v w r v' w')
  obtain x w1 where x: "handle_inner2 os sha hex c peer (perms c) m v w = (x, w1)" by fastforce
  show ?case
  proof (cases x)
    case (Inl e)
    with request2 x show ?thesis by (auto simp: handle2_def split: prod.splits intro: disconnect2_ok)
  next
    case (Inr y)
    obtain rep v2 where "y = (rep, v2)" by (cases y)
    with Inr request2 x show ?thesis by (auto simp: handle2_def intro: handle_inner2_ok)
  qed
next
  case (traffic2 v c now)
  then show ?case
    by (auto simp: touch2_def touch_def server2_ok_def core_activity transfer_ok_activity split: option.splits)
next
  case (lease2 now timeout v w e v' w')
  then show ?case
    by (auto simp: expire2_def expire_def server2_ok_def Let_def split: option.splits if_splits prod.splits)
qed (auto intro: disconnect2_ok receive2_ok)

interpretation v2: machine "step2 os sha hex perms" "new_server2 r ca" "server2_ok perms" for os sha hex perms r ca
  by unfold_locales (simp add: server2_ok_def new_server2_def new_server_def, erule (1) step2_ok)

lemma reachable2_ok: "reachable2 os sha hex perms r ca v \<Longrightarrow> server2_ok perms v"
  unfolding reachable2_def by (rule v2.reach_inv)


section \<open>No input makes a reachable server panic\<close>

lemma safe_invalid [never_rules]: "fault f \<Longrightarrow> never f (invalidI t)" "fault f \<Longrightarrow> never f (transfer_of state index)"
  by (auto simp: invalidI_def transfer_of_def intro!: never_rules split: option.split)

lemma ensures_transfer: "ensures (transfer_of state index) (\<lambda>t. state = Some t)"
  by (auto simp: ensures_def io_simps)

lemma safe_cache_open: "desc_ok d \<Longrightarrow> sizes_fit os \<Longrightarrow> safe (cache_open os sha hex ca peer push pre e d)"
  by (auto simp: cache_open_def Let_def intro!: never_rules safe_open)

lemma safe_chunk_file: "desc_ok d \<Longrightarrow> safe (chunk_file os f d i)"
  using geometry_safe(2) [of d i] by (auto simp: chunk_file_def intro!: never_rules)

lemma safe_upload_start:
  assumes s: "session_core perms s" and d: "desc_ok d" and fit: "sizes_fit os"
  shows "safe (description_command os sha hex v peer s i d)"
  unfolding description_command_def Let_def
  by (intro never_bind [OF safe_require ensures_require] never_rules safe_cache_open [OF d fit])
    (auto intro: core_file(1) [OF s])

lemma safe_download_start:
  assumes s: "session_core perms s"
  shows "safe (describe_command os sha v s i cs)"
  unfolding describe_command_def Let_def
proof (rule never_bind [OF safe_require ensures_require], elim conjE)
  assume i: "s_push s = False" "unat i \<in> set (files (s_plan s))"
  from core_stamp [OF s _ i(2)] i(1) obtain st where
    st: "bt_get (sc_stamps (s_scan s)) (e_path (s_source s ! unat i)) = Some st" "st_size st \<le> MAX_FILE" by auto
  have "unat (st_size st) + 1 \<noteq> 2 ^ 64" using st(2) by (simp add: MAX_FILE_def word_le_nat_alt)
  from safe_snapshot [OF this] st(1) core_file(1) [OF s i(2)]
  show "safe (if b_transfer v \<noteq> None then invalidI ''file already pending''
        else bindI (indexI (s_source s) (unat i)) (\<lambda>e.
             bindI (liftI (count (e_size e) cs)) (\<lambda>_.
             bindI (presentI (bt_get (sc_stamps (s_scan s)) (e_path e))) (\<lambda>st.
             bindI (snapshot os (s_root s) (e_path e) st) (\<lambda>file.
             bindI (scan_file os sha file cs) (\<lambda>(d, table).
             bindI (liftI (validate_description e d)) (\<lambda>_.
               returnI (Reply2 (Description i d), s\<lparr>s_pending := Some (unat i)\<rparr>,
                 Some (start_transfer (unat i) d table (Download file {||}))))))))))"
    by (auto simp: indexI_def presentI_def intro!: never_rules split: prod.split)
qed

lemma safe_transfer_command:
  assumes r: "ready perms m v s" and ty: "message2_typed m" and fit: "sizes_fit os"
  shows "safe (transfer_command os sha hex peer m v s)"
proof -
  have s: "session_core perms s" using r by (simp add: ready_def)
  have tr: "\<And>t. b_transfer v = Some t \<Longrightarrow> transfer_ok s t" using r by (simp add: ready_def)
  have d: "\<And>t. b_transfer v = Some t \<Longrightarrow> desc_ok (t_description t)" using tr by (simp add: transfer_ok_def)
  have st: "\<And>t st ms. b_transfer v = Some t \<Longrightarrow> t_payload t = Upload st ms \<Longrightarrow> desc_ok (cs_description st)"
    using tr by (simp add: transfer_ok_def upload_ok_def)
  have fileidx: "\<And>t. b_transfer v = Some t \<Longrightarrow> t_index t \<in> set (files (s_plan s))"
    using tr core_pending(1) [OF s] by (simp add: transfer_ok_def)
  have hashes: "safe (hashes_command os sha v s i start hs)" for i start hs
    unfolding hashes_command_def Let_def
    by (rule never_bind [OF _ ensures_transfer])
      (auto intro!: never_rules safe_store(2) st geometry_safe(4) d split: payload.split)
  have get: "safe (hashes_get_command v s i start)" for i start
    unfolding hashes_get_command_def
    by (rule never_bind [OF _ ensures_transfer]) (auto intro!: never_rules geometry_safe(6) d split: payload.split)
  have commit: "safe (chunk_commit_command os sha v s i chunk resource)" for i chunk resource
    unfolding chunk_commit_command_def
    by (rule never_bind [OF _ ensures_transfer])
      (auto intro!: never_rules safe_store(3) st geometry_safe(2) d split: payload.split)
  have chunk: "safe (chunk_begin_command v s i chunk)" "safe (chunk_get_command os v s i chunk)"
      "safe (chunk_verified_command v s i chunk)" for i chunk
    unfolding chunk_begin_command_def chunk_get_command_def chunk_verified_command_def
    by (rule never_bind [OF _ ensures_transfer]; auto intro!: never_rules safe_chunk_file d split: payload.split)+
  have drop: "safe (dropI os sha x)" for x by (simp add: never_def dropI_def)
  have clear: "safe (clear_committed os sha x)" for x
    by (auto simp: clear_committed_def fit intro!: never_rules)
  have prep: "safe (prepare os (s_root s) (s_source s) (s_plan s))"
    using core_directories [OF s] by (intro never_rules) simp_all
  have fc: "safe (file_commit_command os sha v s i)" for i
    unfolding file_commit_command_def
    by (rule never_bind [OF _ ensures_transfer])
      (auto intro!: never_rules safe_store(4) st geometry_safe(1) d drop clear prep core_file(1) [OF s fileidx]
          split: payload.split)
  have fv: "safe (file_verified_command os v s i)" for i
    unfolding file_verified_command_def
  proof (rule never_bind [OF _ ensures_transfer])
    fix t assume t: "b_transfer v = Some t"
    show "safe (bindI (if (case t_payload t of Upload _ _ \<Rightarrow> True | Download _ _ \<Rightarrow> False) \<or> t_pending t \<noteq> None then returnI True
            else bindI (pureI (chunks (t_description t))) (\<lambda>n. returnI (t_next_page t \<noteq> n))) (\<lambda>bad.
       if bad then invalidI ''unexpected file verification''
       else bindI (indexI (s_source s) (t_index t)) (\<lambda>e.
            bindI (presentI (bt_get (sc_stamps (s_scan s)) (e_path e))) (\<lambda>st.
            bindI (ensure_unchanged os (s_root s) (e_path e) st) (\<lambda>_.
              returnI (ok2, s\<lparr>s_done := finsert (t_index t) (s_done s), s_pending := None\<rparr>, None))))))"
    proof (cases "s_push s")
      case True
      then have "\<exists>st ms. t_payload t = Upload st ms" using tr [OF t] by (auto simp: transfer_ok_def split: payload.splits)
      then show ?thesis by (auto intro!: never_rules)
    next
      case False
      from core_stamp [OF s False fileidx [OF t]] obtain st where
        "bt_get (sc_stamps (s_scan s)) (e_path (s_source s ! t_index t)) = Some st" by blast
      then show ?thesis
        using core_file(1) [OF s fileidx [OF t]] geometry_safe(1) [OF d [OF t]]
        by (auto simp: indexI_def presentI_def cong: if_cong intro!: never_rules)
    qed
  qed (simp add: never_rules)
  show ?thesis
    using ty
    by (cases m) (auto simp: transfer_command_def intro!: never_rules safe_upload_start [OF s _ fit] safe_download_start [OF s]
        hashes get commit chunk fc fv)
qed

lemma safe_finish_inner:
  assumes "session_core perms s"
  shows "safe (handle_inner os sha c p Finish (base\<lparr>v_session := Some s\<rparr>))"
  using safe_finish [of perms "s\<lparr>s_activity := now\<rparr>" os for now] assms
  by (auto simp: handle_inner_def handle_command_def command_def core_activity Let_def intro!: never_rules split: prod.split)

lemma safe_handle_inner2:
  assumes ok: "server2_ok perms v" and ty: "message2_typed m" and fit: "sizes_fit os"
  shows "safe (handle_inner2 os sha hex c peer p m v)"
proof -
  have start: "safe (handle_inner2 os sha hex c peer p (Common (Start push opt path man)) v)" for push opt path man
  proof -
    have "safe (handle_inner os sha c p (Start push opt path man) (b_base v))"
      by (auto simp: handle_inner_def start_session_def Let_def intro!: never_rules)
    moreover have "ensures (handle_inner os sha c p (Start push opt path man) (b_base v)) (\<lambda>x. \<exists>m. fst x = Reply m)"
      by (auto simp: ensures_def handle_inner_def dest!: start_session_Inr split: if_splits)
    ultimately have "safe (bindI (handle_inner os sha c p (Start push opt path man) (b_base v)) (\<lambda>(rep, base).
            case rep of
              Reply r \<Rightarrow> returnI (Reply2 (Common r), v\<lparr>b_base := base, b_peer := Some peer, b_path := path\<rparr>)
            | Reply_file _ _ \<Rightarrow> panicI))"
      by (rule never_bind) (auto intro!: never_rules)
    then show ?thesis by (simp add: handle_inner2_def never_rules)
  qed
  have "safe (handle_command2 os sha hex c peer p m v)"
  proof (cases "v_session (b_base v)")
    case (Some s)
    have "safe (if dry_run (s_options s) \<and> m \<noteq> Common Finish then invalidI t else command2 os sha hex c peer p m v (s\<lparr>s_activity := now\<rparr>))" for now t
    proof (cases "dry_run (s_options s) \<and> m \<noteq> Common Finish")
      case False
      then have r: "ready perms m v (s\<lparr>s_activity := now\<rparr>)"
        using ok Some by (auto simp: ready_def server2_ok_def core_activity transfer_ok_activity split: option.splits)
      have "safe (finish2 os sha c p v (s\<lparr>s_activity := now\<rparr>))"
        using safe_finish_inner r by (auto simp: finish2_def ready_def intro!: never_rules split: prod.split)
      with safe_transfer_command [OF r ty fit] False show ?thesis
        by (auto simp: command2_def intro!: never_rules split: prod.split)
    qed (auto intro!: never_rules)
    then have "safe (let s = s\<lparr>s_activity := now\<rparr> in if dry_run (s_options s) \<and> m \<noteq> Common Finish then invalidI t else command2 os sha hex c peer p m v s)" for now t
      by (simp add: Let_def)
    with Some show ?thesis by (simp add: handle_command2_def never_rules)
  qed (auto simp: handle_command2_def intro!: never_rules)
  then have other: "safe (if p = Deny then failI PermissionDenied else handle_command2 os sha hex c peer p m v)"
    by (simp add: never_rules)
  show ?thesis
  proof (cases "\<exists>push opt path man. m = Common (Start push opt path man)")
    case True
    with start show ?thesis by auto
  next
    case False
    then have "handle_inner2 os sha hex c peer p m v
      = (if p = Deny then failI PermissionDenied else handle_command2 os sha hex c peer p m v)"
      by (auto simp: handle_inner2_def split: message2.split message.split)
    with other show ?thesis by simp
  qed
qed

section \<open>Replies\<close>

lemma case_Inr:
  "(case p of Upload st ms \<Rightarrow> f st ms | Download fl ms \<Rightarrow> g fl ms) w = (Inr x, w') \<longleftrightarrow>
     (\<exists>st ms. p = Upload st ms \<and> f st ms w = (Inr x, w')) \<or> (\<exists>fl ms. p = Download fl ms \<and> g fl ms w = (Inr x, w'))"
  "(case z of None \<Rightarrow> h | Some y \<Rightarrow> k y) w = (Inr x, w') \<longleftrightarrow>
     z = None \<and> h w = (Inr x, w') \<or> (\<exists>y. z = Some y \<and> k y w = (Inr x, w'))"
  by (auto split: payload.split option.split)

fun reply_message2 :: "reply2 \<Rightarrow> message2" where
  "reply_message2 (Reply2 m) = m"
| "reply_message2 (Reply_file2 m f) = m"

lemma page_missing_ok:
  assumes r: "range_ok start n" and l: "set list \<subseteq> {unat start..<unat start + n}"
  shows "missing_ok (map word_of_nat (sorted_list_of_fset (fset_of_list list))) start (unat (word_of_nat n :: u32))"
proof -
  have n: "unat (word_of_nat n :: u32) = n" using r by (simp add: range_ok_def unat_of_nat)
  have sorted: "sorted_wrt (<) (sorted_list_of_fset (fset_of_list list))"
    by (simp add: sorted_list_of_fset.rep_eq)
  have small: "unat (word_of_nat x :: u32) = x" if "x \<in> set list" for x
  proof -
    have "x < 2 ^ 32" using that l r by (auto simp: range_ok_def)
    then show ?thesis by (simp add: unat_of_nat)
  qed
  have "sorted_wrt (<) (map word_of_nat (sorted_list_of_fset (fset_of_list list)) :: u32 list)"
    unfolding sorted_wrt_map
    by (rule sorted_wrt_mono_rel [OF _ sorted]) (simp add: word_less_nat_alt small fset_of_list.rep_eq)
  with r n l small show ?thesis by (auto simp: missing_ok_def fset_of_list.rep_eq)
qed

lemma page_range_ok:
  assumes d: "desc_ok d" and p: "page_len d (unat start) = Inr n"
  shows "range_ok start n"
  using page_len_pos [OF d p] p desc_ok_bounds(4) [OF d] by (simp add: range_ok_def page_len_Inr [OF d])

lemma core_index_ok: "session_core perms s \<Longrightarrow> unat i \<in> set (files (s_plan s)) \<Longrightarrow> index_ok i"
proof -
  assume s: "session_core perms s" and i: "unat i \<in> set (files (s_plan s))"
  have "length (s_source s) \<le> 16384"
    using planD(1) [OF core_plan [OF s]] by (simp add: manifest_ok_def MAX_ENTRIES_def)
  with core_file(1) [OF s i] show ?thesis by (simp add: index_ok_def)
qed

lemma transfer_command_reply:
  assumes r: "ready perms m v s" and run: "transfer_command os sha hex peer m v s w = (Inr (rep, s', t'), w')"
  shows "message_ok2 sha (reply_message2 rep)"
proof -
  have s: "session_core perms s" using r by (simp add: ready_def)
  have ok: "message_ok2 sha (Common Ok)" by simp
  have idx: "index_ok i" and d: "desc_ok (t_description t)" and t_ok: "transfer_ok s t"
    if "b_transfer v = Some t" "t_index t = unat i" for t i
  proof -
    show t: "transfer_ok s t" using r that(1) by (simp add: ready_def)
    then show "desc_ok (t_description t)" by (simp add: transfer_ok_def)
    have "s_pending s = Some (unat i)" using t that(2) by (simp add: transfer_ok_def)
    from core_index_ok [OF s core_pending(1) [OF s this]] show "index_ok i" .
  qed
  show ?thesis
  proof (cases m)
    case (Describe i cs)
    with run obtain f d table w1 w2 where "unat i \<in> set (files (s_plan s))"
      "scan_file os sha f cs w1 = (Inr (d, table), w2)" "rep = Reply2 (Description i d)"
      by (auto simp: transfer_command_def describe_command_def Let_def io_simps)
    with scan_file_Inr [of os sha f cs w1 d table w2] core_index_ok [OF s] show ?thesis by (simp add: desc_typed_def)
  next
    case (Hashes i start hs)
    with run have run': "hashes_command os sha v s i start hs w = (Inr (rep, s', t'), w')"
      by (simp add: transfer_command_def)
    then obtain t where t0: "b_transfer v = Some t" by (auto simp: hashes_command_def io_simps)
    with run' obtain st missing where p: "t_payload t = Upload st missing"
      by (cases "t_payload t") (auto simp: hashes_command_def io_simps)
    with run' t0 obtain table list w1 where t: "b_transfer v = Some t" "t_index t = unat i"
      "t_payload t = Upload st missing" "set_page (t_description t) (unat start) hs (t_table t) = Inr table"
      "store_missing os sha st table (unat start) w1 = (Inr list, w')"
      and rep: "rep = Reply2 (Missing i start (word_of_nat (length hs))
                             (map word_of_nat (sorted_list_of_fset (fset_of_list list))))"
      by (auto simp: hashes_command_def Let_def io_simps)
    note d = d [OF t(1,2)]
    have pl: "page_len (t_description t) (unat start) = Inr (length hs)" using t(4) by (simp add: set_page_Inr [OF d])
    have "cs_description st = t_description t"
      using t_ok [OF t(1,2)] t(3) by (simp add: transfer_ok_def upload_ok_def)
    then have "set list \<subseteq> {unat start..<unat start + length hs}"
      using store_missing_Inr [OF _ t(5)] d pl by auto
    from page_missing_ok [OF page_range_ok [OF d pl] this] idx [OF t(1,2)] rep show ?thesis by simp
  next
    case (HashesGet i start)
    with run have run': "hashes_get_command v s i start w = (Inr (rep, s', t'), w')"
      by (simp add: transfer_command_def)
    then obtain t where t0: "b_transfer v = Some t" by (auto simp: hashes_get_command_def io_simps)
    with run' obtain hs where t: "b_transfer v = Some t" "t_index t = unat i"
      "page (t_description t) (t_table t) (unat start) = Inr hs" and rep: "rep = Reply2 (Hashes i start hs)"
      by (cases "t_payload t") (auto simp: hashes_get_command_def io_simps)
    note d = d [OF t(1,2)]
    have "page_len (t_description t) (unat start) = Inr (length hs)" using t(3) by (simp add: page_Inr [OF d])
    from page_range_ok [OF d this] idx [OF t(1,2)] rep show ?thesis by simp
  qed (use run in \<open>auto simp: transfer_command_def description_command_def chunk_begin_command_def
      chunk_commit_command_def chunk_get_command_def chunk_verified_command_def file_commit_command_def
      file_verified_command_def dropI_def Let_def io_simps case_Inr\<close>)
qed

end
