(* ===== verification/Service.thy ===== *)
theory Service
  imports Client2 Session2
begin

text \<open>
  The adapter between the transport and the two engines on the server's side (\<open>src/transport.rs\<close>: \<open>Service\<close>,
  \<open>serve_on\<close>, \<open>admit\<close>): which engine a request goes to, who may make it, how a failure is answered, what
  happens to files that arrive, to links that close and to leases that run out. The link manager of
  \<open>rns_runtime\<close> and the decoders of \<open>rns_wire\<close> and \<open>rns_protocol\<close> are parameters, as is \<open>truncated_hash\<close>
  (\<open>thash\<close>). The map of identities is shared with the link manager, which changes it; the queue of
  completed files is filled by it. Instants are in nanoseconds.
\<close>

section \<open>State\<close>

record completion =
  fc_link :: ident
  fc_hash :: hash
  fc_file :: fd
  fc_size :: u64
  fc_metadata :: "byte list option"

record service =
  sv_engine :: server
  sv_v2 :: "server2 option"
  sv_versions :: "ident \<Rightarrow> byte option"
  sv_incoming :: "completion list"
  sv_identities :: "ident \<Rightarrow> ident option"
  sv_config :: config

text \<open>The two replies of a request handler: bytes, or bytes and a file that follows them.\<close>

datatype answer = Answer "byte list" | Answer_file "byte list" fd

definition REQUEST_PATH :: str where "REQUEST_PATH = ascii ''/rrsync/v1''"
definition REQUEST_PATH2 :: str where "REQUEST_PATH2 = ascii ''/rrsync/v2''"

definition is_v2 :: "(byte list \<Rightarrow> ident) \<Rightarrow> ident \<Rightarrow> bool" where
  "is_v2 thash path \<longleftrightarrow> path = thash REQUEST_PATH2"

definition new_service :: "root \<Rightarrow> cache option \<Rightarrow> config \<Rightarrow> service" where
  "new_service r ca cfg =
     \<lparr>sv_engine = new_server r, sv_v2 = map_option (new_server2 r) ca, sv_versions = (\<lambda>_. None),
      sv_incoming = [], sv_identities = (\<lambda>_. None), sv_config = cfg\<rparr>"

section \<open>Events\<close>

definition service_disconnect ::
  "'w os \<Rightarrow> (byte list \<Rightarrow> hash) \<Rightarrow> ident \<Rightarrow> service \<Rightarrow> 'w \<Rightarrow> service \<times> 'w" where
  "service_disconnect os sha link v w =
     (let v = v\<lparr>sv_engine := disconnect link (sv_engine v)\<rparr> in
      case sv_v2 v of
        None \<Rightarrow> (v, w)
      | Some e \<Rightarrow> (case disconnect2 os sha link e w of (e, w) \<Rightarrow> (v\<lparr>sv_v2 := Some e\<rparr>, w)))"

definition service_touch :: "ident \<Rightarrow> nat \<Rightarrow> service \<Rightarrow> service" where
  "service_touch link now v =
     v\<lparr>sv_engine := touch link now (sv_engine v), sv_v2 := map_option (touch2 link now) (sv_v2 v)\<rparr>"

definition service_expire ::
  "'w os \<Rightarrow> (byte list \<Rightarrow> hash) \<Rightarrow> nat \<Rightarrow> nat \<Rightarrow> service \<Rightarrow> 'w \<Rightarrow> (ident option \<times> service) \<times> 'w" where
  "service_expire os sha now timeout v w =
     (case expire now timeout (sv_engine v) of (v1, engine) \<Rightarrow>
      let v = v\<lparr>sv_engine := engine\<rparr> in
      case sv_v2 v of
        None \<Rightarrow> ((v1, v), w)
      | Some e \<Rightarrow>
          (case expire2 os sha now timeout e w of ((v2, e), w) \<Rightarrow>
             ((case v1 of None \<Rightarrow> v2 | Some l \<Rightarrow> Some l, v\<lparr>sv_v2 := Some e\<rparr>), w)))"

definition service_accepts_file :: "service \<Rightarrow> ident \<Rightarrow> u64 \<Rightarrow> bool \<Rightarrow> bool outcome" where
  "service_accepts_file v link sz has_metadata =
     bindR (accepts_file (sv_engine v) link sz has_metadata) (\<lambda>accepted.
       if accepted then Inr True
       else case sv_v2 v of None \<Rightarrow> Inr False | Some e \<Rightarrow> accepts_file2 e link sz has_metadata)"

definition received_of :: "completion \<Rightarrow> received_file" where
  "received_of f =
     \<lparr>rf_transfer = fc_hash f, rf_file = fc_file f, rf_size = fc_size f, rf_metadata = fc_metadata f \<noteq> None\<rparr>"

definition deliver :: "completion \<Rightarrow> service \<Rightarrow> service outcome" where
  "deliver f v =
     (let link = fc_link f in
      if sv_versions v link = Some 2 then
        (case sv_v2 v of
           None \<Rightarrow> Inr v
         | Some e \<Rightarrow> bindR (receive2 link (received_of f) e) (\<lambda>e. Inr (v\<lparr>sv_v2 := Some e\<rparr>)))
      else bindR (receive link (received_of f) (sv_engine v)) (\<lambda>e. Inr (v\<lparr>sv_engine := e\<rparr>)))"

definition service_receive :: "service \<Rightarrow> service outcome" where
  "service_receive v = foldR deliver (sv_incoming v) (v\<lparr>sv_incoming := []\<rparr>)"

section \<open>Requests\<close>

definition answer1 :: "reply \<Rightarrow> answer outcome" where
  "answer1 rep =
     (case rep of
        Reply m \<Rightarrow> bindR (may (encode m)) (\<lambda>bytes. Inr (Answer bytes))
      | Reply_file m f \<Rightarrow> bindR (may (encode m)) (\<lambda>bytes. Inr (Answer_file bytes f)))"

definition answer2 :: "reply2 \<Rightarrow> answer outcome" where
  "answer2 rep =
     (case rep of
        Reply2 m \<Rightarrow> bindR (may (encode2 m)) (\<lambda>bytes. Inr (Answer bytes))
      | Reply_file2 m f \<Rightarrow> bindR (may (encode2 m)) (\<lambda>bytes. Inr (Answer_file bytes f)))"

definition service_request1 ::
  "'w os \<Rightarrow> (byte list \<Rightarrow> hash) \<Rightarrow> ident \<Rightarrow> permission \<Rightarrow> byte list \<Rightarrow> service \<Rightarrow> 'w
     \<Rightarrow> (answer outcome \<times> service) \<times> 'w" where
  "service_request1 os sha link perm data v w =
     (if (case sv_v2 v of None \<Rightarrow> False | Some e \<Rightarrow> active2 e) then ((Inl (Fails Busy), v), w)
      else case decode data of
        Inl e \<Rightarrow> ((Inl (Fails e), v), w)
      | Inr m \<Rightarrow>
          (case handle os sha link perm m (sv_engine v) w of
             ((r, e), w) \<Rightarrow> ((bindR r answer1, v\<lparr>sv_engine := e\<rparr>), w)))"

definition service_request2 ::
  "'w os \<Rightarrow> (byte list \<Rightarrow> hash) \<Rightarrow> (byte list \<Rightarrow> str) \<Rightarrow> ident \<Rightarrow> ident \<Rightarrow> permission \<Rightarrow> byte list \<Rightarrow> service \<Rightarrow> 'w
     \<Rightarrow> (answer outcome \<times> service) \<times> 'w" where
  "service_request2 os sha hex link peer perm data v w =
     (if active (sv_engine v) then ((Inl (Fails Busy), v), w)
      else case sv_v2 v of
        None \<Rightarrow> ((Inl (Fails (Config (ascii ''v2 is disabled; configure resume on the server''))), v), w)
      | Some e \<Rightarrow>
          (case decode_reply os sha data w of
             (Inl f, w) \<Rightarrow> ((Inl f, v), w)
           | (Inr m, w) \<Rightarrow>
               (case handle2 os sha hex link peer perm m e w of
                  ((r, e), w) \<Rightarrow> ((bindR r answer2, v\<lparr>sv_v2 := Some e\<rparr>), w))))"

definition service_request ::
  "'w os \<Rightarrow> (byte list \<Rightarrow> hash) \<Rightarrow> (byte list \<Rightarrow> str) \<Rightarrow> (str \<Rightarrow> byte list option) \<Rightarrow> (byte list \<Rightarrow> ident)
     \<Rightarrow> ident \<Rightarrow> ident \<Rightarrow> byte list \<Rightarrow> service \<Rightarrow> 'w \<Rightarrow> (answer outcome \<times> service) \<times> 'w" where
  "service_request os sha hex hex_decode thash link path data v w =
     (let v2 = is_v2 thash path in
      if \<not> v2 \<and> path \<noteq> thash REQUEST_PATH then ((Inl (Fails (Protocol (ascii ''unknown request path''))), v), w)
      else case sv_identities v link of
        None \<Rightarrow> ((Inl (Fails PermissionDenied), v), w)
      | Some peer \<Rightarrow>
          let perm = permission_of hex_decode (sv_config v) peer in
          if perm = Deny then ((Inl (Fails PermissionDenied), v), w)
          else
            let version = (if v2 then 2 else 1) in
            if (case sv_versions v link of None \<Rightarrow> False | Some x \<Rightarrow> x \<noteq> version)
            then ((Inl (Fails (Protocol (ascii ''cannot change protocol on a Link''))), v), w)
            else
              let v = v\<lparr>sv_versions := (sv_versions v)(link \<mapsto> version)\<rparr> in
              case service_receive v of
                Inl f \<Rightarrow> ((Inl f, v), w)
              | Inr v \<Rightarrow>
                  if v2 then service_request2 os sha hex link peer perm data v w
                  else service_request1 os sha link perm data v w)"

text \<open>The request handler: what fails disconnects the link and is answered with an error.\<close>

definition error_bytes :: "(byte list \<Rightarrow> ident) \<Rightarrow> (io_kind \<Rightarrow> str) \<Rightarrow> ident \<Rightarrow> error \<Rightarrow> byte list res" where
  "error_bytes thash io_text path e =
     (let m = error_reply io_text e in if is_v2 thash path then encode2 (Common m) else encode m)"

definition service_handler ::
  "'w os \<Rightarrow> (byte list \<Rightarrow> hash) \<Rightarrow> (byte list \<Rightarrow> str) \<Rightarrow> (str \<Rightarrow> byte list option) \<Rightarrow> (byte list \<Rightarrow> ident)
     \<Rightarrow> (io_kind \<Rightarrow> str) \<Rightarrow> ident \<Rightarrow> ident \<Rightarrow> byte list \<Rightarrow> service \<Rightarrow> 'w \<Rightarrow> (answer outcome \<times> service) \<times> 'w" where
  "service_handler os sha hex hex_decode thash io_text link path data v w =
     (case service_request os sha hex hex_decode thash link path data v w of
        ((Inr a, v), w) \<Rightarrow> ((Inr a, v), w)
      | ((Inl (Fails e), v), w) \<Rightarrow>
          (case service_disconnect os sha link v w of (v, w) \<Rightarrow>
             (case error_bytes thash io_text path e of
                Inl _ \<Rightarrow> ((Inl Panics, v), w)
              | Inr bytes \<Rightarrow> ((Inr (Answer bytes), v), w)))
      | ((Inl f, v), w) \<Rightarrow> ((Inl f, v), w))"

section \<open>The loop of the server\<close>

text \<open>A tick of the maintenance timer, and a link that was closed. The link whose lease has run out is
  the one the loop tells the link manager to close.\<close>

definition service_maintain ::
  "'w os \<Rightarrow> (byte list \<Rightarrow> hash) \<Rightarrow> nat \<Rightarrow> service \<Rightarrow> 'w \<Rightarrow> (ident option \<times> service) outcome \<times> 'w" where
  "service_maintain os sha now v w =
     (case service_receive v of
        Inl f \<Rightarrow> (Inl f, w)
      | Inr v \<Rightarrow>
          (case service_expire os sha now (unat (timeout_seconds (sv_config v)) * second) v w of
             (x, w) \<Rightarrow> (Inr x, w)))"

definition service_closed :: "'w os \<Rightarrow> (byte list \<Rightarrow> hash) \<Rightarrow> ident \<Rightarrow> service \<Rightarrow> 'w \<Rightarrow> service \<times> 'w" where
  "service_closed os sha link v w =
     (case service_disconnect os sha link v w of (v, w) \<Rightarrow>
        (v\<lparr>sv_versions := (sv_versions v)(link := None)\<rparr>, w))"

section \<open>Admission of packets\<close>

datatype packet_context = Link_identify | Lrrtt | Keepalive | Link_close | Resource_adv | Other_context

record packet_header =
  hd_data :: bool
  hd_context :: packet_context
  hd_destination :: ident

record advertisement =
  ad_request :: bool
  ad_response :: bool
  ad_metadata :: bool
  ad_size :: u64

datatype destination_event = Link_request | Inbound_packet "byte list" | Other_event

text \<open>What \<open>admit\<close> asks of the other crates: the number of active links, the header of a packet with its
  length, the decryption on a link (if there is one), and the advertisement of a file.\<close>

record reticulum =
  rt_links :: nat
  rt_header :: "byte list \<Rightarrow> (packet_header \<times> nat) option"
  rt_decrypt :: "ident \<Rightarrow> (byte list \<Rightarrow> byte list option) option"
  rt_advertisement :: "byte list \<Rightarrow> advertisement option"

definition advertised :: "reticulum \<Rightarrow> ident \<Rightarrow> byte list \<Rightarrow> advertisement option" where
  "advertised rt link bytes =
     (case rt_decrypt rt link of
        None \<Rightarrow> None
      | Some decrypt \<Rightarrow>
          (case decrypt bytes of None \<Rightarrow> None | Some plain \<Rightarrow> rt_advertisement rt plain))"

definition admit_resource :: "reticulum \<Rightarrow> ident \<Rightarrow> byte list \<Rightarrow> nat \<Rightarrow> service \<Rightarrow> bool outcome" where
  "admit_resource rt link raw offset v =
     (if rt_decrypt rt link = None then Inr False
      else if length raw < offset then Inl Panics
      else case advertised rt link (drop offset raw) of
        None \<Rightarrow> Inr False
      | Some adv \<Rightarrow>
          if ad_request adv then Inr (unat (ad_size adv) \<le> MAX_CONTROL + 1024)
          else if ad_response adv then Inr False
          else service_accepts_file v link (ad_size adv) (ad_metadata adv))"

definition admit ::
  "(str \<Rightarrow> byte list option) \<Rightarrow> reticulum \<Rightarrow> destination_event \<Rightarrow> nat \<Rightarrow> service \<Rightarrow> (bool \<times> service) outcome" where
  "admit hex_decode rt event now v =
     (case event of
        Link_request \<Rightarrow> Inr (rt_links rt < 16, v)
      | Other_event \<Rightarrow> Inr (True, v)
      | Inbound_packet raw \<Rightarrow>
          (case rt_header rt raw of
             None \<Rightarrow> Inr (False, v)
           | Some (h, offset) \<Rightarrow>
               if \<not> hd_data h then Inr (True, v)
               else if hd_context h \<in> {Link_identify, Lrrtt, Keepalive, Link_close} then Inr (True, v)
               else bindR (service_receive v) (\<lambda>v.
                 if \<not> (case sv_identities v (hd_destination h) of
                         None \<Rightarrow> False | Some peer \<Rightarrow> permits_peer hex_decode (sv_config v) peer)
                 then Inr (False, v)
                 else
                   let v = service_touch (hd_destination h) now v in
                   if hd_context h = Resource_adv
                   then bindR (admit_resource rt (hd_destination h) raw offset v) (\<lambda>ok. Inr (ok, v))
                   else Inr (True, v))))"

end
