(* ===== verification/Adapter.thy ===== *)
theory Adapter
  imports Startup Service
begin

text \<open>
  The client's side of the adapter (\<open>src/transport.rs\<close>: \<open>link_error\<close>, \<open>client\<close>, \<open>ReticulumTransport\<close>), the start of
  a server (\<open>serve\<close>) and the command line (\<open>src/main.rs\<close>: \<open>run\<close>). \<open>LinkSession\<close> and \<open>ReticulumHandle\<close> of \<open>rns_runtime\<close> are the fields of a
  record over the type of links; the errors of links are its type of errors, of which the source asks
  only whether they are transient, whether they are a resource error with what text, and how they print.
\<close>

section \<open>The runtime\<close>

text \<open>\<open>rn_recall\<close> is the query \<open>Recall\<close>: the public key announced for a destination. \<open>rn_destination\<close> is
  \<open>Destination::hash_from_name_and_identity\<close>.\<close>

record ('w, 'l, 'e) runtime =
  rn_transient :: "'e \<Rightarrow> bool"
  rn_resource :: "'e \<Rightarrow> str option"
  rn_text :: "'e \<Rightarrow> str"
  rn_await_path :: "ident \<Rightarrow> nat \<Rightarrow> 'w \<Rightarrow> (str + unit) \<times> 'w"
  rn_recall :: "ident \<Rightarrow> 'w \<Rightarrow> byte list option \<times> 'w"
  rn_destination :: "str \<Rightarrow> ident \<Rightarrow> ident"
  rn_open :: "ident \<Rightarrow> nat \<Rightarrow> 'w \<Rightarrow> ('e + 'l) \<times> 'w"
  rn_open_with_key :: "ident \<Rightarrow> byte list \<Rightarrow> nat \<Rightarrow> 'w \<Rightarrow> ('e + 'l) \<times> 'w"
  rn_identify :: "'l \<Rightarrow> 'w \<Rightarrow> ('e + unit) \<times> 'w"
  rn_request :: "'l \<Rightarrow> str \<Rightarrow> byte list \<Rightarrow> nat \<Rightarrow> nat \<Rightarrow> 'w \<Rightarrow> ('e + byte list) \<times> 'w"
  rn_send :: "'l \<Rightarrow> fd \<Rightarrow> u64 \<Rightarrow> nat \<Rightarrow> 'w \<Rightarrow> ('e + hash) \<times> 'w"
  rn_receive :: "'l \<Rightarrow> u64 \<Rightarrow> nat \<Rightarrow> 'w \<Rightarrow> ('e + completion) \<times> 'w"
  rn_close :: "'l \<Rightarrow> 'w \<Rightarrow> ('e + unit) \<times> 'w"

definition link_error :: "('w, 'l, 'e) runtime \<Rightarrow> 'e \<Rightarrow> error" where
  "link_error rn e =
     (if rn_transient rn e \<or> rn_resource rn e = Some (ascii ''resource sender retries exhausted'')
      then Connection (rn_text rn e) else Transport (rn_text rn e))"

text \<open>A call whose errors are mapped by \<open>link_error\<close>.\<close>

definition linked :: "('w, 'l, 'e) runtime \<Rightarrow> ('w \<Rightarrow> ('e + 'a) \<times> 'w) \<Rightarrow> 'w \<Rightarrow> 'a res \<times> 'w" where
  "linked rn c w = (case c w of (Inl e, w') \<Rightarrow> (Inl (link_error rn e), w') | (Inr x, w') \<Rightarrow> (Inr x, w'))"

section \<open>The transport of a link\<close>

definition reticulum_transport :: "('w, 'l, 'e) runtime \<Rightarrow> 'l \<Rightarrow> str \<Rightarrow> 'w link" where
  "reticulum_transport rn l path =
     \<lparr>l_request = (\<lambda>payload deadline. linked rn (rn_request rn l path payload deadline (MAX_CONTROL + 1024))),
      l_send_file = (\<lambda>f sz deadline. linked rn (rn_send rn l f sz deadline)),
      l_receive_file = (\<lambda>max_size deadline w.
        case linked rn (rn_receive rn l max_size deadline) w of
          (Inl e, w') \<Rightarrow> (Inl e, w') | (Inr c, w') \<Rightarrow> (Inr (received_of c), w')),
      l_close = linked rn (rn_close rn l)\<rparr>"

section \<open>One session of the client\<close>

definition APP_NAME :: str where "APP_NAME = ascii ''rrsync.sync''"

definition awaitI :: "('w \<Rightarrow> (str + unit) \<times> 'w) \<Rightarrow> ('w, unit) io" where
  "awaitI c w = (case c w of (Inl t, w') \<Rightarrow> (Inl (Fails (Connection t)), w') | (Inr x, w') \<Rightarrow> (Inr x, w'))"

text \<open>The link and the identity of its peer, which version 2 needs and checks.\<close>

definition open_link ::
  "('w, 'l, 'e) runtime \<Rightarrow> (byte list \<Rightarrow> ident) \<Rightarrow> config \<Rightarrow> ident \<Rightarrow> nat \<Rightarrow> ('w, 'l \<times> ident) io" where
  "open_link rn thash cfg remote_id deadline =
     (if protocol cfg = 2 then
        bindI (asks (rn_recall rn remote_id)) (\<lambda>found.
          case found of
            None \<Rightarrow> failI (Connection (ascii ''remote identity not discovered''))
          | Some k \<Rightarrow>
              if rn_destination rn APP_NAME (thash k) \<noteq> remote_id
              then failI (Transport (ascii ''remote destination identity mismatch''))
              else bindI (callI (linked rn (rn_open_with_key rn remote_id k deadline))) (\<lambda>l. returnI (l, thash k)))
      else bindI (callI (linked rn (rn_open rn remote_id deadline))) (\<lambda>l. returnI (l, 0)))"

definition client_session ::
  "'w os \<Rightarrow> 'w env \<Rightarrow> ('w, 'l, 'e) runtime \<Rightarrow> (byte list \<Rightarrow> hash) \<Rightarrow> (byte list \<Rightarrow> str) \<Rightarrow> (byte list \<Rightarrow> ident)
     \<Rightarrow> config \<Rightarrow> bool \<Rightarrow> str \<Rightarrow> ident \<Rightarrow> str \<Rightarrow> options \<Rightarrow> (sync_plan \<Rightarrow> ('w, unit) io) \<Rightarrow> ('w, unit) io" where
  "client_session os en rn sha hex thash cfg push local remote_id path opt on_plan =
     (let deadline = unat (timeout_seconds cfg) * second in
      bindI (if push then root_open os local else destination os en local) (\<lambda>r.
      bindI (if protocol cfg = 2 then cache_of os en cfg r else returnI None) (\<lambda>resume_cache.
      bindI (scan_root os sha r (checksum opt)) (\<lambda>sc.
      bindI (awaitI (rn_await_path rn remote_id deadline)) (\<lambda>_.
      bindI (open_link rn thash cfg remote_id deadline) (\<lambda>(l, peer).
      bindI (callI (linked rn (rn_identify rn l))) (\<lambda>_.
        let j = \<lparr>j_push = push, j_path = path, j_options = opt, j_deadline = deadline\<rparr> in
        case resume_cache of
          Some ca \<Rightarrow>
            bindI (presentI (resume cfg)) (\<lambda>rs.
              synchronize2 os sha hex (reticulum_transport rn l REQUEST_PATH2) r sc j
                \<lparr>re_cache = ca, re_peer = peer, re_chunk_size = chunk_size rs\<rparr> on_plan)
        | None \<Rightarrow> synchronize os sha (reticulum_transport rn l REQUEST_PATH) r sc j on_plan)))))))"

section \<open>The client\<close>

text \<open>\<open>reconnect::run\<close> over sessions that change the world. Three parts of tokio and of the runtime are
  arguments: \<open>limited\<close> is \<open>tokio::time::timeout\<close>, which gives no value when the time is over, \<open>sleep\<close> is
  \<open>tokio::time::sleep\<close>, and \<open>reticulum_init\<close> starts the
  runtime, whose links are those of the identity, and \<open>shutdown\<close> ends it. The counters that are
  logged at the end are left out.\<close>

fun sessions_io :: "policy \<Rightarrow> (u64 \<Rightarrow> 'w \<Rightarrow> 'w) \<Rightarrow> ('w, unit) io \<Rightarrow> nat list \<Rightarrow> ('w, unit) io" where
  "sessions_io p sleep session [] = panicI"
| "sessions_io p sleep session (n # numbers) =
     bindI (resultI session) (\<lambda>r.
       case r of
         Inr _ \<Rightarrow> returnI ()
       | Inl e \<Rightarrow>
           if n < unat (attempts p) \<and> retryable e then
             (\<lambda>w. sessions_io p sleep session numbers (sleep (delay p (word_of_nat n)) w))
           else failI e)"

definition run_io ::
  "(nat \<Rightarrow> ('w, unit) io \<Rightarrow> ('w, unit option) io) \<Rightarrow> (u64 \<Rightarrow> 'w \<Rightarrow> 'w) \<Rightarrow> policy \<Rightarrow> ('w, unit) io \<Rightarrow> ('w, unit) io" where
  "run_io limited sleep p session =
     bindI (liftI (validate_policy p)) (\<lambda>_.
       if attempts p = 0 then session
       else bindI (limited (unat (max_elapsed_seconds p) * second)
                    (sessions_io p sleep session [0..<Suc (unat (attempts p))])) (\<lambda>r.
              case r of None \<Rightarrow> failI deadline_error | Some _ \<Rightarrow> returnI ()))"

definition client ::
  "'w os \<Rightarrow> 'w env \<Rightarrow> ('w, 'i) identities \<Rightarrow> (str option \<Rightarrow> str) \<Rightarrow> (str \<Rightarrow> str list)
     \<Rightarrow> ('i \<Rightarrow> config \<Rightarrow> 'w \<Rightarrow> (str + ('w, 'l, 'e) runtime) \<times> 'w) \<Rightarrow> ('w \<Rightarrow> 'w)
     \<Rightarrow> (nat \<Rightarrow> ('w, unit) io \<Rightarrow> ('w, unit option) io) \<Rightarrow> (u64 \<Rightarrow> 'w \<Rightarrow> 'w)
     \<Rightarrow> (byte list \<Rightarrow> hash) \<Rightarrow> (byte list \<Rightarrow> str) \<Rightarrow> (byte list \<Rightarrow> ident)
     \<Rightarrow> config \<Rightarrow> bool \<Rightarrow> str \<Rightarrow> ident \<Rightarrow> str \<Rightarrow> options \<Rightarrow> (sync_plan \<Rightarrow> ('w, unit) io) \<Rightarrow> ('w, unit) io" where
  "client os en ids resolve storage reticulum_init shutdown limited sleep sha hex thash cfg push local remote_id path opt on_plan =
     bindI (load_identity en ids cfg (dry_run opt)) (\<lambda>i.
     bindI (runtime_check en resolve storage cfg (dry_run opt)) (\<lambda>_.
     bindI (transportI (reticulum_init i cfg)) (\<lambda>rn.
       finallyI (run_io limited sleep (reconnect cfg)
           (client_session os en rn sha hex thash cfg push local remote_id path opt on_plan))
         shutdown)))"

section \<open>The start of a server\<close>

text \<open>The service the requests are then answered by; the destination, the link manager and its channels are
  those of the runtime.\<close>

definition serve_start ::
  "'w os \<Rightarrow> 'w env \<Rightarrow> ('w, 'i) identities \<Rightarrow> (str option \<Rightarrow> str) \<Rightarrow> (str \<Rightarrow> str list)
     \<Rightarrow> ('i \<Rightarrow> config \<Rightarrow> 'w \<Rightarrow> (str + ('w, 'l, 'e) runtime) \<times> 'w)
     \<Rightarrow> config \<Rightarrow> root \<Rightarrow> ('w, 'i \<times> ('w, 'l, 'e) runtime \<times> service) io" where
  "serve_start os en ids resolve storage reticulum_init cfg r =
     bindI (load_identity en ids cfg False) (\<lambda>i.
     bindI (runtime_check en resolve storage cfg False) (\<lambda>_.
     bindI (transportI (reticulum_init i cfg)) (\<lambda>rn.
     bindI (cache_of os en cfg r) (\<lambda>ca. returnI (i, rn, new_service r ca cfg)))))"

section \<open>The command line\<close>

datatype cli =
    Serve str
  | Identity
  | Push options str str
  | Pull options str str

text \<open>What the command line asks for once its arguments and the configuration are there: to show the
  identity, to serve a root, or to run sessions of a client.\<close>

datatype 'i job_kind =
    Show 'i
  | Serving config root
  | Sessions config bool str ident str options

definition cli_dry_run :: "cli \<Rightarrow> bool" where
  "cli_dry_run c = (case c of Push opt _ _ \<Rightarrow> dry_run opt | Pull opt _ _ \<Rightarrow> dry_run opt | _ \<Rightarrow> False)"

definition run_cli ::
  "'w os \<Rightarrow> 'w env \<Rightarrow> ('w, 'i) identities \<Rightarrow> (str \<Rightarrow> byte list option) \<Rightarrow> (io_kind \<Rightarrow> str) \<Rightarrow> (str \<Rightarrow> str + config)
     \<Rightarrow> str option \<Rightarrow> cli \<Rightarrow> ('w, 'i job_kind) io" where
  "run_cli os en ids hex_decode io_text parse dir_arg c =
     bindI (case dir_arg of Some d \<Rightarrow> returnI d | None \<Rightarrow> liftI (default_directory en)) (\<lambda>dir.
     bindI (load_directory os en hex_decode io_text parse dir (dir_arg = None \<and> \<not> cli_dry_run c)) (\<lambda>cfg.
     bindI (load_identity en ids cfg (cli_dry_run c)) (\<lambda>_.
       case c of
         Identity \<Rightarrow> bindI (load_identity en ids cfg False) (\<lambda>i. returnI (Show i))
       | Serve d \<Rightarrow> bindI (root_open os d) (\<lambda>r. returnI (Serving cfg r))
       | Push opt source dest \<Rightarrow>
           bindI (liftI (remote (address hex_decode) dest)) (\<lambda>(i, path).
             returnI (Sessions cfg True source i path opt))
       | Pull opt source dest \<Rightarrow>
           bindI (liftI (remote (address hex_decode) source)) (\<lambda>(i, path).
             returnI (Sessions cfg False dest i path opt)))))"

end
