(* ===== verification/Push_Session.thy ===== *)
theory Push_Session
  imports Engine1 Scan_Model
begin

text \<open>
  A push as the server executes it, over the file system of \<open>Fs_Model\<close>. A run threads one world through
  everything that happens to the server; between two events other processes may do anything that leaves
  the tree alone. The invariant says which steps of the plan the tree has seen; it ends in the theorem
  that a finished push has made the tree what the plan promises.
\<close>

inductive event ::
  "'w os \<Rightarrow> (byte list \<Rightarrow> hash) \<Rightarrow> (ident \<Rightarrow> permission) \<Rightarrow> ('w \<Rightarrow> fs_view) \<Rightarrow> server \<times> 'w \<Rightarrow> server \<times> 'w \<Rightarrow> bool"
  for os :: "'w os" and sha perms view where
  ev_request: "handle os sha c (perms c) req v w = ((x, v'), w') \<Longrightarrow> tree_wf (view w) \<Longrightarrow>
    event os sha perms view (v, w) (v', w')"
| ev_completion: "receive c f v = Inr v' \<Longrightarrow> event os sha perms view (v, w) (v', w)"
| ev_lost: "event os sha perms view (v, w) (disconnect c v, w)"
| ev_traffic: "event os sha perms view (v, w) (touch c now v, w)"
| ev_lease: "event os sha perms view (v, w) (snd (expire now timeout v), w)"
| ev_outside: "extends (view w) (view w') \<Longrightarrow> event os sha perms view (v, w) (v, w')"

text \<open>What the tree has seen of a push: the directories once prepared, and the files that are done.\<close>

definition applied :: "session \<Rightarrow> nat list \<Rightarrow> bool" where
  "applied s ks \<longleftrightarrow>
     set ks = (if s_prepared s then set (directories (s_plan s)) else {}) \<union> fset (s_done s)"

definition push_ok :: "root \<Rightarrow> (ident \<Rightarrow> permission) \<Rightarrow> server \<Rightarrow> fs_view \<Rightarrow> bool" where
  "push_ok r perms v fs \<longleftrightarrow>
     v_root v = r \<and> server_ok perms v
     \<and> (\<forall>s. v_session v = Some s \<and> s_push s \<and> \<not> dry_run (s_options s) \<longrightarrow>
          (\<exists>path. subtree r path = Inr (s_root s))
          \<and> (\<exists>ks. applied s ks
               \<and> seen (s_root s) fs = fold (put_entry (s_source s) (s_plan s)) ks (tree_of (s_destination s))))"

lemma push_okI:
  assumes "v_root v = r" "server_ok perms v"
    and "\<And>s. v_session v = Some s \<Longrightarrow> s_push s \<Longrightarrow> \<not> dry_run (s_options s) \<Longrightarrow>
      (\<exists>path. subtree r path = Inr (s_root s))
      \<and> (\<exists>ks. applied s ks
           \<and> seen (s_root s) fs = fold (put_entry (s_source s) (s_plan s)) ks (tree_of (s_destination s)))"
  shows "push_ok r perms v fs"
  using assms by (simp add: push_ok_def)

lemma push_okD:
  assumes "push_ok r perms v fs" "v_session v = Some s" "s_push s" "\<not> dry_run (s_options s)"
  obtains path ks where "subtree r path = Inr (s_root s)" "applied s ks"
    "seen (s_root s) fs = fold (put_entry (s_source s) (s_plan s)) ks (tree_of (s_destination s))"
    "session_ok perms s"
  using assms by (auto simp: push_ok_def server_ok_def)

lemma push_ok_extends: "push_ok r perms v fs \<Longrightarrow> extends fs fs' \<Longrightarrow> push_ok r perms v fs'"
  unfolding push_ok_def by (simp add: extends_seen)

lemma push_ok_none: "v_root v = r \<Longrightarrow> v_session v = None \<Longrightarrow> push_ok r perms v fs"
  by (simp add: push_ok_def server_ok_def)

lemma subtree_safe: "safe_name (root_prefix r) \<Longrightarrow> subtree r path = Inr r' \<Longrightarrow> safe_name (root_prefix r') \<and> root_fd r' = root_fd r"
  using full_safe by (auto simp: subtree_Inr)

text \<open>A command of the owner.\<close>

lemma command_push_ok:
  assumes o: "obeys os (root_fd r) view" and safe: "safe_name (root_prefix r)"
    and inv: "push_ok r perms v (view w)" and s: "v_session v = Some s" "s_push s" "\<not> dry_run (s_options s)"
    and run: "command os sha req (s\<lparr>s_activity := now\<rparr>) w = (Inr (rep, Some s'), w')"
  shows "(\<exists>path. subtree r path = Inr (s_root s'))
    \<and> (\<exists>ks. applied s' ks
         \<and> seen (s_root s') (view w') = fold (put_entry (s_source s') (s_plan s')) ks (tree_of (s_destination s')))"
proof -
  from push_okD [OF inv s] obtain path ks where
    root: "subtree r path = Inr (s_root s)" and ks: "applied s ks"
    and fs: "seen (s_root s) (view w) = fold (put_entry (s_source s) (s_plan s)) ks (tree_of (s_destination s))"
    and ok: "session_ok perms s" by blast
  note rs = subtree_safe [OF safe root]
  have o': "obeys os (root_fd (s_root s)) view" using o rs by simp
  note p = session_plan [OF ok]
  from run consider
    i where "begin_file os (s\<lparr>s_activity := now\<rparr>) i w = (Inr s', w')"
    | i h where "commit_file os sha (s\<lparr>s_activity := now\<rparr>) i h w = (Inr s', w')"
    using s(2) unfolding command_Inr by (cases req) (auto simp: get_file_Inr verify_file_Inr)
  then show ?thesis
  proof cases
    case (1 i)
    then have s': "s' = s\<lparr>s_activity := now, s_prepared := True, s_pending := Some i\<rparr>"
      and w': "if s_prepared s then w' = w else prepare os (s_root s) (s_source s) (s_plan s) w = (Inr (), w')"
      by (cases "s_prepared s"; simp add: begin_file_Inr)+
    show ?thesis
    proof (cases "s_prepared s")
      case True
      then show ?thesis using w' s' root ks fs by (auto simp: applied_def)
    next
      case False
      then have "s_done s = {||}" using ok s(2) by (auto simp: session_ok_defs)
      with False ks have "ks = []" by (simp add: applied_def)
      with fs have fs0: "seen (s_root s) (view w) = tree_of (s_destination s)" by simp
      have "prepare os (s_root s) (s_source s) (s_plan s) w = (Inr (), w')" using w' False by simp
      from prepare_seen [OF o' conjunct1 [OF rs] p this]
      have "seen (s_root s) (view w') =
          fold (put_entry (s_source s) (s_plan s)) (directories (s_plan s)) (tree_of (s_destination s))"
        by (simp add: fs0)
      moreover have "applied s' (directories (s_plan s))" by (simp add: applied_def s' \<open>s_done s = {||}\<close>)
      ultimately show ?thesis using root by (auto simp: s')
    qed
  next
    case (2 i h)
    then obtain f :: received_file where f: "i \<in> set (files (s_plan s))" "s_pending s = Some i"
      "install os sha (s_root s) (s_source s ! i) (s_destination s) (s_plan s) (rf_file f) w = (Inr (), w')"
      "s' = s\<lparr>s_activity := now, s_received := None, s_pending := None, s_done := finsert i (s_done s)\<rparr>"
      by (auto simp: commit_file_Inr)
    have "seen (s_root s) (view w') = fold (put_entry (s_source s) (s_plan s)) (ks @ [i]) (tree_of (s_destination s))"
      using install_seen [OF o' conjunct1 [OF rs] p f(1) refl refl refl refl f(3)] by (simp add: fs)
    moreover have "applied s' (ks @ [i])" using ks by (auto simp: applied_def f(4))
    ultimately show ?thesis using root by (auto simp: f(4))
  qed
qed

lemma start_push_ok:
  assumes o: "obeys os (root_fd r) view" "obeys_scan os (root_fd r) view" and safe: "safe_name (root_prefix r)"
    and wf: "tree_wf (view w)" and root: "v_root v = r"
    and run: "start_session os sha c perm push opt path m v w = (Inr (rep, v'), w')" and new: "v_session v' = Some s'"
  shows "(\<exists>path. subtree r path = Inr (s_root s')) \<and> (s_push s' \<longrightarrow> applied s' []
    \<and> seen (s_root s') (view w') = tree_of (s_destination s'))"
proof -
  from run obtain r' there w1 sc w2 p now w3 where r': "subtree (v_root v) path = Inr r'"
    and ex: "(if push then returnI True else exists_path os r' []) w = (Inr there, w1)"
    and sc: "scan_root os sha r' (checksum opt) w1 = (Inr sc, w2)"
    and now: "nowI os w2 = (Inr now, w3)" and w': "w' = w3"
    and s': "s_root s' = r'" "s_push s' = push" "push \<Longrightarrow> s_destination s' = sc_entries sc" "s_prepared s' = False"
      "s_done s' = {||}"
    using new by (cases push) (auto simp: start_session_def bindI_Inr Let_def split: if_splits prod.splits)
  note rs = subtree_safe [OF safe, of path r'] r' root
  have o': "obeys os (root_fd r') view" "obeys_scan os (root_fd r') view" using o rs by simp_all
  have "seen r' (view w') = tree_of (sc_entries sc)" if push
  proof -
    have "w1 = w" using ex that by simp
    with sc wf have "tree_of (sc_entries sc) = seen r' (view w)" "extends (view w) (view w2)"
      using walk_describes [OF o' _ _ , of w] rs by (simp_all add: seen_def)
    moreover have "extends (view w2) (view w3)" by (rule growsD [OF grows_reads(7) [OF o(1)] now])
    ultimately show ?thesis by (simp add: w' extends_seen)
  qed
  with s' r' root show ?thesis by (auto simp: applied_def)
qed

lemma push_ok_receive:
  assumes inv: "push_ok r perms v fs" and s: "v_session v = Some s"
    and ok: "server_ok perms (v\<lparr>v_session := Some (s\<lparr>s_received := Some f\<rparr>)\<rparr>)"
  shows "push_ok r perms (v\<lparr>v_session := Some (s\<lparr>s_received := Some f\<rparr>)\<rparr>) fs"
proof (rule push_okI [OF _ ok])
  fix t
  assume "v_session (v\<lparr>v_session := Some (s\<lparr>s_received := Some f\<rparr>)\<rparr>) = Some t" "s_push t" "\<not> dry_run (s_options t)"
  then have t: "t = s\<lparr>s_received := Some f\<rparr>" "s_push s" "\<not> dry_run (s_options s)" by auto
  from push_okD [OF inv s t(2,3)] obtain path ks where "subtree r path = Inr (s_root s)" "applied s ks"
    "seen (s_root s) fs = fold (put_entry (s_source s) (s_plan s)) ks (tree_of (s_destination s))" by blast
  then show "(\<exists>path. subtree r path = Inr (s_root t))
      \<and> (\<exists>ks. applied t ks
           \<and> seen (s_root t) fs = fold (put_entry (s_source t) (s_plan t)) ks (tree_of (s_destination t)))"
    by (intro conjI exI [of _ path] exI [of _ ks]) (simp_all add: t(1) applied_def)
qed (use inv in \<open>simp add: push_ok_def\<close>)

lemma event_push_ok:
  assumes o: "obeys os (root_fd r) view" "obeys_scan os (root_fd r) view" and safe: "safe_name (root_prefix r)"
    and ev: "event os sha perms view (v, w) (v', w')" and inv: "push_ok r perms v (view w)"
  shows "push_ok r perms v' (view w')"
  using ev
proof cases
  case (ev_request c req x)
  note root = inv [unfolded push_ok_def, THEN conjunct1]
  have ok: "server_ok perms v" using inv by (simp add: push_ok_def)
  obtain y w1 where y: "handle_inner os sha c (perms c) req v w = (y, w1)" by fastforce
  show ?thesis
  proof (cases y)
    case (Inl e)
    then have v': "v' = disconnect c v" "w' = w1" using ev_request(1) y by (auto simp: handle_def)
    show ?thesis
    proof (cases "\<exists>s. v_session v = Some s \<and> s_connection s \<noteq> c")
      case True
      then obtain s where s: "v_session v = Some s" "s_connection s \<noteq> c" by blast
      from foreign_inner [OF s] y have "w1 = w" by (metis prod.inject)
      moreover have "disconnect c v = v" using s by (simp add: disconnect_def)
      ultimately show ?thesis using inv v' by simp
    next
      case False
      then have "v_session (disconnect c v) = None" by (cases "v_session v") (auto simp: disconnect_def)
      then show ?thesis using root v' by (intro push_ok_none) (auto simp: disconnect_def)
    qed
  next
    case (Inr z)
    obtain rep v2 where z: "z = (rep, v2)" by (cases z)
    have v': "v' = v2" "w' = w1" using ev_request(1) y Inr z by (auto simp: handle_def)
    have run: "handle_inner os sha c (perms c) req v w = (Inr (rep, v'), w')" using y Inr z v' by simp
    show ?thesis
    proof (rule push_okI)
      show "server_ok perms v'" by (rule handle_inner_ok [OF run ok])
    next
      show "v_root v' = r"
      proof (cases "\<exists>push opt path m. req = Start push opt path m")
        case True
        with run root show ?thesis
          by (auto simp: handle_inner_def start_session_def bindI_Inr Let_def split: if_splits prod.splits)
      next
        case False
        with handle_command_Inr [OF run] root show ?thesis by auto
      qed
    next
      fix s' assume new: "v_session v' = Some s'" "s_push s'" "\<not> dry_run (s_options s')"
      show "(\<exists>path. subtree r path = Inr (s_root s'))
        \<and> (\<exists>ks. applied s' ks \<and> seen (s_root s') (view w')
             = fold (put_entry (s_source s') (s_plan s')) ks (tree_of (s_destination s')))"
      proof (cases "\<exists>push opt path m. req = Start push opt path m")
        case True
        then obtain push opt path m where "start_session os sha c (perms c) push opt path m v w = (Inr (rep, v'), w')"
          using run by (auto simp: handle_inner_def split: if_splits)
        from start_push_ok [OF o safe ev_request(2) root this new(1)] new(2) show ?thesis
          by (auto intro!: exI [of _ "[]"])
      next
        case False
        with handle_command_Inr [OF run] obtain s now w2 where s: "v_session v = Some s"
          "nowI os w = (Inr now, w2)" "command os sha req (s\<lparr>s_activity := now\<rparr>) w2 = (Inr (rep, Some s'), w')"
          using new(1) by auto
        have "extends (view w) (view w2)" by (rule growsD [OF grows_reads(7) [OF o(1)] s(2)])
        with inv have inv2: "push_ok r perms v (view w2)" by (rule push_ok_extends)
        have "s_push s" "\<not> dry_run (s_options s)"
          using s(3) new(2,3) unfolding command_Inr
          by (cases req; auto simp: begin_file_Inr commit_file_Inr get_file_Inr verify_file_Inr)+
        from command_push_ok [OF o(1) safe inv2 s(1) this s(3)] show ?thesis .
      qed
    qed
  qed
next
  case (ev_completion c f)
  have "server_ok perms v'" by (rule receive_ok [OF ev_completion(2)]) (use inv in \<open>simp add: push_ok_def\<close>)
  moreover have "v' = v \<or> (\<exists>s. v_session v = Some s \<and> v' = v\<lparr>v_session := Some (s\<lparr>s_received := Some f\<rparr>)\<rparr>)"
    using ev_completion(2) by (auto simp: receive_def result_simps split: option.splits if_splits)
  ultimately show ?thesis
    using push_ok_receive [OF inv] inv ev_completion(1) by auto
next
  case (ev_lost c)
  then show ?thesis using inv by (auto simp: push_ok_def disconnect_def server_ok_def)
next
  case (ev_traffic c now)
  then show ?thesis
    using inv by (auto simp: push_ok_def touch_def server_ok_def session_activity applied_def split: option.split)
next
  case (ev_lease now timeout)
  then show ?thesis
    using inv by (auto simp: push_ok_def expire_def server_ok_def split: option.split)
next
  case ev_outside
  then show ?thesis using inv push_ok_extends by blast
qed

lemma run_push_ok:
  assumes "obeys os (root_fd r) view" "obeys_scan os (root_fd r) view" "safe_name (root_prefix r)"
    and "(event os sha perms view)\<^sup>*\<^sup>* (new_server r, w0) (v, w)"
  shows "push_ok r perms v (view w)"
  using assms(4)
proof (induction rule: rtranclp_induct2)
  case refl
  show ?case by (rule push_ok_none) (simp_all add: new_server_def)
next
  case (step v1 w1 v2 w2)
  from event_push_ok [OF assms(1-3) step(2,3)] show ?case .
qed

section \<open>Properties\<close>

text \<open>C1: A finished push has converged. Take a server whose export is a tree as the system calls describe,
  and any history of requests, completions, disconnects and expirations in which nothing else changes
  the tree. When the owner's FINISH of a push that is no dry run is answered with success, then at every
  path that is not at or below a protected object the export holds what the pushed manifest holds; with
  deletion, what the manifest does not hold is gone, unless it contains something protected; everything
  else is as it was when the session began.\<close>

theorem push_converges:
  assumes o: "obeys os (root_fd r) view" "obeys_scan os (root_fd r) view" and safe: "safe_name (root_prefix r)"
    and hist: "(event os sha perms view)\<^sup>*\<^sup>* (new_server r, w0) (v, w)"
    and s: "v_session v = Some s" "s_push s" "\<not> dry_run (s_options s)"
    and fin: "handle os sha c (perms c) Finish v w = ((Inr rep, v'), w')"
  shows "seen (s_root s) (view w') path =
    (if shielded (s_source s) (s_destination s) path then tree_of (s_destination s) path
     else if tree_of (s_source s) path \<noteq> None then tree_of (s_source s) path
     else if delete (s_options s) \<and> \<not> shields (s_source s) (s_destination s) path then None
     else tree_of (s_destination s) path)"
proof -
  let ?p = "s_plan s" and ?src = "s_source s" and ?dst = "s_destination s"
  have inv: "push_ok r perms v (view w)" by (rule run_push_ok [OF o safe hist])
  have "handle_inner os sha c (perms c) Finish v w = (Inr (rep, v'), w')" using fin by (simp add: handle_Inr)
  with handle_command_Inr [OF this] s(1) obtain now w1 nx where now: "nowI os w = (Inr now, w1)"
    and cmd: "command os sha Finish (s\<lparr>s_activity := now\<rparr>) w1 = (Inr (rep, nx), w')" by auto
  have "extends (view w) (view w1)" by (rule growsD [OF grows_reads(7) [OF o(1)] now])
  with inv have inv1: "push_ok r perms v (view w1)" by (rule push_ok_extends)
  from push_okD [OF inv1 s] obtain pth ks where root: "subtree r pth = Inr (s_root s)" and ks: "applied s ks"
    and fs: "seen (s_root s) (view w1) = fold (put_entry ?src ?p) ks (tree_of ?dst)" and ok: "session_ok perms s" by blast
  note rs = subtree_safe [OF safe root] and p = session_plan [OF ok]
  have o': "obeys os (root_fd (s_root s)) view" using o(1) rs by simp
  from cmd have "finish_session os (s\<lparr>s_activity := now\<rparr>) w1 = (Inr (), w')" by (simp add: command_Inr)
  with s obtain w2 where all: "fcard (s_done s) = length (files ?p)"
    and pr: "if s_prepared s then w2 = w1 else prepare os (s_root s) ?src ?p w1 = (Inr (), w2)"
    and fi: "finish os (s_root s) ?src ?p w2 = (Inr (), w')"
    by (auto simp: finish_session_def bindI_Inr protocol_error_def split: if_splits)
  note files_done = session_all_done [OF ok all]
  obtain ks2 where ks2: "set ks2 = set (directories ?p) \<union> set (files ?p)"
    "seen (s_root s) (view w2) = fold (put_entry ?src ?p) ks2 (tree_of ?dst)"
  proof (cases "s_prepared s")
    case True
    with that [of ks] show ?thesis using ks fs pr files_done by (simp add: applied_def)
  next
    case False
    then have empty: "s_done s = {||}" using ok s(2) by (auto simp: session_ok_defs)
    with False ks have "ks = []" by (simp add: applied_def)
    with prepare_seen [OF o' conjunct1 [OF rs] p, of w1 w2] pr False fs
    have "seen (s_root s) (view w2) = fold (put_entry ?src ?p) (directories ?p) (tree_of ?dst)" by simp
    moreover have "set (files ?p) = {}" using files_done empty by simp
    ultimately show ?thesis using that [of "directories ?p"] by simp
  qed
  have "seen (s_root s) (view w') = carry_out ?src ?p (tree_of ?dst)"
    by (rule finish_seen [OF o' conjunct1 [OF rs] p fi ks2(2,1)])
  then show ?thesis unfolding carry_out_eq [OF p] tree_of_None [of ?src path] by simp
qed

end
