(* ===== verification/Memory_Fs.thy ===== *)
theory Memory_Fs
  imports Client1 Push_Session
begin

text \<open>
  A file system in memory that satisfies the laws of \<open>Fs_Model\<close>, and a scripted transport over it: the
  concrete functions the theorems about file systems and transports are evaluated on. The world is the
  view itself with the number of the next descriptor, the bytes still to be read from each file that was
  received, and the answers and files the peer is going to send.
\<close>

record mem = fs_view +
  m_next :: fd
  m_input :: "fd \<Rightarrow> byte list"
  m_answers :: "byte list list"
  m_files :: "received_file list"

definition alloc :: "str \<Rightarrow> mem \<Rightarrow> fd sys \<times> mem" where
  "alloc p w =
     (let d = m_next w in
      if fs_handle w d \<noteq> None \<or> fs_temp w d \<noteq> None then (Inl (OtherIo []), w)
      else (Inr d, w\<lparr>fs_handle := (fs_handle w)(d \<mapsto> p), m_next := Suc d\<rparr>))"

definition mem_open :: "fd \<Rightarrow> str \<Rightarrow> open_mode \<Rightarrow> mem \<Rightarrow> fd sys \<times> mem" where
  "mem_open rf path m w =
     (let p = (if path = dot then [] else path); n = (if p = [] then Some Directory_node else fs_tree w p) in
      if m = Open_lock \<or> n = None \<or> (m = Open_dir \<and> n \<noteq> Some Directory_node) then (Inl NotFound, w)
      else alloc p w)"

definition node_metadata :: "node \<Rightarrow> Os.metadata" where
  "node_metadata n =
     (case n of
        File_node sz sec ns \<Rightarrow> \<lparr>m_type = Regular, m_dev = 1, m_ino = 1, m_len = sz, m_mtime = sec,
          m_mtime_ns = ucast ns, m_ctime = 0, m_ctime_ns = 0, m_nlink = 1\<rparr>
      | Directory_node \<Rightarrow> \<lparr>m_type = Dir, m_dev = 1, m_ino = 1, m_len = 0, m_mtime = 0, m_mtime_ns = 0,
          m_ctime = 0, m_ctime_ns = 0, m_nlink = 1\<rparr>
      | Protected_node \<Rightarrow> \<lparr>m_type = Special, m_dev = 1, m_ino = 1, m_len = 0, m_mtime = 0, m_mtime_ns = 0,
          m_ctime = 0, m_ctime_ns = 0, m_nlink = 1\<rparr>)"

definition mem_metadata :: "fd \<Rightarrow> mem \<Rightarrow> Os.metadata sys \<times> mem" where
  "mem_metadata f w =
     (case fs_handle w f of
        None \<Rightarrow> (Inl (OtherIo []), w)
      | Some p \<Rightarrow> (case (if p = [] then Some Directory_node else fs_tree w p) of
            None \<Rightarrow> (Inl (OtherIo []), w) | Some n \<Rightarrow> (Inr (node_metadata n), w)))"

definition mem_openat :: "fd \<Rightarrow> str \<Rightarrow> mem \<Rightarrow> fd sys \<times> mem" where
  "mem_openat d n w =
     (case fs_handle w d of
        None \<Rightarrow> (Inl NotFound, w)
      | Some p \<Rightarrow> if fs_tree w (child_path p n) = None then (Inl NotFound, w) else alloc (child_path p n) w)"

definition mem_read_dir :: "fd \<Rightarrow> mem \<Rightarrow> byte list sys list sys \<times> mem" where
  "mem_read_dir d w =
     (case fs_handle w d of
        None \<Rightarrow> (Inl NotFound, w)
      | Some p \<Rightarrow>
          (let names = {n. name_ok n \<and> fs_tree w (child_path p n) \<noteq> None} in
           if finite names then (Inr (map Inr (sorted_list_of_set names)), w) else (Inl (OtherIo []), w)))"

definition mem_mkdir :: "fd \<Rightarrow> str \<Rightarrow> mem \<Rightarrow> unit sys \<times> mem" where
  "mem_mkdir d n w =
     (case fs_handle w d of
        None \<Rightarrow> (Inl NotFound, w)
      | Some p \<Rightarrow> if fs_tree w (child_path p n) \<noteq> None then (Inl AlreadyExists, w)
          else (Inr (), w\<lparr>fs_tree := (fs_tree w)(child_path p n \<mapsto> Directory_node)\<rparr>))"

definition mem_unlink :: "fd \<Rightarrow> str \<Rightarrow> bool \<Rightarrow> mem \<Rightarrow> unit sys \<times> mem" where
  "mem_unlink d n dir w =
     (case fs_handle w d of
        None \<Rightarrow> (Inl NotFound, w)
      | Some p \<Rightarrow> (case fs_tree w (child_path p n) of
            None \<Rightarrow> (Inl NotFound, w)
          | Some x \<Rightarrow> if dir \<longleftrightarrow> x = Directory_node then (Inr (), w\<lparr>fs_tree := (fs_tree w)(child_path p n := None)\<rparr>)
              else (Inl (OtherIo []), w)))"

definition mem_rename :: "fd \<Rightarrow> str \<Rightarrow> fd \<Rightarrow> str \<Rightarrow> mem \<Rightarrow> unit sys \<times> mem" where
  "mem_rename d a d' b w =
     (case (fs_handle w d, fs_handle w d') of
        (Some p, Some q) \<Rightarrow>
          if fs_tree w (child_path p a) = None then (Inl NotFound, w)
          else (Inr (), w\<lparr>fs_tree := (fs_tree w)(child_path p a := None, child_path q b := fs_tree w (child_path p a))\<rparr>)
      | _ \<Rightarrow> (Inl NotFound, w))"

definition mem_write :: "fd \<Rightarrow> byte list \<Rightarrow> mem \<Rightarrow> unit sys \<times> mem" where
  "mem_write f b w =
     (case fs_temp w f of
        None \<Rightarrow> (Inr (), w\<lparr>m_input := (m_input w)(f := m_input w f @ b)\<rparr>)
      | Some q \<Rightarrow> (case fs_tree w q of
            Some (File_node sz sec ns) \<Rightarrow>
              (Inr (), w\<lparr>fs_tree := (fs_tree w)(q \<mapsto> File_node (sz + word_of_nat (length b)) sec ns)\<rparr>)
          | _ \<Rightarrow> (Inl (OtherIo []), w)))"

definition mem_times :: "fd \<Rightarrow> i64 \<Rightarrow> u32 \<Rightarrow> mem \<Rightarrow> unit sys \<times> mem" where
  "mem_times f sec ns w =
     (case fs_temp w f of
        None \<Rightarrow> (Inr (), w)
      | Some q \<Rightarrow> if fs_handle w f \<noteq> None then (Inl (OtherIo []), w)
          else (case fs_tree w q of
            Some (File_node sz _ _) \<Rightarrow> (Inr (), w\<lparr>fs_tree := (fs_tree w)(q \<mapsto> File_node sz sec ns)\<rparr>)
          | _ \<Rightarrow> (Inr (), w)))"

definition mem_tempfile_in :: "fd \<Rightarrow> str \<Rightarrow> mem \<Rightarrow> (fd \<times> str) sys \<times> mem" where
  "mem_tempfile_in d pre w =
     (case fs_handle w d of
        None \<Rightarrow> (Inl NotFound, w)
      | Some p \<Rightarrow>
          (let n = pre @ ascii ''tmp''; f = m_next w in
           if fs_tree w (child_path p n) \<noteq> None then (Inl AlreadyExists, w)
           else (Inr (f, n), w\<lparr>fs_tree := (fs_tree w)(child_path p n \<mapsto> File_node 0 0 0),
                  fs_temp := (fs_temp w)(f \<mapsto> child_path p n), m_next := Suc f\<rparr>)))"

definition mem_os :: "mem os" where
  "mem_os =
     \<lparr>os_openat2 = mem_open,
      os_openat = mem_openat,
      os_metadata = mem_metadata,
      os_read_dir = mem_read_dir,
      os_mkdirat = mem_mkdir,
      os_unlinkat = mem_unlink,
      os_renameat = mem_rename,
      os_sync = (\<lambda>_ w. (Inr (), w)),
      os_futimens = mem_times,
      os_flock = (\<lambda>_ _ w. (Inr (), w)),
      os_read = (\<lambda>f n w. (Inr (take n (m_input w f)), w\<lparr>m_input := (m_input w)(f := drop n (m_input w f))\<rparr>)),
      os_write = mem_write,
      os_rewind = (\<lambda>_ w. (Inr (), w)),
      os_seek = (\<lambda>_ _ w. (Inr (), w)),
      os_tempfile_in = mem_tempfile_in,
      os_tempfile = (\<lambda>w. (Inr (m_next w), w\<lparr>m_next := Suc (m_next w)\<rparr>)),
      os_open_root = (\<lambda>_ w. (Inr 0, w)),
      os_create_dirs = (\<lambda>_ w. (Inr (), w)),
      os_now = (\<lambda>w. (5, w)),
      os_clock = (\<lambda>w. (Some 5, w)),
      os_reads = 10\<rparr>"

abbreviation mem_view :: "mem \<Rightarrow> fs_view" where
  "mem_view \<equiv> fs_view.truncate"

lemma mem_view_simps [simp]:
  "fs_tree (mem_view w) = fs_tree w" "fs_handle (mem_view w) = fs_handle w" "fs_temp (mem_view w) = fs_temp w"
  by (simp_all add: fs_view.truncate_def)

lemma mem_view_eq: "mem_view w = v \<longleftrightarrow> fs_tree w = fs_tree v \<and> fs_handle w = fs_handle v \<and> fs_temp w = fs_temp v"
  by (cases v) (auto simp: fs_view.truncate_def)

lemma extends_mem [simp]:
  "fs_tree w' = fs_tree w \<Longrightarrow> fs_handle w' = fs_handle w \<Longrightarrow> fs_temp w' = fs_temp w
     \<Longrightarrow> extends (mem_view w) (mem_view w')"
  by (simp add: extends_def)

lemma alloc_extends: "alloc p w = (x, w') \<Longrightarrow> extends (mem_view w) (mem_view w')"
  by (auto simp: alloc_def Let_def extends_def map_le_def split: if_splits)

lemma alloc_Inr:
  "alloc p w = (Inr d, w') \<Longrightarrow> fs_handle w d = None \<and> fs_temp w d = None
     \<and> mem_view w' = (mem_view w)\<lparr>fs_handle := (fs_handle w)(d \<mapsto> p)\<rparr>"
  by (auto simp: alloc_def Let_def mem_view_eq split: if_splits)

lemma mem_open_cases:
  assumes "safe_name p" "mem_open rf (if p = [] then dot else p) m w = (x, w')"
  shows "x = Inl NotFound \<and> w' = w \<or> alloc p w = (x, w') \<and> (m = Open_dir \<longrightarrow> is_dir (mem_view w) p)"
proof -
  have "components dot = [dot]" "dot \<noteq> []" by (simp_all add: dot_def ascii_def)
  then have "\<not> safe_name dot" by (simp add: safe_name_def bad_component_def)
  with assms(1) have "p \<noteq> dot" by metis
  with assms(2) show ?thesis
    by (cases "p = []") (auto simp: mem_open_def Let_def is_dir_def split: if_splits)
qed

lemma mem_obeys_open: "obeys_open mem_os rf mem_view"
proof -
  have os: "os_openat2 mem_os = mem_open" by (simp add: mem_os_def)
  show ?thesis
    unfolding obeys_open_def os
  proof (intro conjI allI impI; elim conjE)
    fix p m w w' e
    assume "safe_name p" "mem_open rf (if p = [] then dot else p) m w = (Inl e, w')"
    from mem_open_cases [OF this] show "extends (mem_view w) (mem_view w')"
      using alloc_extends by auto
  next
    fix p m w w' d
    assume "safe_name p" "mem_open rf (if p = [] then dot else p) m w = (Inr d, w')"
    from mem_open_cases [OF this] have "alloc p w = (Inr d, w')" "m = Open_dir \<longrightarrow> is_dir (mem_view w) p" by auto
    with alloc_Inr [OF this(1)]
    show "fs_handle (mem_view w) d = None" "fs_temp (mem_view w) d = None"
      "mem_view w' = (mem_view w)\<lparr>fs_handle := (fs_handle (mem_view w))(d \<mapsto> p)\<rparr>"
      "m = Open_dir \<Longrightarrow> is_dir (mem_view w) p" by simp_all
  qed
qed

lemma mem_obeys_rest:
  "obeys_reads mem_os mem_view" "obeys_mkdir mem_os mem_view" "obeys_unlink mem_os mem_view"
  "obeys_rename mem_os mem_view"
proof -
  show "obeys_reads mem_os mem_view"
  proof -
    have "extends (mem_view w) (mem_view (snd (alloc p w)))" for p w
      using alloc_extends [of p w "fst (alloc p w)" "snd (alloc p w)"] by simp
    then have "extends (mem_view w) (mem_view (snd (mem_openat d n w)))" for d n w
      by (auto simp: mem_openat_def split: option.split)
    then show ?thesis
      by (auto simp: obeys_reads_def mem_os_def mem_metadata_def mem_read_dir_def Let_def split: option.split)
  qed
  show "obeys_mkdir mem_os mem_view"
    by (auto simp: obeys_mkdir_def mem_os_def mem_mkdir_def mem_view_eq split: if_splits)
  show "obeys_unlink mem_os mem_view"
    by (auto simp: obeys_unlink_def mem_os_def mem_unlink_def keep_handles_def split: if_splits option.splits)
  show "obeys_rename mem_os mem_view"
    by (auto simp: obeys_rename_def mem_os_def mem_rename_def keep_handles_def split: if_splits option.splits)
qed

lemma temp_name_ok: "name_ok (reserved_prefix @ ascii ''tmp'')"
  by (simp add: name_ok_def bad_component_def reserved_prefix_def dot_def dotdot_def ascii_def)

lemma mem_obeys_files:
  "obeys_tempfile mem_os mem_view" "obeys_write mem_os mem_view" "obeys_times mem_os mem_view"
proof -
  show "obeys_tempfile mem_os mem_view"
    using temp_name_ok
    by (auto simp: obeys_tempfile_def mem_os_def mem_tempfile_in_def Let_def mem_view_eq starts_with_iff
        split: if_splits option.splits)
  show "obeys_write mem_os mem_view"
    unfolding obeys_write_def
  proof (intro allI impI, elim conjE)
    fix f q b sz sec ns w u w'
    assume "fs_temp (mem_view w) f = Some q" "fs_tree (mem_view w) q = Some (File_node sz sec ns)"
      "os_write mem_os f b w = (Inr u, w')"
    then show "\<exists>sec ns. mem_view w' = (mem_view w)\<lparr>
        fs_tree := (fs_tree (mem_view w))(q \<mapsto> File_node (sz + word_of_nat (length b)) sec ns)\<rparr>"
      by (intro exI [of _ sec] exI [of _ ns]) (auto simp: mem_os_def mem_write_def mem_view_eq)
  qed
  show "obeys_times mem_os mem_view"
    by (auto simp: obeys_times_def mem_os_def mem_times_def mem_view_eq split: option.splits node.splits if_splits)
qed

lemma mem_obeys: "obeys mem_os rf mem_view"
  by (simp add: obeys_def mem_obeys_open mem_obeys_rest mem_obeys_files)

lemma mem_obeys_scan: "obeys_scan mem_os rf mem_view"
  unfolding obeys_scan_def
proof (intro conjI allI impI; (elim conjE)?)
  have ns: "ucast (ucast x :: i64) = x" for x :: u32
    by (rule bit_word_eqI) (simp add: bit_simps)
  fix f p w m w'
  assume "fs_handle (mem_view w) f = Some p" "os_metadata mem_os f w = (Inr m, w')"
  then show "describes (mem_view w) p m"
    by (auto simp: mem_os_def mem_metadata_def describes_def node_metadata_def ns split: option.splits if_splits node.split)
next
  fix f w show "fst (os_metadata mem_os f w) \<noteq> Inl NotFound"
    by (auto simp: mem_os_def mem_metadata_def split: option.split)
next
  fix d p n w f w'
  assume "fs_handle (mem_view w) d = Some p" "os_openat mem_os d n w = (Inr f, w')"
  then have "fs_tree w (child_path p n) \<noteq> None" "alloc (child_path p n) w = (Inr f, w')"
    by (auto simp: mem_os_def mem_openat_def split: if_splits)
  with alloc_Inr [OF this(2)]
  show "fs_handle (mem_view w') f = Some (child_path p n)" "fs_tree (mem_view w) (child_path p n) \<noteq> None"
    by simp_all
next
  fix d p w items w' n
  assume "fs_handle (mem_view w) d = Some p" "os_read_dir mem_os d w = (Inr items, w')"
  then have "set items = Inr ` {n. name_ok n \<and> fs_tree w (child_path p n) \<noteq> None}"
    by (auto simp: mem_os_def mem_read_dir_def Let_def split: if_splits)
  then show "Inr n \<in> set items \<longleftrightarrow> name_ok n \<and> fs_tree (mem_view w) (child_path p n) \<noteq> None"
    by auto
next
  fix p w
  assume p: "safe_name p" and nf: "fst (os_openat2 mem_os rf (if p = [] then dot else p) Open_path w) = Inl NotFound"
  obtain x w' where x: "mem_open rf (if p = [] then dot else p) Open_path w = (x, w')" by fastforce
  have "fst (alloc p w) \<noteq> Inl NotFound" by (simp add: alloc_def Let_def)
  then have "\<not> alloc p w = (Inl NotFound, w')" by auto
  with nf x have na: "alloc p w \<noteq> (x, w')" by (auto simp: mem_os_def)
  have "components dot = [dot]" "dot \<noteq> []" by (simp_all add: dot_def ascii_def)
  then have "\<not> safe_name dot" by (simp add: safe_name_def bad_component_def)
  with p have "p \<noteq> dot" by metis
  with x na show "p \<noteq> []" "fs_tree (mem_view w) p = None"
    by (cases "p = []"; auto simp: mem_open_def Let_def split: if_splits)+
qed

section \<open>A scripted peer\<close>

definition mem_link :: "mem link" where
  "mem_link =
     \<lparr>l_request = (\<lambda>_ _ w. case m_answers w of
        [] \<Rightarrow> (Inl (Transport []), w) | a # as \<Rightarrow> (Inr a, w\<lparr>m_answers := as\<rparr>)),
      l_send_file = (\<lambda>_ _ _ w. (Inr 42, w)),
      l_receive_file = (\<lambda>_ _ w. case m_files w of
        [] \<Rightarrow> (Inl (Transport []), w) | f # fs \<Rightarrow> (Inr f, w\<lparr>m_files := fs\<rparr>)),
      l_close = (\<lambda>w. (Inr (), w))\<rparr>"

lemma mem_link_apart: "link_apart mem_link (\<lambda>_. returnI ()) mem_view"
  by (auto simp: link_apart_def mem_link_def split: list.split)

section \<open>A pull of one file\<close>

definition demo_job :: job where
  "demo_job = \<lparr>j_push = False, j_path = [], j_options = demo_options, j_deadline = 60\<rparr>"

definition empty_scan :: scan_result where
  "empty_scan = \<lparr>sc_entries = [], sc_stamps = []\<rparr>"

text \<open>The peer answers with a manifest of the file \<open>f\<close>, and with OK three times.\<close>

definition demo_world :: mem where
  "demo_world =
     \<lparr>fs_tree = (\<lambda>_. None), fs_handle = (\<lambda>_. None), fs_temp = (\<lambda>_. None), m_next = 10,
      m_input = (\<lambda>_. [1, 2, 3]),
      m_answers = [message_bytes (Manifest [demo_file]), message_bytes Ok, message_bytes Ok, message_bytes Ok],
      m_files = [demo_received]\<rparr>"

lemma demo_manifest_ok: "manifest_ok False [demo_file]" "manifest_ok False []"
  using planD(1) [OF demo_planned] planD(2) [OF demo_planned] by (simp_all add: demo_options_def)

lemma demo_answers:
  "decode (message_bytes (Manifest [demo_file])) = Inr (Manifest [demo_file])"
  "decode (message_bytes Ok) = Inr Ok"
proof -
  have "valid_utf8 (ascii ''f'')" by (rule valid_utf8_ascii) auto
  then have "valid_utf8 (e_path demo_file)" by (simp add: demo_file_def)
  then show "decode (message_bytes (Manifest [demo_file])) = Inr (Manifest [demo_file])"
    "decode (message_bytes Ok) = Inr Ok"
    using demo_manifest_ok(1)
    by (simp_all add: decode_iff message_bytes_def manifest_bytes_def entry_bytes_def string_bytes_def
        typed_manifest_def optional_hash_bytes_def MAX_CONTROL_def demo_file_def)
qed

lemma demo_encodes:
  "encode (Start push demo_options [] []) = Inr (message_bytes (Start push demo_options [] []))"
  "encode (Get i) = Inr (message_bytes (Get i))" "encode (Verified i) = Inr (message_bytes (Verified i))"
  "encode Finish = Inr (message_bytes Finish)"
  using demo_manifest_ok(2)
  by (simp_all add: encode_iff message_bytes_def manifest_bytes_def string_bytes_def MAX_CONTROL_def)

lemma demo_names:
  "ascii ''f'' \<noteq> dot" "ascii ''f'' \<noteq> reserved_prefix @ ascii ''tmp''" "ascii ''f'' \<noteq> []"
  "reserved_prefix @ ascii ''tmp'' \<noteq> ascii ''f''"
  by (simp_all add: ascii_def dot_def reserved_prefix_def)

lemma demo_pull:
  "synchronize mem_os (\<lambda>_. 0) mem_link demo_root empty_scan demo_job (\<lambda>_. returnI ()) demo_world
     = (Inr (), snd (synchronize mem_os (\<lambda>_. 0) mem_link demo_root empty_scan demo_job (\<lambda>_. returnI ()) demo_world))"
  using demo_answers demo_encodes demo_paths demo_planned demo_names
  by (simp add: synchronize_def synchronize_inner_def request_def expect_ok_def callI_def pull_file_def run_defs
      demo_job_def empty_scan_def demo_world_def demo_received_def demo_root_def demo_file_def demo_options_def demo_plan_def
      mem_link_def mem_os_def mem_open_def alloc_def mem_metadata_def mem_mkdir_def mem_unlink_def mem_rename_def
      mem_write_def mem_times_def mem_tempfile_in_def bt_get_def stage_loop.simps read_from_def child_path_def)

lemma pull_carries_out_witness:
  "\<exists>theirs p. plan theirs [] demo_options = Inr p
     \<and> seen demo_root (mem_view (snd (synchronize mem_os (\<lambda>_. 0) mem_link demo_root empty_scan demo_job
          (\<lambda>_. returnI ()) demo_world))) = carry_out theirs p (\<lambda>_. None)"
proof -
  have safe: "safe_name (root_prefix demo_root)" by (simp add: demo_root_def safe_name_def)
  have empty: "seen demo_root (mem_view demo_world) = (\<lambda>_. None)"
    by (auto simp: seen_def scanned_def rel_def demo_world_def fun_eq_iff)
  moreover have "tree_of (sc_entries empty_scan) = (\<lambda>_. None)" by (simp add: tree_of_def empty_scan_def fun_eq_iff)
  ultimately have start: "seen demo_root (mem_view demo_world) = tree_of (sc_entries empty_scan)" by simp
  have job: "\<not> j_push demo_job" "\<not> dry_run (j_options demo_job)" by (simp_all add: demo_job_def demo_options_def)
  from pull_carries_out [OF mem_obeys safe mem_link_apart job start demo_pull]
  show ?thesis by (auto simp: empty empty_scan_def demo_job_def)
qed

text \<open>A directory with one file, scanned.\<close>

definition demo_tree :: mem where
  "demo_tree = demo_world\<lparr>fs_tree := [ascii ''f'' \<mapsto> File_node 3 9 2]\<rparr>"

lemma demo_listing: "{n. name_ok n \<and> fs_tree demo_tree (child_path [] n) \<noteq> None} = {ascii ''f''}"
  by (auto simp: demo_tree_def child_path_def name_ok_def bad_component_def dot_def dotdot_def ascii_def)

lemma demo_stat:
  "validate_manifest False [demo_file] = Inr ()" "valid_utf8 (ascii ''f'')"
  "child_kind (ascii ''f'') (node_metadata (File_node 3 9 2)) = File"
  using demo_manifest_ok(1) valid_utf8_ascii [of "''f''"]
  by (auto simp: validate_manifest_iff child_kind_def node_metadata_def ascii_def reserved_prefix_def starts_with_def)

lemma demo_scan:
  "\<exists>st w'. scan_root mem_os (\<lambda>_. 0) demo_root False demo_tree = (Inr \<lparr>sc_entries = [demo_file], sc_stamps = st\<rparr>, w')"
proof -
  have "walk os sha r cks 130 = walk os sha r cks (Suc 129)" for os :: "mem os" and sha r cks by simp
  note fuel = this [THEN fun_cong, THEN fun_cong, unfolded walk.simps(2)]
  have names: "sorted_list_of_set {n. name_ok n \<and> (\<exists>y. fs_tree demo_tree n = Some y)} = [ascii ''f'']"
    using demo_listing by (simp add: child_path_def)
  show ?thesis
    using demo_stat demo_paths demo_names names
    by (simp add: fuel walk_child_def children_def list_child_def child_hash_def child_entry_def push_child_def
      run_defs child_path_def demo_tree_def demo_world_def demo_root_def demo_file_def stamp_of_def
      mem_os_def mem_open_def alloc_def mem_metadata_def mem_openat_def mem_read_dir_def node_metadata_def MAX_ENTRIES_def)
qed

lemma demo_tree_wf: "tree_wf (mem_view demo_tree)"
proof -
  have f: "fs_tree demo_tree q \<noteq> None \<longleftrightarrow> q = ascii ''f''" for q by (simp add: demo_tree_def)
  have "safe_name (ascii ''f'')" by (simp add: safe_name_def bad_component_def dot_def dotdot_def ascii_def)
  moreover have "p = []" if "child_path p n = ascii ''f''" "name_ok n" for p n
    using that by (cases p) (auto simp: child_path_def ascii_def name_ok_def split: if_splits)
  ultimately show ?thesis using f demo_names by (auto simp: tree_wf_def is_dir_def)
qed


lemma scan_typed_witness: "manifest_ok False [demo_file]"
proof -
  obtain st w' where run: "scan_root mem_os (\<lambda>_. 0) demo_root False demo_tree
      = (Inr \<lparr>sc_entries = [demo_file], sc_stamps = st\<rparr>, w')" using demo_scan by blast
  from scan_typed [OF run] show ?thesis by simp
qed

section \<open>A push of one file\<close>

definition pushed_world :: mem where
  "pushed_world = demo_world\<lparr>fs_handle := [10 \<mapsto> [], 11 \<mapsto> [], 12 \<mapsto> [], 13 \<mapsto> [], 14 \<mapsto> []], m_next := 15\<rparr>"

definition push_session :: session where
  "push_session = demo_session\<lparr>s_scan := \<lparr>sc_entries = [], sc_stamps = [([], \<lparr>st_dev = 1, st_ino = 1,
     st_size = 0, st_mtime = 0, st_mtime_ns = 0, st_ctime = 0, st_ctime_ns = 0\<rparr>)]\<rparr>\<rparr>"

lemmas mem_defs =
  mem_os_def mem_open_def alloc_def mem_metadata_def mem_mkdir_def mem_unlink_def mem_rename_def mem_write_def
  mem_times_def mem_tempfile_in_def mem_openat_def mem_read_dir_def node_metadata_def

lemmas push_defs =
  demo_root_def demo_file_def demo_options_def demo_plan_def demo_session_def demo_server_def demo_received_def
  push_session_def pushed_world_def new_server_def demo_world_def

abbreviation mem_handle :: "message \<Rightarrow> server \<Rightarrow> mem \<Rightarrow> (reply outcome \<times> server) \<times> mem" where
  "mem_handle \<equiv> handle mem_os (\<lambda>_. 0) 1 Full"

lemma push_start:
  "mem_handle (Start True demo_options [] [demo_file]) (new_server demo_root) demo_world
     = ((Inr (Reply (Manifest [])), demo_server push_session), pushed_world)"
proof -
  have "walk os sha r cks 130 = walk os sha r cks (Suc 129)" for os :: "mem os" and sha r cks by simp
  note fuel = this [THEN fun_cong, THEN fun_cong, unfolded walk.simps(2)]
  have "validate_manifest False [] = Inr ()" using demo_manifest_ok(2) by (simp add: validate_manifest_iff)
  then show ?thesis
    using demo_paths demo_planned
    by (simp add: fuel run_defs push_defs mem_defs children_def stamp_of_def child_path_def)
qed

lemma push_begin:
  "mem_handle (Begin 0) (demo_server push_session) pushed_world
     = ((Inr (Reply Ok), demo_server (push_session\<lparr>s_prepared := True, s_pending := Some 0\<rparr>)), pushed_world)"
  using demo_paths by (simp add: run_defs push_defs mem_defs bt_get_def)

lemma push_received:
  "receive 1 demo_received (demo_server (push_session\<lparr>s_prepared := True, s_pending := Some 0\<rparr>))
     = Inr (demo_server (push_session\<lparr>s_prepared := True, s_pending := Some 0, s_received := Some demo_received\<rparr>))"
  by (simp add: receive_def accepts_file_def push_defs)

lemma push_commit:
  "\<exists>w'. mem_handle (Commit 0 42)
      (demo_server (push_session\<lparr>s_prepared := True, s_pending := Some 0, s_received := Some demo_received\<rparr>)) pushed_world
     = ((Inr (Reply Ok), demo_server (push_session\<lparr>s_prepared := True, s_done := {|0|}\<rparr>)), w')"
  using demo_paths demo_names
  by (simp add: run_defs push_defs mem_defs bt_get_def stage_loop.simps read_from_def child_path_def)

lemma push_finish:
  "mem_handle Finish (demo_server (push_session\<lparr>s_prepared := True, s_done := {|0|}\<rparr>)) w
     = ((Inr (Reply Ok), new_server demo_root), w)"
  by (simp add: run_defs push_defs mem_defs fcard.rep_eq)

lemma push_converges_witness:
  "\<exists>w. mem_handle Finish (demo_server (push_session\<lparr>s_prepared := True, s_done := {|0|}\<rparr>)) w
       = ((Inr (Reply Ok), new_server demo_root), w)
     \<and> seen demo_root (mem_view w) (ascii ''f'') = Some (File_node 3 9 2)"
proof -
  let ?ev = "event mem_os (\<lambda>_. 0) (\<lambda>_. Full) mem_view"
  let ?s = "push_session\<lparr>s_prepared := True, s_done := {|0|}\<rparr>"
  have wf: "tree_wf (mem_view demo_world)" "tree_wf (mem_view pushed_world)"
    by (simp_all add: tree_wf_def pushed_world_def demo_world_def)
  have 1: "?ev (new_server demo_root, demo_world) (demo_server push_session, pushed_world)"
    by (rule ev_request [where c = 1 and perms = "\<lambda>_. Full" and view = mem_view, OF push_start wf(1)])
  have 2: "?ev (demo_server push_session, pushed_world)
      (demo_server (push_session\<lparr>s_prepared := True, s_pending := Some 0\<rparr>), pushed_world)"
    by (rule ev_request [where c = 1 and perms = "\<lambda>_. Full" and view = mem_view, OF push_begin wf(2)])
  have 3: "?ev (demo_server (push_session\<lparr>s_prepared := True, s_pending := Some 0\<rparr>), pushed_world)
      (demo_server (push_session\<lparr>s_prepared := True, s_pending := Some 0, s_received := Some demo_received\<rparr>), pushed_world)"
    by (rule ev_completion [OF push_received])
  obtain w where w: "mem_handle (Commit 0 42)
      (demo_server (push_session\<lparr>s_prepared := True, s_pending := Some 0, s_received := Some demo_received\<rparr>)) pushed_world
     = ((Inr (Reply Ok), demo_server ?s), w)" using push_commit by blast
  have 4: "?ev (demo_server (push_session\<lparr>s_prepared := True, s_pending := Some 0, s_received := Some demo_received\<rparr>), pushed_world)
      (demo_server ?s, w)"
    by (rule ev_request [where c = 1 and perms = "\<lambda>_. Full" and view = mem_view, OF w wf(2)])
  have hist: "?ev\<^sup>*\<^sup>* (new_server demo_root, demo_world) (demo_server ?s, w)"
    using 1 2 3 4 by (meson converse_rtranclp_into_rtranclp rtranclp.rtrancl_refl)
  have safe: "safe_name (root_prefix demo_root)" by (simp add: demo_root_def safe_name_def)
  have s: "v_session (demo_server ?s) = Some ?s" "s_push ?s" "\<not> dry_run (s_options ?s)"
    by (simp_all add: push_defs)
  have path: "ascii ''f'' \<noteq> []" by (simp add: ascii_def)
  have "seen (s_root ?s) (mem_view w) (ascii ''f'') = Some (File_node 3 9 2)"
    using push_converges [OF mem_obeys mem_obeys_scan safe hist s push_finish, of "ascii ''f''"]
    by (simp add: push_defs shielded_def tree_of_def node_of_def)
  then show ?thesis using push_finish by (intro exI [of _ w]) (simp add: push_defs)
qed

end
