(* ===== verification/Apart.thy ===== *)
theory Apart
  imports Scan_Model Chunk_Store
begin

text \<open>
  A cache of chunks lies outside the synchronized tree (\<open>transport.rs\<close> refuses any other). \<open>apart\<close> states
  what that means for the system calls: descriptors that come from opening the cache directory, or from
  another such descriptor, are \<open>side\<close> descriptors, as are anonymous files, and a call on a side descriptor
  leaves the tree alone. Every operation of a store then leaves the tree alone.
\<close>

section \<open>The laws\<close>

definition side_results :: "'w os \<Rightarrow> (fd \<Rightarrow> bool) \<Rightarrow> bool" where
  "side_results os side \<longleftrightarrow>
     (\<forall>d p m w f w'. side d \<and> os_openat2 os d p m w = (Inr f, w') \<longrightarrow> side f)
     \<and> (\<forall>d p w f n w'. side d \<and> os_tempfile_in os d p w = (Inr (f, n), w') \<longrightarrow> side f)
     \<and> (\<forall>w f w'. os_tempfile os w = (Inr f, w') \<longrightarrow> side f)"

text \<open>Opening the directory \<open>dir\<close> gives a side descriptor.\<close>

definition opens_aside :: "'w os \<Rightarrow> (fd \<Rightarrow> bool) \<Rightarrow> str \<Rightarrow> bool" where
  "opens_aside os side dir \<longleftrightarrow> (\<forall>w f w'. os_open_root os dir w = (Inr f, w') \<longrightarrow> side f)"

definition apart :: "'w os \<Rightarrow> ('w \<Rightarrow> fs_view) \<Rightarrow> (fd \<Rightarrow> bool) \<Rightarrow> bool" where
  "apart os view side \<longleftrightarrow>
     side_results os side
     \<and> (\<forall>q w. extends (view w) (view (snd (os_create_dirs os q w))))
     \<and> (\<forall>q w. extends (view w) (view (snd (os_open_root os q w))))
     \<and> (\<forall>d p m w. side d \<longrightarrow> extends (view w) (view (snd (os_openat2 os d p m w))))
     \<and> (\<forall>d n w. side d \<longrightarrow> extends (view w) (view (snd (os_mkdirat os d n w))))
     \<and> (\<forall>d n b w. side d \<longrightarrow> extends (view w) (view (snd (os_unlinkat os d n b w))))
     \<and> (\<forall>d a b w. side d \<longrightarrow> extends (view w) (view (snd (os_renameat os d a d b w))))
     \<and> (\<forall>f b w. side f \<longrightarrow> extends (view w) (view (snd (os_flock os f b w))))
     \<and> (\<forall>f b w. side f \<longrightarrow> extends (view w) (view (snd (os_write os f b w))))
     \<and> (\<forall>d p w. side d \<longrightarrow> extends (view w) (view (snd (os_tempfile_in os d p w))))
     \<and> (\<forall>w. extends (view w) (view (snd (os_tempfile os w))))
     \<and> (\<forall>f n w. extends (view w) (view (snd (os_seek os f n w))))
     \<and> (\<forall>w. extends (view w) (view (snd (os_clock os w))))"

section \<open>Computations beside the tree\<close>

text \<open>\<open>beside view Q m\<close>: every run of \<open>m\<close> leaves the tree alone, and its result has \<open>Q\<close>.\<close>

definition beside :: "('w \<Rightarrow> fs_view) \<Rightarrow> ('a \<Rightarrow> bool) \<Rightarrow> ('w, 'a) io \<Rightarrow> bool" where
  "beside view Q m \<longleftrightarrow> grows view m \<and> ensures m Q"

abbreviation aside :: "('w \<Rightarrow> fs_view) \<Rightarrow> ('w, 'a) io \<Rightarrow> bool" where
  "aside view \<equiv> beside view (\<lambda>_. True)"

named_theorems beside_rules \<open>computations beside the tree\<close>

lemma besideI: "(\<And>w. extends (view w) (view (snd (m w)))) \<Longrightarrow> (\<And>w x w'. m w = (Inr x, w') \<Longrightarrow> Q x) \<Longrightarrow> beside view Q m"
  by (auto simp: beside_def steps_def ensures_def)

lemma beside_mono: "beside view P m \<Longrightarrow> (\<And>x. P x \<Longrightarrow> Q x) \<Longrightarrow> beside view Q m"
  by (auto simp: beside_def ensures_def)

lemma beside_aside: "beside view P m \<Longrightarrow> aside view m"
  by (rule beside_mono) simp_all

lemma beside_grows: "beside view P m \<Longrightarrow> grows view m"
  by (simp add: beside_def)

lemma beside_of_grows: "grows view m \<Longrightarrow> aside view m"
  by (simp add: beside_def ensures_def)

lemma besideD: "beside view Q m \<Longrightarrow> m w = (Inr x, w') \<Longrightarrow> Q x"
  by (auto simp: beside_def ensures_def)

lemma beside_extends: "beside view Q m \<Longrightarrow> extends (view w) (view (snd (m w)))"
  unfolding beside_def by (metis growsD prod.collapse)

lemma beside_return [beside_rules]: "Q x \<Longrightarrow> beside view Q (returnI x)" "beside view Q (failI e)" "beside view Q panicI"
    "beside view Q divergeI" "(\<And>x. r = Inr x \<Longrightarrow> Q x) \<Longrightarrow> beside view Q (pureI r)"
  by (auto intro!: besideI simp: returnI_def failI_def panicI_def divergeI_def pureI_def)

lemma beside_bind [beside_rules]:
  assumes "beside view P m" "\<And>x. P x \<Longrightarrow> beside view Q (f x)"
  shows "beside view Q (bindI m f)"
proof (rule besideI)
  fix w
  obtain x w1 where m: "m w = (x, w1)" by fastforce
  have e: "extends (view w) (view w1)" using beside_extends [OF assms(1), of w] m by simp
  show "extends (view w) (view (snd (bindI m f w)))"
  proof (cases x)
    case (Inr y)
    with m have "extends (view w1) (view (snd (f y w1)))"
      by (intro beside_extends [OF assms(2)] besideD [OF assms(1)]) simp
    with e m Inr show ?thesis by (auto simp: bindI_def intro: extends_trans)
  qed (use e m in \<open>simp add: bindI_def\<close>)
next
  fix w y w' assume "bindI m f w = (Inr y, w')"
  then show "Q y" by (auto simp: bindI_Inr dest: besideD [OF assms(1)] intro: besideD [OF assms(2)])
qed

lemma beside_result [beside_rules]: "beside view Q m \<Longrightarrow> beside view (\<lambda>r. \<forall>x. r = Inr x \<longrightarrow> Q x) (resultI m)"
proof (rule besideI)
  assume m: "beside view Q m"
  fix w show "extends (view w) (view (snd (resultI m w)))"
    using beside_extends [OF m, of w] by (auto simp: resultI_def split: prod.splits sum.splits failure.splits)
next
  assume m: "beside view Q m"
  fix w x w' assume "resultI m w = (Inr x, w')"
  then show "\<forall>y. x = Inr y \<longrightarrow> Q y"
    by (auto simp: resultI_def dest: besideD [OF m] split: prod.splits sum.splits failure.splits)
qed

lemma beside_fold:
  "(\<And>x s. P s \<Longrightarrow> beside view P (f x s)) \<Longrightarrow> P s \<Longrightarrow> beside view P (foldI f xs s)"
  by (induction xs arbitrary: s) (auto intro: beside_rules)

lemma aside_fold [beside_rules]: "(\<And>x s. aside view (f x s)) \<Longrightarrow> aside view (foldI f xs s)"
  by (rule beside_fold) simp_all

lemma aside_each [beside_rules]: "(\<And>x. aside view (f x)) \<Longrightarrow> aside view (eachI f xs)"
  by (simp add: eachI_def aside_fold)

lemma beside_index [beside_rules]: "aside view (indexI xs i)" "aside view (presentI v)"
  by (auto simp: indexI_def presentI_def intro: beside_rules split: option.split)

lemma beside_if [beside_rules]:
  "(b \<Longrightarrow> beside view Q m) \<Longrightarrow> (\<not> b \<Longrightarrow> beside view Q n) \<Longrightarrow> beside view Q (if b then m else n)"
  by simp

lemma beside_case [beside_rules]:
  "(v = None \<Longrightarrow> beside view Q m) \<Longrightarrow> (\<And>x. v = Some x \<Longrightarrow> beside view Q (f x)) \<Longrightarrow>
    beside view Q (case v of None \<Rightarrow> m | Some x \<Rightarrow> f x)"
  "(\<And>e. beside view Q (g e)) \<Longrightarrow> (\<And>x. r = Inr x \<Longrightarrow> beside view Q (f' x)) \<Longrightarrow>
    beside view Q (case r of Inl e \<Rightarrow> g e | Inr x \<Rightarrow> f' x)"
  "(\<And>a b. p = (a, b) \<Longrightarrow> beside view Q (h a b)) \<Longrightarrow> beside view Q (case p of (a, b) \<Rightarrow> h a b)"
  by (simp_all split: option.split sum.split prod.split)

lemma beside_cleanup [beside_rules]:
  assumes "\<And>w. extends (view w) (view (c w))" "beside view Q m"
  shows "beside view Q (on_failI m c)" "beside view Q (finallyI m c)"
proof -
  show "beside view Q (on_failI m c)"
  proof (rule besideI)
    fix w
    obtain x w1 where m: "m w = (x, w1)" by fastforce
    have "extends (view w) (view w1)" using beside_extends [OF assms(2), of w] m by simp
    then show "extends (view w) (view (snd (on_failI m c w)))"
      using m assms(1) [of w1] by (auto simp: on_failI_def intro: extends_trans split: sum.split)
  qed (auto simp: on_failI_Inr dest: besideD [OF assms(2)])
  show "beside view Q (finallyI m c)"
  proof (rule besideI)
    fix w
    obtain x w1 where m: "m w = (x, w1)" by fastforce
    have "extends (view w) (view w1)" using beside_extends [OF assms(2), of w] m by simp
    then show "extends (view w) (view (snd (finallyI m c w)))"
      using m assms(1) [of w1] by (auto simp: finallyI_def intro: extends_trans)
  qed (auto simp: finallyI_Inr dest: besideD [OF assms(2)])
qed

lemma beside_sys:
  "(\<And>w. extends (view w) (view (snd (c w)))) \<Longrightarrow> (\<And>w x w'. c w = (Inr x, w') \<Longrightarrow> Q x) \<Longrightarrow> beside view Q (sysI c)"
  by (rule besideI) (auto simp: sysI_Inr sysI_def split: prod.splits sum.splits, metis snd_conv, metis snd_conv)

section \<open>System calls and roots\<close>

lemma apart_calls:
  assumes a: "apart os view side"
  shows "aside view (sysI (os_create_dirs os q))" "opens_aside os side q \<Longrightarrow> beside view side (sysI (os_open_root os q))"
    "side d \<Longrightarrow> beside view side (sysI (os_openat2 os d p m))" "side d \<Longrightarrow> aside view (sysI (os_mkdirat os d n))"
    "side d \<Longrightarrow> aside view (sysI (os_unlinkat os d n b))" "side d \<Longrightarrow> aside view (sysI (os_renameat os d n d n'))"
    "side d \<Longrightarrow> aside view (sysI (os_flock os d b))" "side d \<Longrightarrow> aside view (sysI (os_write os d bs))"
    "side d \<Longrightarrow> beside view (\<lambda>(f, n). side f) (sysI (os_tempfile_in os d n))" "beside view side (sysI (os_tempfile os))"
    "aside view (sysI (os_seek os d k))"
proof -
  have "side_results os side" using a by (simp add: apart_def)
  note r = this [unfolded side_results_def]
  have openat2_side: "side d \<Longrightarrow> os_openat2 os d p m w = (Inr f, w') \<Longrightarrow> side f" for w f w' using r by blast
  have temp_in_side: "side d \<Longrightarrow> os_tempfile_in os d n w = (Inr x, w') \<Longrightarrow> case x of (f, n) \<Rightarrow> side f" for w x w'
    using r by (cases x) blast
  have temp_side: "os_tempfile os w = (Inr f, w') \<Longrightarrow> side f" for w f w' using r by blast
  show "opens_aside os side q \<Longrightarrow> beside view side (sysI (os_open_root os q))"
    by (rule beside_sys, simp add: a [unfolded apart_def], simp add: opens_aside_def, blast)
  show "side d \<Longrightarrow> beside view side (sysI (os_openat2 os d p m))"
    by (rule beside_sys, simp add: a [unfolded apart_def], erule (1) openat2_side)
  show "side d \<Longrightarrow> beside view (\<lambda>(f, n). side f) (sysI (os_tempfile_in os d n))"
    by (rule beside_sys, simp add: a [unfolded apart_def], erule (1) temp_in_side)
  show "beside view side (sysI (os_tempfile os))"
    by (rule beside_sys, simp add: a [unfolded apart_def], erule temp_side)
qed (rule beside_sys, use a in \<open>simp_all add: apart_def\<close>)+

lemma apart_drop: "apart os view side \<Longrightarrow> side (sg_dir s) \<Longrightarrow> extends (view w) (view (drop_staged os s w))"
  by (simp add: apart_def drop_staged_def)

lemma aside_reads:
  assumes "obeys os rf view"
  shows "aside view (sysI (os_openat os d n))" "aside view (sysI (os_metadata os f))"
    "aside view (sysI (os_read_dir os f))" "aside view (sysI (os_sync os f))"
    "aside view (sysI (os_read os f k))" "aside view (sysI (os_rewind os f))"
  by (intro beside_of_grows grows_reads [OF assms])+

lemma beside_open: "apart os view side \<Longrightarrow> side (root_fd r) \<Longrightarrow> beside view side (open_full os r p m)"
  by (simp add: open_full_def apart_calls)

lemma beside_lift: "(\<And>x. q = Inr x \<Longrightarrow> beside view Q (f x)) \<Longrightarrow> beside view Q (bindI (liftI q) f)"
  by (cases q) (auto intro: beside_rules)

lemma beside_open_file:
  assumes a: "apart os view side" and o: "obeys os rf view" and r: "side (root_fd r)"
  shows "beside view side (open_file os r p)"
  unfolding open_file_def
  by (rule beside_lift, rule beside_bind [OF beside_open [OF a r]], rule beside_bind [OF aside_reads(2) [OF o]])
    (auto intro: beside_rules)

lemma beside_lock:
  assumes a: "apart os view side" and o: "obeys os rf view" and r: "side (root_fd r)"
  shows "beside view side (lock_state_with os r p b)"
  unfolding lock_state_with_def
  by (rule beside_lift, rule beside_bind [OF apart_calls(3) [OF a r]], rule beside_bind [OF aside_reads(2) [OF o]],
      rule beside_bind [where P = "\<lambda>_. True"])
    (auto intro!: beside_rules aside_reads [OF o] apart_calls(7) [OF a])

lemma aside_metadata:
  assumes a: "apart os view side" and o: "obeys os rf view" and r: "side (root_fd r)"
  shows "aside view (metadata os r p)" "aside view (exists_path os r p)"
proof -
  show m: "aside view (metadata os r p)"
    unfolding metadata_def
    by (rule beside_lift, rule beside_bind [OF beside_open [OF a r]], rule aside_reads(2) [OF o])
  show "aside view (exists_path os r p)"
    unfolding exists_path_def
    by (rule beside_bind [OF beside_result [OF m]]) (auto intro!: beside_rules)
qed

lemma aside_children:
  assumes a: "apart os view side" and o: "obeys os rf view" and r: "side (root_fd r)"
  shows "aside view (children os r p)"
proof -
  have item: "aside view (sysI (\<lambda>w. (item, w)))" for item :: "byte list sys" by (rule beside_sys) auto
  have list: "aside view (list_child os d item out)" for d item out
    unfolding list_child_def Let_def
    by (rule beside_bind [OF item], rule beside_if, rule beside_return, rule beside_bind [OF aside_reads(1) [OF o]],
        rule beside_bind [OF aside_reads(2) [OF o]]) (auto intro!: beside_rules)
  show ?thesis
    unfolding children_def
    by (rule beside_lift, rule beside_bind [OF beside_open [OF a r]], rule beside_bind [OF aside_reads(3) [OF o]],
        rule beside_bind [OF aside_fold [OF list]]) (simp add: beside_rules)
qed

lemma beside_parent:
  assumes a: "apart os view side" and r: "side (root_fd r)"
  shows "beside view (\<lambda>(d, n). side d) (parent os r p)"
  unfolding parent_def Let_def
  by (rule beside_lift, rule beside_lift, rule beside_case, rule beside_bind [OF beside_open [OF a r]])
    (simp add: beside_rules)

lemma aside_mkdir:
  assumes a: "apart os view side" and o: "obeys os rf view" and r: "side (root_fd r)"
  shows "aside view (mkdir os r p)"
proof -
  have step: "aside view (mkdir_step os r name q)" for name q
    unfolding mkdir_step_def Let_def
  proof (rule beside_bind [OF beside_open [OF a r]], rule beside_bind [OF beside_result [OF apart_calls(4) [OF a]]], assumption)
    fix x :: "unit res"
    have "aside view (case x of Inr _ \<Rightarrow> sysI (os_sync os d)
       | Inl e \<Rightarrow> if e = Io AlreadyExists then returnI () else failI e)" for d
      by (auto intro!: beside_rules aside_reads(4) [OF o])
    then show "aside view (bindI (case x of Inr _ \<Rightarrow> sysI (os_sync os d)
       | Inl e \<Rightarrow> if e = Io AlreadyExists then returnI () else failI e) (\<lambda>_.
       bindI (open_full os r ((if q \<noteq> [] then q @ [slash] else q) @ name) Open_dir)
         (\<lambda>_. returnI ((if q \<noteq> [] then q @ [slash] else q) @ name))))" for d
      by (rule beside_bind) (rule beside_bind [OF beside_open [OF a r]], simp add: beside_rules)
  qed
  show ?thesis
    unfolding mkdir_def
    by (rule beside_lift, rule beside_bind [OF aside_fold [OF step]]) (simp add: beside_rules)
qed

lemma aside_remove:
  assumes a: "apart os view side" and o: "obeys os rf view" and r: "side (root_fd r)"
  shows "aside view (remove os r p b)" "aside view (remove_files os r p names)"
proof -
  show "aside view (remove os r p b)"
    unfolding remove_def
    by (rule beside_bind [OF beside_parent [OF a r]])
      (auto intro!: beside_rules apart_calls(5) [OF a] aside_reads(4) [OF o])
  have batch: "aside view (unlink_batch (\<lambda>name. sysI (os_unlinkat os d name False)) (sysI (os_sync os d)) ns)"
    if "side d" for d ns
    unfolding unlink_batch_def
    by (rule beside_bind [OF beside_result [OF aside_each [OF apart_calls(5) [OF a that]]]],
        rule beside_bind [OF beside_result [OF aside_reads(4) [OF o]]]) (simp add: beside_rules)
  have "aside view (check_name n)" for n :: str
    unfolding check_name_def by (rule beside_lift) (auto intro!: beside_rules)
  note checks = aside_each [OF this]
  show "aside view (remove_files os r p names)"
    unfolding remove_files_def
    by (rule beside_bind [OF checks], rule beside_lift, rule beside_bind [OF beside_open [OF a r]], erule batch)
qed

lemma aside_hash_file:
  assumes o: "obeys os rf view"
  shows "aside view (hash_file os sha f)"
proof -
  have all: "aside view (read_all os f n acc)" for n acc
    by (induction n arbitrary: acc) (auto intro!: beside_rules aside_reads(5) [OF o])
  show ?thesis
    unfolding hash_file_def
    by (rule beside_bind [OF aside_reads(6) [OF o]], rule beside_bind [OF all], rule beside_bind [OF aside_reads(6) [OF o]])
      (simp add: beside_rules)
qed

section \<open>Staging\<close>

lemma aside_stage_loop:
  assumes a: "apart os view side" and o: "obeys os rf view" and f: "side f"
  shows "aside view (stage_loop os f path lim hashing rd cnt dg)"
proof (induction "Suc lim - cnt" arbitrary: rd cnt dg rule: less_induct)
  case less
  have rd: "aside view (read_from os rd n)" for n
    by (cases rd) (auto simp: read_from_def intro!: beside_rules aside_reads(5) [OF o])
  have rec: "aside view (stage_loop os f path lim hashing rd' (cnt + length b) dg')"
    if "b \<noteq> []" "\<not> lim < cnt + length b" for rd' b dg'
    by (rule less) (use that in \<open>cases b; simp\<close>)
  show ?case
    by (subst stage_loop_unfold, rule beside_bind [OF rd])
      (auto intro!: beside_rules apart_calls(8) [OF a f] rec)
qed

lemma beside_stage_content:
  assumes a: "apart os view side" and o: "obeys os rf view" and r: "side (root_fd r)"
  shows "beside view (\<lambda>s. side (sg_dir s)) (stage_content os sha r p rd sz h)"
proof -
  have body: "beside view (\<lambda>s'. s' = s) (stage_body os sha p rd sz (Some h) None s)" if "side (sg_temp s)" for s
    unfolding stage_body_def
    by (rule beside_bind [OF aside_stage_loop [OF a o that]])
      (auto intro!: beside_rules beside_bind [OF aside_reads(4) [OF o]])
  show ?thesis
    unfolding stage_content_def stage_inner_def
  proof (rule beside_bind [OF beside_parent [OF a r]], clarify)
    fix d n assume d: "side d"
    show "beside view (\<lambda>s. side (sg_dir s)) (bindI (sysI (os_tempfile_in os d reserved_prefix)) (\<lambda>(temp, temp_name).
       let s = \<lparr>sg_dir = d, sg_name = n, sg_temp_name = temp_name, sg_temp = temp\<rparr> in
       on_failI (stage_body os sha p rd sz (Some h) None s) (drop_staged os s)))"
    proof (rule beside_bind [OF apart_calls(9) [OF a d]], clarify)
      fix t tn assume t: "side t"
      let ?s = "\<lparr>sg_dir = d, sg_name = n, sg_temp_name = tn, sg_temp = t\<rparr>"
      have "beside view (\<lambda>s. side (sg_dir s)) (stage_body os sha p rd sz (Some h) None ?s)"
        by (rule beside_mono [OF body]) (use d t in simp_all)
      then show "beside view (\<lambda>s. side (sg_dir s)) (let s = ?s in
          on_failI (stage_body os sha p rd sz (Some h) None s) (drop_staged os s))"
        unfolding Let_def by (intro beside_cleanup apart_drop [OF a]) (simp add: d)
    qed
  qed
qed

lemma aside_commit:
  assumes a: "apart os view side" and o: "obeys os rf view" and d: "side (sg_dir s)"
  shows "aside view (commit os s)"
  unfolding commit_def
  by (intro beside_cleanup apart_drop [OF a d] beside_bind [OF apart_calls(6) [OF a d]] aside_reads(4) [OF o])

section \<open>The store\<close>

lemma beside_config [beside_rules]: "beside view Q (config_error t)"
  by (simp add: config_error_def beside_rules)

lemma aside_now:
  assumes a: "apart os view side"
  shows "aside view (now_seconds os)"
proof (rule besideI)
  fix w show "extends (view w) (view (snd (now_seconds os w)))"
    using a [unfolded apart_def] by (simp add: now_seconds_def config_error_def failI_def split: prod.split option.split)
      (metis snd_conv)
qed simp

lemma aside_write_activity:
  assumes a: "apart os view side" and o: "obeys os rf view" and r: "side (root_fd r)"
  shows "aside view (write_activity os sha r t)"
  unfolding write_activity_def Let_def
  by (rule beside_bind [OF beside_stage_content [OF a o r]], erule aside_commit [OF a o])

lemma aside_read_exact:
  assumes o: "obeys os rf view"
  shows "aside view (read_exact os f todo acc)"
proof (induction todo arbitrary: acc rule: less_induct)
  case (less todo)
  have rec: "aside view (read_exact os f (todo - length b) acc')" if "b \<noteq> []" "todo \<noteq> 0" for b :: "byte list" and acc'
    by (rule less) (use that in \<open>cases b; simp\<close>)
  show ?case
    by (subst read_exact_unfold) (auto intro!: beside_rules aside_reads(5) [OF o] rec)
qed

lemma aside_read_blocks:
  assumes o: "obeys os rf view" and put: "\<And>b. aside view (put b)"
  shows "aside view (read_blocks os f put todo acc)"
proof (induction todo arbitrary: acc rule: less_induct)
  case (less todo)
  have rec: "aside view (read_blocks os f put (todo - min todo 65536) acc')" if "todo \<noteq> 0" for acc'
    by (rule less) (use that in simp)
  show ?case
    by (subst read_blocks_unfold) (auto intro!: beside_rules aside_read_exact [OF o] put rec)
qed

lemma aside_read_activity:
  assumes a: "apart os view side" and o: "obeys os rf view" and r: "side (root_fd r)"
  shows "aside view (read_activity os r)"
  unfolding read_activity_def
  by (rule beside_bind [OF beside_result [OF beside_open_file [OF a o r]]])
    (auto intro!: beside_rules aside_reads(2) [OF o] aside_read_exact [OF o])

lemma aside_touch:
  assumes a: "apart os view side" and o: "obeys os rf view" and r: "side (root_fd (cs_root s))"
  shows "beside view (\<lambda>s'. cs_root s' = cs_root s) (store_touch os sha s)"
    "extends (view w) (view (store_drop os sha s w))"
proof -
  have "aside view (refresh_activity l t (write_activity os sha (cs_root s)))" for l t
    unfolding refresh_activity_def by (auto intro!: beside_rules aside_write_activity [OF a o r])
  then show t: "beside view (\<lambda>s'. cs_root s' = cs_root s) (store_touch os sha s)"
    unfolding store_touch_def
    by (intro beside_bind [OF aside_now [OF a]]) (rule beside_bind, assumption, simp add: beside_rules)
  show "extends (view w) (view (store_drop os sha s w))"
    unfolding store_drop_def by (rule beside_extends [OF t])
qed

lemma aside_payload:
  assumes a: "apart os view side" and o: "obeys os rf view" and r: "side (root_fd r)"
  shows "aside view (payload_bytes os r)" "aside view (remove_payload os r)"
proof -
  note ch = aside_children [OF a o r]
  have "aside view (payload_chunk sh item b)" for sh item b
    by (auto simp: payload_chunk_def config_error_def Let_def intro!: beside_rules split: prod.split)
  then have "aside view (payload_item os r item b)" for item b
    by (auto simp: payload_item_def config_error_def Let_def intro!: beside_rules beside_bind [OF ch] split: prod.split)
  then show "aside view (payload_bytes os r)"
    unfolding payload_bytes_def by (intro beside_bind [OF ch] aside_fold)
  have "aside view (remove_payload_item os r item st)" for item st
    by (auto simp: remove_payload_item_def intro!: beside_rules ch aside_remove [OF a o r] split: prod.split)
  then show "aside view (remove_payload os r)"
    unfolding remove_payload_def
    by (intro beside_bind [OF ch]) (auto intro!: beside_rules aside_remove [OF a o r])
qed

lemma aside_expire:
  assumes a: "apart os view side" and o: "obeys os rf view" and r: "side (root_fd r)"
  shows "aside view (expire_cache os sha r k ret now)"
proof -
  have "aside view (expire_transfer os sha r k ret now item)" for item
  proof -
    obtain name m where item: "item = (name, m)" by (cases item)
    have sub: "side (root_fd q)" if "subtree r name = Inr q" for q
      using that r by (auto simp: subtree_def result_simps split: if_splits)
    have "aside view (bindI (liftI (subtree r name)) (\<lambda>r'.
           bindI (lock_state_with os r' (ascii ''lock'') False) (\<lambda>_.
           bindI (payload_bytes os r') (\<lambda>_.
           bindI (read_activity os r') (\<lambda>activity.
             case activity of
               None \<Rightarrow> write_activity os sha r' now
             | Some last_seconds \<Rightarrow>
                 if now < last_seconds \<or> now - last_seconds < ret then returnI ()
                 else bindI (remove_payload os r') (\<lambda>_.
                      bindI (remove os r' (ascii ''activity'') False) (\<lambda>_.
                      bindI (remove os r' (ascii ''lock'') False) (\<lambda>_.
                        remove os r name True))))))))"
    proof (rule beside_lift)
      fix q assume "subtree r name = Inr q"
      note q = sub [OF this]
      show "aside view (bindI (lock_state_with os q (ascii ''lock'') False) (\<lambda>_.
           bindI (payload_bytes os q) (\<lambda>_.
           bindI (read_activity os q) (\<lambda>activity.
             case activity of
               None \<Rightarrow> write_activity os sha q now
             | Some last_seconds \<Rightarrow>
                 if now < last_seconds \<or> now - last_seconds < ret then returnI ()
                 else bindI (remove_payload os q) (\<lambda>_.
                      bindI (remove os q (ascii ''activity'') False) (\<lambda>_.
                      bindI (remove os q (ascii ''lock'') False) (\<lambda>_.
                        remove os r name True)))))))"
        by (rule beside_bind [OF beside_lock [OF a o q]], rule beside_bind [OF aside_payload(1) [OF a o q]],
            rule beside_bind [OF aside_read_activity [OF a o q]])
          (auto intro!: beside_rules aside_write_activity [OF a o q] aside_payload(2) [OF a o q]
            aside_remove [OF a o q] aside_remove [OF a o r])
    qed
    then show ?thesis by (auto simp: item expire_transfer_def config_error_def intro!: beside_rules)
  qed
  then show ?thesis
    unfolding expire_cache_def by (intro beside_bind [OF aside_children [OF a o r]] aside_each)
qed

text \<open>A store whose directory is beside the tree.\<close>

abbreviation side_store :: "(fd \<Rightarrow> bool) \<Rightarrow> store \<Rightarrow> bool" where
  "side_store side s \<equiv> side (root_fd (cs_root s))"

lemma beside_open_locked:
  assumes a: "apart os view side" and o: "obeys os rf view" and r: "side (root_fd r)"
  shows "beside view (side_store side) (open_locked os sha hex r sc d lock)"
  unfolding open_locked_def Let_def
proof (rule beside_bind [OF aside_mkdir [OF a o r]], rule beside_lift)
  fix q assume "subtree r (key sha hex d sc) = Inr q"
  with r have q: "side (root_fd q)" by (auto simp: subtree_def result_simps split: if_splits)
  show "beside view (side_store side) (bindI (lock_state_with os q (ascii ''lock'') False) (\<lambda>lock'.
      bindI (now_seconds os) (\<lambda>activity.
      bindI (write_activity os sha q activity) (\<lambda>_.
        returnI \<lparr>cs_root = q, cs_description = d, cs_last_activity = activity, cs_lock = lock',
          cs_cache_lock = lock\<rparr>))))"
    by (rule beside_bind [OF beside_lock [OF a o q]], rule beside_bind [OF aside_now [OF a]],
        rule beside_bind [OF aside_write_activity [OF a o q]]) (simp add: beside_rules q)
qed

lemma beside_store_open:
  assumes a: "apart os view side" and o: "obeys os rf view" and d: "opens_aside os side dir"
  shows "beside view (side_store side) (store_open os sha hex dir sc d)"
proof -
  have root: "beside view (\<lambda>r. side (root_fd r)) (root_open os dir)"
    unfolding root_open_def by (rule beside_bind [OF apart_calls(2) [OF a d]]) (simp add: beside_rules)
  show ?thesis
    unfolding store_open_def
    by (rule beside_bind [OF root], rule beside_bind [OF beside_lock [OF a o]], assumption,
        rule beside_open_locked [OF a o])
qed

lemma beside_open_limited:
  assumes a: "apart os view side" and o: "obeys os rf view" and d: "opens_aside os side dir"
  shows "beside view (side_store side) (open_limited os sha hex dir sc d lim)"
proof -
  have root: "beside view (\<lambda>r. side (root_fd r)) (root_open os dir)"
    unfolding root_open_def by (rule beside_bind [OF apart_calls(2) [OF a d]]) (simp add: beside_rules)
  have quota: "aside view (quota_item os r k item st)" if r: "side (root_fd r)" for r k item st
  proof -
    have sub: "side (root_fd q)" if "subtree r n = Inr q" for q n
      using that r by (auto simp: subtree_def result_simps split: if_splits)
    have "aside view (bindI (liftI (subtree r n)) (\<lambda>q. bindI (payload_bytes os q) (\<lambda>b.
        if 2 ^ 64 \<le> unat bytes + unat b then config_error t else returnI (bytes + b, tr + 1, fo \<or> n = k))))" for n bytes fo t and tr :: nat
      by (rule beside_lift, rule beside_bind [OF aside_payload(1) [OF a o]], erule sub)
        (auto simp: config_error_def intro!: beside_rules)
    moreover obtain n m where "item = (n, m)" by (cases item)
    moreover obtain bytes tr fo where "st = (bytes, tr, fo)" by (cases st)
    ultimately show ?thesis by (simp add: quota_item_def beside_rules)
  qed
  have need: "aside view (needed_chunk os s i n)" if s: "side_store side s" for s i n
  proof -
    have "aside view (bindI (exists_path os (cs_root s) name) (\<lambda>there.
              if \<not> there then returnI True
              else bindI (metadata os (cs_root s) name) (\<lambda>m. returnI (m_len m \<noteq> len))))" for name len
      by (rule beside_bind [OF aside_metadata(2) [OF a o s]]) (auto intro!: beside_rules aside_metadata(1) [OF a o s])
    note there = this
    show ?thesis
      unfolding needed_chunk_def
      by (rule beside_bind [OF beside_return(5)], simp, rule beside_bind [OF beside_return(5)], simp,
          rule beside_bind [OF there]) (auto intro!: beside_rules)
  qed
  have fin: "beside view (side_store side) (on_failI
                (bindI (pureI (chunks d)) (\<lambda>n.
                 bindI (foldI (needed_chunk os s) [0..<n] 0) (\<lambda>needed.
                   if max_bytes lim - bytes < needed then config_error t else returnI s)))
                (store_drop os sha s))" if s: "side_store side s" for s bytes t
    by (rule beside_cleanup, rule aside_touch(2) [OF a o s], rule beside_bind [OF beside_return(5)], simp,
        rule beside_bind [OF aside_fold [OF need [OF s]]]) (auto simp: config_error_def s intro!: beside_rules)
  show ?thesis
    unfolding open_limited_def Let_def
  proof (rule beside_bind [OF root], rule beside_bind [OF beside_lock [OF a o]], assumption, rule beside_bind)
    fix r :: root and lock assume r: "side (root_fd r)"
    show "aside view (if 0 < retention_seconds lim
              then bindI (now_seconds os) (expire_cache os sha r (key sha hex d sc) (retention_seconds lim))
              else returnI ())"
      by (auto intro!: beside_rules aside_now [OF a] aside_expire [OF a o r])
    show "beside view (side_store side) (bindI (children os r []) (\<lambda>items.
       bindI (foldI (quota_item os r (key sha hex d sc)) items (0, 0, False)) (\<lambda>(bytes, transfers, found).
         if max_transfers lim < transfers + (if found then 0 else 1) \<or> max_bytes lim < bytes
         then config_error ''chunk cache quota exceeded; clean stale state while all users are stopped''
         else bindI (open_locked os sha hex r sc d lock) (\<lambda>s.
              on_failI
                (bindI (pureI (chunks d)) (\<lambda>n.
                 bindI (foldI (needed_chunk os s) [0..<n] 0) (\<lambda>needed.
                   if max_bytes lim - bytes < needed then config_error ''chunk cache byte quota exceeded''
                   else returnI s)))
                (store_drop os sha s)))))"
      by (rule beside_bind [OF aside_children [OF a o r]], rule beside_bind [OF aside_fold [OF quota [OF r]]],
          clarify, rule beside_if, rule beside_config,
          rule beside_bind [OF beside_open_locked [OF a o r]], erule fin)
  qed
qed

lemma aside_store:
  assumes a: "apart os view side" and o: "obeys os rf view" and s: "side_store side s"
  shows "aside view (store_missing os sha s table start)" "beside view (side_store side) (store_receive os sha s table i rd)"
    "aside view (store_assemble os sha s table)" "beside view (side_store side) (store_clear os sha s)"
proof -
  have ver: "aside view (store_verified os sha s table i)" for i
    unfolding store_verified_def
    by (rule beside_bind [OF beside_return(5)], simp, rule beside_bind [OF beside_result [OF beside_open_file [OF a o s]]])
      (auto intro!: beside_rules aside_reads(2) [OF o] aside_hash_file [OF o])
  show "aside view (store_missing os sha s table start)"
    unfolding store_missing_def
    by (rule beside_bind [OF beside_return(5)], simp, rule beside_if, simp add: beside_rules,
        rule beside_bind [OF beside_return(5)], simp, rule aside_fold, rule beside_bind [OF ver]) (simp add: beside_rules)
  have touch: "beside view (side_store side) (store_touch os sha s)"
    by (rule beside_mono [OF aside_touch(1) [OF a o s]]) (use s in simp)
  show "beside view (side_store side) (store_receive os sha s table i rd)"
    unfolding store_receive_def
    by (rule beside_bind [OF beside_return(5)], simp, rule beside_bind [OF beside_index(2)], rule beside_case,
        rule beside_bind [OF aside_mkdir [OF a o s]], rule beside_bind [OF beside_return(5)], simp,
        rule beside_bind [OF beside_return(5)], simp,
        rule beside_bind [OF beside_stage_content [OF a o s]], rule beside_bind [OF aside_commit [OF a o]], assumption,
        rule touch)
  have chunk: "aside view (assemble_chunk os sha s table out i whole)" if "side out" for out i whole
    unfolding assemble_chunk_def
    by (rule beside_bind [OF ver]) (auto intro!: beside_rules aside_read_blocks [OF o] apart_calls(8) [OF a that])
  show "aside view (store_assemble os sha s table)"
    unfolding store_assemble_def
    by (rule beside_bind [OF apart_calls(10) [OF a]], rule beside_bind [OF beside_return(5)], simp,
        rule beside_bind [OF aside_fold [OF chunk]], assumption) (auto intro!: beside_rules aside_reads(6) [OF o])
  show "beside view (side_store side) (store_clear os sha s)"
    unfolding store_clear_def
    by (rule beside_bind [OF aside_payload(1) [OF a o s]], rule beside_bind [OF aside_payload(2) [OF a o s]], rule touch)
qed

end
