(* ===== verification/Client2_Props.thy ===== *)
theory Client2_Props
  imports Client2 Apart Session2
begin

text \<open>
  A pull of protocol version 2 from its START to its end: the cache of chunks is beside the tree, so that
  what changes the tree is \<open>prepare\<close>, one \<open>install\<close> for each file, and \<open>finish\<close>, as in version 1. The second
  half shows that no answer of a server makes the client panic.
\<close>

section \<open>Requests leave the tree alone\<close>

lemma aside_open:
  assumes a: "apart os view side" and o: "obeys os rf view" and d: "opens_aside os side (ca_directory ca)"
  shows "beside view (side_store side) (cache_open os sha hex ca peer push pre e d)"
  unfolding cache_open_def Let_def
  by (rule beside_lift, rule beside_case)
    (auto intro!: beside_bind [OF apart_calls(1) [OF a]] beside_open_limited [OF a o d] beside_store_open [OF a o d])

lemma grows_request2:
  assumes l: "link_apart link on_plan view" and a: "apart os view side"
  shows "grows view (request2 os sha link m d)" "grows view (expect_ok2 os sha link m d)"
proof -
  have dec: "grows view (decode_reply os sha bytes)" for bytes
    unfolding decode_reply_def
    by (intro steps_bind steps_if steps_return beside_grows [OF apart_calls(10) [OF a]])
  have call: "grows view (callI (l_request link bytes d))" for bytes
    by (rule grows_call) (use l in \<open>simp add: link_apart_def\<close>)
  show r: "grows view (request2 os sha link m d)" for m
    unfolding request2_def
    by (rule steps_bind_lift, rule steps_bind [OF call], rule steps_bind [OF dec])
      (auto intro!: steps_rules split: message2.split message.split)
  show "grows view (expect_ok2 os sha link m d)"
    unfolding expect_ok2_def by (rule steps_bind [OF r]) (auto simp: invalidI_def intro!: steps_rules)
qed

section \<open>Holding a store beside the tree\<close>

definition held_step :: "('w \<Rightarrow> fs_view) \<Rightarrow> (fd \<Rightarrow> bool) \<Rightarrow> 'w \<times> store \<Rightarrow> 'w \<times> store \<Rightarrow> bool" where
  "held_step view side x y \<longleftrightarrow>
     (side_store side (snd x) \<longrightarrow> extends (view (fst x)) (view (fst y)) \<and> side_store side (snd y))"

lemma held_stepD:
  assumes "steps (held_step view side) m" "m (w, st) = (x, w', st')" "side_store side st"
  shows "extends (view w) (view w')" "side_store side st'"
proof -
  have "reflp (held_step view side)" "transp (held_step view side)"
    by (auto simp: reflp_def held_step_def intro!: transpI intro: extends_trans)
  from stepsD [OF assms(1,2) this] assms(3) show "extends (view w) (view w')" "side_store side st'"
    by (simp_all add: held_step_def)
qed

lemma held_world: "grows view m \<Longrightarrow> steps (held_step view side) (on_world m)"
  unfolding steps_def [of "held_step view side"] on_world_def
  by (auto simp: held_step_def dest: growsD split: prod.split intro!: r_into_rtranclp)

lemma held_with:
  assumes "\<And>st. side_store side st \<Longrightarrow> grows view (f st)"
  shows "steps (held_step view side) (with_store f)"
  unfolding steps_def [of "held_step view side"] with_store_def
  by (auto simp: held_step_def dest: growsD [OF assms] split: prod.split intro!: r_into_rtranclp)

lemma held_set:
  assumes "\<And>st. side_store side st \<Longrightarrow> beside view (side_store side) (f st)"
  shows "steps (held_step view side) (set_store f)"
  unfolding steps_def set_store_def
proof (intro allI r_into_rtranclp)
  fix x :: "'a \<times> store"
  obtain w st where x: "x = (w, st)" by (cases x)
  show "held_step view side x (snd (case f (snd x) (fst x) of
        (Inr st, w') \<Rightarrow> (Inr (), w', st) | (Inl e, w') \<Rightarrow> (Inl e, w', snd x)))"
    using beside_extends [OF assms, of st w] besideD [OF assms, of st w]
    by (auto simp: x held_step_def split: prod.split sum.split)
qed

lemma clear_side:
  assumes a: "apart os view side" and o: "obeys os rf view" and s: "side_store side st"
  shows "beside view (side_store side) (clear_committed os sha st)"
  unfolding clear_committed_def
  by (rule beside_bind [OF beside_result [OF aside_store(4) [OF a o s]]]) (auto intro!: beside_rules s split: sum.split)

lemma held_pages:
  assumes l: "link_apart link on_plan view" and a: "apart os view side" and o: "obeys os rf view"
  shows "steps (held_step view side) (pull_page os sha link dl d index start table)"
proof -
  note rq = grows_request2 [OF l a, THEN held_world]
  have rc: "steps (held_step view side) (on_world (callI (l_receive_file link sz dl)))" for sz
    by (rule held_world, rule grows_link(4) [OF l])
  have st: "steps (held_step view side) (set_store (\<lambda>st. store_receive os sha st table chunk rd))" for table chunk rd
    by (rule held_set, rule aside_store(2) [OF a o])
  have ms: "steps (held_step view side) (with_store (\<lambda>st. store_missing os sha st table k))" for table k
    by (rule held_with, rule beside_grows, rule aside_store(1) [OF a o])
  have chunk: "steps (held_step view side) (pull_chunk os sha link dl d index_table index chunk)" for index_table chunk
    unfolding pull_chunk_def invalidI_def
    by (intro steps_rules rq rc st)
  show ?thesis
    unfolding pull_page_def invalidI_def
    by (rule steps_bind [OF rq(1)]) (auto intro!: steps_rules ms chunk split: message2.split)
qed

section \<open>One file\<close>

lemma on_world_Inr: "on_world m (w, st) = (Inr x, w', st') \<longleftrightarrow> m w = (Inr x, w') \<and> st' = st"
  by (auto simp: on_world_def split: prod.splits)

lemma with_store_Inr: "with_store f (w, st) = (Inr x, w', st') \<longleftrightarrow> f st w = (Inr x, w') \<and> st' = st"
  by (auto simp: with_store_def split: prod.splits)

lemma pull_held_seen:
  assumes o: "obeys os (root_fd r) view" and s: "safe_name (root_prefix r)" and l: "link_apart link on_plan view"
    and a: "apart os view side" and p: "plan src dst opt = Inr p" and i: "i \<in> set (files p)"
    and st: "side_store side st" and run: "pull_held os sha link dl r (src ! i) dst p d index (w, st) = (Inr (), w', st')"
  shows "seen r (view w') = put_entry src p i (seen r (view w)) \<and> side_store side st'"
proof -
  from run obtain n table w1 st1 fl w2 w3 w4 where
    pg: "foldI (pull_page os sha link dl d index) (page_starts n) [] (w, st) = (Inr table, w1, st1)"
    and as: "store_assemble os sha st1 table w1 = (Inr fl, w2)"
    and fv: "expect_ok2 os sha link (FileVerified index) dl w2 = (Inr (), w3)"
    and inst: "install os sha r ((src ! i)\<lparr>e_hash := Some (d_hash d)\<rparr>) dst p fl w3 = (Inr (), w4)"
    and cl: "set_store (clear_committed os sha) (w4, st1) = (Inr (), w', st')"
    by (auto simp: pull_held_def bindI_Inr on_world_Inr with_store_Inr)
  from held_stepD [OF steps_fold [OF held_pages [OF l a o]] pg st]
  have e1: "extends (view w) (view w1)" and st1: "side_store side st1" by simp_all
  from growsD [OF beside_grows [OF aside_store(3) [OF a o st1]] as]
    growsD [OF grows_request2(2) [OF l a] fv] e1
  have "extends (view w) (view w3)" by (blast intro: extends_trans)
  moreover have "seen r (view w4) = put_entry src p i (seen r (view w3))"
    by (rule install_seen [OF o s p i _ _ _ _ inst]) simp_all
  moreover from held_stepD [OF held_set [OF clear_side [OF a o]] cl st1]
  have "extends (view w4) (view w')" "side_store side st'" by simp_all
  ultimately show ?thesis by (simp add: extends_seen)
qed

lemma pull_file2_seen:
  assumes o: "obeys os (root_fd r) view" and s: "safe_name (root_prefix r)" and l: "link_apart link on_plan view"
    and a: "apart os view side" and d: "opens_aside os side (ca_directory (re_cache re))"
    and p: "plan src dst opt = Inr p" and i: "i \<in> set (files p)"
    and run: "pull_file2 os sha hex link dl re path r src dst p i w = (Inr (), w')"
  shows "seen r (view w') = put_entry src p i (seen r (view w))"
proof -
  let ?rq = "request2 os sha link (Describe (word_of_nat i) (re_chunk_size re)) dl"
  from run obtain reply w1 where rq0: "?rq w = (Inr reply, w1)"
    by (auto simp: pull_file2_def Let_def indexI_Inr bindI_Inr [of "indexI _ _"] bindI_Inr [of ?rq])
  with run obtain d st w2 where m: "reply = Description (word_of_nat i) d"
    and co: "cache_open os sha hex (re_cache re) (re_peer re) False path (src ! i) d w1 = (Inr st, w2)"
    and ho: "holding os sha st (pull_held os sha link dl r (src ! i) dst p d (word_of_nat i)) w2 = (Inr (), w')"
    by (cases reply) (auto simp: pull_file2_def bindI_Inr indexI_Inr Let_def split: if_splits)
  note rq = rq0 [unfolded m]
  have st: "side_store side st" by (rule besideD [OF aside_open [OF a o d] co])
  from ho obtain w3 st3 where body: "pull_held os sha link dl r (src ! i) dst p d (word_of_nat i) (w2, st) = (Inr (), w3, st3)"
    and w': "w' = store_drop os sha st3 w3"
    by (auto simp: holding_def split: prod.splits)
  from pull_held_seen [OF o s l a p i st body]
  have "seen r (view w3) = put_entry src p i (seen r (view w2))" "side_store side st3" by simp_all
  moreover have "extends (view w) (view w2)"
    using growsD [OF grows_request2(1) [OF l a] rq] growsD [OF beside_grows [OF aside_open [OF a o d]] co]
    by (rule extends_trans)
  moreover have "extends (view w3) (view w')"
    unfolding w' by (rule aside_touch(2) [OF a o]) fact
  ultimately show ?thesis by (simp add: extends_seen)
qed

section \<open>The whole pull\<close>

lemma request2_Inr:
  assumes "request2 os sha link m d w = (Inr x, w')"
  obtains bytes response w1 where "encode2 m = Inr bytes" "l_request link bytes d w = (Inr response, w1)"
    "decode2 sha (Inr ()) response = Inr x"
proof -
  from assms obtain bytes response w1 w2 y where *: "encode2 m = Inr bytes"
    "l_request link bytes d w = (Inr response, w1)" "decode_reply os sha response w1 = (Inr y, w2)"
    "(case y of Common (Error code t) \<Rightarrow> failI (Remote code t) | _ \<Rightarrow> returnI y) w2 = (Inr x, w')"
    by (auto simp: request2_def bindI_Inr callI_Inr)
  then have "decode2 sha (Inr ()) response = Inr y" by (auto simp: decode_reply_def bindI_Inr)
  moreover have "y = x" using *(4) by (auto split: message2.splits message.splits)
  ultimately show ?thesis using * that by blast
qed

lemma pull2_result:
  assumes o: "obeys os (root_fd r) view" and s: "safe_name (root_prefix r)" and l: "link_apart link on_plan view"
    and a: "apart os view side" and d: "opens_aside os side (ca_directory (re_cache re))" and job: "\<not> j_push j" "\<not> dry_run (j_options j)"
    and start: "seen r (view w) = tree_of (sc_entries sc)"
    and run: "synchronize2 os sha hex link r sc j re on_plan w = (Inr (), w')"
  shows "\<exists>bytes response w1 theirs p.
    encode2 (Common (Start False (j_options j) (j_path j) (sc_entries sc))) = Inr bytes
    \<and> l_request link bytes (j_deadline j) w = (Inr response, w1)
    \<and> decode2 sha (Inr ()) response = Inr (Common (Manifest theirs))
    \<and> plan theirs (sc_entries sc) (j_options j) = Inr p
    \<and> seen r (view w') = carry_out theirs p (seen r (view w))"
proof -
  let ?dst = "sc_entries sc" let ?d = "j_deadline j"
  let ?rq = "request2 os sha link (Common (Start False (j_options j) (j_path j) ?dst)) ?d"
  from run obtain w9 where inner: "synchronize_inner2 os sha hex link r sc j re on_plan w = (Inr (), w9)"
    and close: "w' = snd (l_close link w9)"
    by (auto simp: synchronize2_def finallyI_Inr)
  from inner obtain reply w0 where rq0: "?rq w = (Inr reply, w0)"
    using job(1) by (auto simp: synchronize_inner2_def Let_def bindI_Inr [of ?rq] bindI_Inr [of "liftI _"])
  from inner job rq0 obtain theirs where m: "reply = Common (Manifest theirs)"
    and rest: "bindI (liftI (plan theirs ?dst (j_options j))) (\<lambda>p.
            bindI (on_plan p) (\<lambda>_.
                bindI (prepare os r theirs p) (\<lambda>_.
                bindI (eachI (\<lambda>i. pull_file2 os sha hex link ?d re (j_path j) r theirs ?dst p i) (files p)) (\<lambda>_.
                bindI (expect_ok2 os sha link (Common Finish) ?d) (\<lambda>_. finish os r theirs p))))) w0 = (Inr (), w9)"
    by (cases "\<exists>theirs. reply = Common (Manifest theirs)")
      (auto simp: synchronize_inner2_def bindI_Inr [of ?rq] bindI_Inr [of "liftI (count _ _)"] Let_def
        split: message2.splits message.splits)
  from rest obtain p u1 w2 where p: "plan theirs ?dst (j_options j) = Inr p"
    and op: "on_plan p w0 = (Inr u1, w2)"
    and body: "bindI (prepare os r theirs p) (\<lambda>_. bindI (eachI (\<lambda>i. pull_file2 os sha hex link ?d re (j_path j) r theirs ?dst p i) (files p)) (\<lambda>_.
        bindI (expect_ok2 os sha link (Common Finish) ?d) (\<lambda>_. finish os r theirs p))) w2 = (Inr (), w9)"
    by (auto simp: bindI_Inr [of "on_plan _"] bindI_Inr [of "liftI _"] pureI_def may_def split: sum.splits)
  have "extends (view w) (view w2)"
    using growsD [OF grows_request2(1) [OF l a] rq0] growsD [OF grows_link(5) [OF l] op] by (rule extends_trans)
  then have r2: "seen r (view w2) = tree_of ?dst" using start by (simp add: extends_seen)
  have "seen r (view w9) = carry_out theirs p (tree_of ?dst)"
    by (rule pull_run [OF o s p r2 pull_file2_seen [OF o s l a d p] grows_request2(2) [OF l a] body])
  moreover have "extends (view w9) (view w')"
    using l unfolding close by (simp add: link_apart_def)
  ultimately have "seen r (view w') = carry_out theirs p (seen r (view w))"
    using start by (simp add: extends_seen)
  moreover obtain bytes response w1 where "encode2 (Common (Start False (j_options j) (j_path j) ?dst)) = Inr bytes"
    "l_request link bytes ?d w = (Inr response, w1)" "decode2 sha (Inr ()) response = Inr reply"
    by (rule request2_Inr [OF rq0])
  ultimately show ?thesis using p m by blast
qed

text \<open>C3: A pull of version 2 carries the plan out. When a pull that is no dry run reports success, the server
  answered START with a manifest, and the local tree, which was as scanned before, is what carrying out
  the plan for that manifest makes of it; the chunks that are received, kept, assembled and evicted on the
  way change nothing else. The hypotheses are the documented effects of the system calls, that the
  cache directory is apart from the tree, and that the transport leaves the tree alone.\<close>

theorem pull2_carries_out:
  assumes o: "obeys os (root_fd r) view" and s: "safe_name (root_prefix r)" and l: "link_apart link on_plan view"
    and a: "apart os view side" and d: "opens_aside os side (ca_directory (re_cache re))" and job: "\<not> j_push j" "\<not> dry_run (j_options j)"
    and start: "seen r (view w) = tree_of (sc_entries sc)"
    and run: "synchronize2 os sha hex link r sc j re on_plan w = (Inr (), w')"
  shows "\<exists>bytes response w1 theirs p.
    encode2 (Common (Start False (j_options j) (j_path j) (sc_entries sc))) = Inr bytes
    \<and> l_request link bytes (j_deadline j) w = (Inr response, w1)
    \<and> decode2 sha (Inr ()) response = Inr (Common (Manifest theirs))
    \<and> plan theirs (sc_entries sc) (j_options j) = Inr p
    \<and> seen r (view w') = carry_out theirs p (seen r (view w))"
  by (rule pull2_result [OF assms])

section \<open>No server makes the client panic\<close>

text \<open>\<open>guarded I m\<close>: from a world with \<open>I\<close>, \<open>m\<close> does not panic and ends in a world with \<open>I\<close>.\<close>

definition guarded :: "('w \<Rightarrow> bool) \<Rightarrow> ('w, 'a) io \<Rightarrow> bool" where
  "guarded I m \<longleftrightarrow> (\<forall>w. I w \<longrightarrow> fst (m w) \<noteq> Inl Panics \<and> I (snd (m w)))"

lemma guarded_pure: "r \<noteq> Inl Panics \<Longrightarrow> guarded I (pureI r)" "guarded I (returnI x)" "guarded I (invalidI t)"
  by (simp_all add: guarded_def invalidI_def returnI_def failI_def)

lemma guarded_bind:
  assumes "guarded I m" "\<And>x. guarded I (f x)"
  shows "guarded I (bindI m f)"
  unfolding guarded_def
proof (intro allI impI)
  fix w assume "I w"
  moreover obtain x w1 where "m w = (x, w1)" by fastforce
  ultimately have "x \<noteq> Inl Panics" "I w1" using assms(1) by (auto simp: guarded_def)
  then show "fst (bindI m f w) \<noteq> Inl Panics \<and> I (snd (bindI m f w))"
    using \<open>m w = (x, w1)\<close> assms(2) by (auto simp: bindI_def guarded_def split: sum.split)
qed

lemma guarded_fold: "(\<And>x s. guarded I (f x s)) \<Longrightarrow> guarded I (foldI f xs s)"
  by (induction xs arbitrary: s) (auto intro: guarded_bind guarded_pure)

lemma guarded_each: "(\<And>x. guarded I (f x)) \<Longrightarrow> guarded I (eachI f xs)"
  by (simp add: eachI_def guarded_fold)

text \<open>The store that is held keeps its description.\<close>

abbreviation holds :: "description \<Rightarrow> 'w \<times> store \<Rightarrow> bool" where
  "holds d ws \<equiv> cs_description (snd ws) = d"

lemma guarded_world: "safe m \<Longrightarrow> guarded (holds d) (on_world m)"
  by (auto simp: guarded_def never_def on_world_def split: prod.split) (metis fst_conv)

lemma guarded_with: "(\<And>st. cs_description st = d \<Longrightarrow> safe (f st)) \<Longrightarrow> guarded (holds d) (with_store f)"
  by (auto simp: guarded_def never_def with_store_def split: prod.split) (metis fst_conv)

lemma guarded_set:
  assumes "\<And>st. cs_description st = d \<Longrightarrow> safe (f st)"
    "\<And>st w st' w'. f st w = (Inr st', w') \<Longrightarrow> cs_description st' = cs_description st"
  shows "guarded (holds d) (set_store f)"
  unfolding guarded_def
proof (intro allI impI)
  fix x :: "'a \<times> store"
  assume d: "holds d x"
  obtain r w' where r: "f (snd x) (fst x) = (r, w')" by fastforce
  have "r \<noteq> Inl Panics" using assms(1) [OF d] r by (metis fst_conv never_def)
  then show "fst (set_store f x) \<noteq> Inl Panics \<and> holds d (snd (set_store f x))"
    using r d assms(2) by (auto simp: set_store_def split: sum.split)
qed

lemma safe_request2:
  "safe (request2 os sha link m dl)" "safe (expect_ok2 os sha link m dl)" "safe (callI c)"
proof -
  show "safe (callI c)" by (auto simp: never_def callI_def split: prod.split)
  have dec: "safe (decode_reply os sha bytes)" for bytes
    unfolding decode_reply_def by (intro never_seq never_if never_sys never_return) simp_all
  have call: "safe (callI (l_request link bytes dl))" for bytes
    by (auto simp: never_def callI_def split: prod.split)
  show r: "safe (request2 os sha link m dl)" for m
    unfolding request2_def
    by (intro never_seq never_return dec call) (auto intro!: never_rules split: message2.split message.split)
  show "safe (expect_ok2 os sha link m dl)"
    unfolding expect_ok2_def by (rule never_seq [OF r]) (auto intro!: never_rules)
qed

lemma ensures_request2: "ensures (request2 os sha link m d) (message_ok2 sha)"
  unfolding ensures_def by (metis decode2_iff request2_Inr)

lemma safe_push_file2:
  assumes e: "i < length src" "bt_get (sc_stamps sc) (e_path (src ! i)) = Some st" "st_size st \<le> MAX_FILE"
  shows "safe (push_file2 os sha link dl cs r sc src i)"
proof -
  have chunk: "safe (push_chunk os sha link dl f d index c)" if "desc_ok d" for f d index c
    unfolding push_chunk_def
    by (intro never_seq safe_request2 safe_chunk_file [OF that] never_pure geometry_safe(2) [OF that])
  have pg: "safe (push_page os sha link dl f d table index start)" if "desc_ok d" for f d table index start
    unfolding push_page_def
    by (intro never_seq safe_request2 never_pure geometry_safe(6) [OF that])
      (auto intro!: never_rules chunk [OF that] split: message2.split)
  have "unat (st_size st) + 1 \<noteq> 2 ^ 64" using e(3) by (simp add: MAX_FILE_def word_le_nat_alt)
  note snap = safe_snapshot [OF this]
  have scan: "ensures (scan_file os sha f cs) (\<lambda>x. desc_ok (fst x))" for f
    using scan_file_Inr by (auto simp: ensures_def)
  have scan_safe: "safe (scan_file os sha f cs)" for f by (simp add: never_rules)
  have rest: "safe (bindI (liftI (validate_description e d)) (\<lambda>_.
      bindI (expect_ok2 os sha link (Description index d) dl) (\<lambda>_.
      bindI (pureI (chunks d)) (\<lambda>n.
      bindI (eachI (push_page os sha link dl f d table index) (page_starts n)) (\<lambda>_.
      bindI (ensure_unchanged os r p st) (\<lambda>_. expect_ok2 os sha link (FileCommit index) dl))))))"
    if "desc_ok d" for e d index f table p
    by (intro never_seq safe_request2 never_return never_pure geometry_safe(1) [OF that] never_each pg [OF that])
      (simp_all add: never_rules)
  have "safe (bindI (snapshot os r p st) (\<lambda>f. bindI (scan_file os sha f cs) (\<lambda>(d, table).
      bindI (liftI (validate_description (src ! i) d)) (\<lambda>_.
      bindI (expect_ok2 os sha link (Description (word_of_nat i) d) dl) (\<lambda>_.
      bindI (pureI (chunks d)) (\<lambda>n.
      bindI (eachI (push_page os sha link dl f d table (word_of_nat i)) (page_starts n)) (\<lambda>_.
      bindI (ensure_unchanged os r p st) (\<lambda>_. expect_ok2 os sha link (FileCommit (word_of_nat i)) dl))))))))" for p
    by (rule never_seq [OF snap], rule never_bind [OF scan_safe scan]) (auto intro: rest)
  with e show ?thesis by (simp add: push_file2_def indexI_def presentI_def Let_def)
qed

lemma safe_pull_file2:
  assumes i: "i < length src" and fit: "sizes_fit os"
  shows "safe (pull_file2 os sha hex link dl re path r src dst p i)"
proof -
  have held: "guarded (holds d) (pull_held os sha link dl r e dst p d index)" if d: "desc_ok d" for d e index
  proof -
    have recv: "guarded (holds d) (set_store (\<lambda>st. store_receive os sha st table c rd))" for table c rd
      by (rule guarded_set) (use d in \<open>auto intro!: safe_store(3) dest: store_receive_Inr\<close>)
    have miss: "guarded (holds d) (with_store (\<lambda>st. store_missing os sha st table k))" for table k
      by (rule guarded_with) (use d in \<open>auto intro!: safe_store(2)\<close>)
    have asm: "guarded (holds d) (with_store (\<lambda>st. store_assemble os sha st table))" for table
      by (rule guarded_with) (use d in \<open>auto intro!: safe_store(4)\<close>)
    have chunk: "guarded (holds d) (pull_chunk os sha link dl d table index c)" for table c
      unfolding pull_chunk_def
      by (intro guarded_bind guarded_world safe_request2 guarded_pure geometry_safe(2) [OF d])
        (auto intro!: guarded_pure guarded_bind guarded_world safe_request2 recv)
    have pg: "guarded (holds d) (pull_page os sha link dl d index start table)" for start table
      unfolding pull_page_def
      by (rule guarded_bind [OF guarded_world [OF safe_request2(1)]])
        (auto intro!: guarded_pure guarded_bind miss guarded_each chunk geometry_safe(4) d split: message2.split)
    have inst: "safe (install os sha r e' dst p f)" for e' f by (simp add: never_rules)
    have clear: "safe (clear_committed os sha st)" for st
      by (auto simp: clear_committed_def fit intro!: never_rules)
    have kept: "cs_description st' = cs_description st" if "clear_committed os sha st w = (Inr st', w')" for st w st' w'
    proof -
      from that obtain x where "resultI (store_clear os sha st) w = (Inr x, w')" "st' = (case x of Inl _ \<Rightarrow> st | Inr st' \<Rightarrow> st')"
        by (auto simp: clear_committed_def bindI_Inr)
      then show ?thesis by (cases x) (auto simp: resultI_Inr store_clear_def bindI_Inr dest: store_touch_Inr)
    qed
    show ?thesis
      unfolding pull_held_def
      by (intro guarded_bind guarded_pure geometry_safe(1) [OF d] guarded_fold pg asm
          guarded_world safe_request2 inst guarded_set clear kept)
  qed
  have hold: "safe (holding os sha st (pull_held os sha link dl r e dst p d index))"
    if "desc_ok d" "cs_description st = d" for st d e index
    unfolding never_def
  proof
    fix w
    have "fst (pull_held os sha link dl r e dst p d index (w, st)) \<noteq> Inl Panics"
      using held [OF that(1), of e index] that(2) by (simp add: guarded_def)
    then show "fst (holding os sha st (pull_held os sha link dl r e dst p d index) w) \<noteq> Inl Panics"
      by (auto simp: holding_def split: prod.split)
  qed
  have opened: "ensures (cache_open os sha hex (re_cache re) (re_peer re) False path e d) (\<lambda>st. cs_description st = d)" for e d
    using cache_open_Inr by (auto simp: ensures_def)
  have main: "safe (bindI (cache_open os sha hex (re_cache re) (re_peer re) False path e d) (\<lambda>st.
                   holding os sha st (pull_held os sha link dl r e dst p d index)))" if "desc_ok d" for d e index
    by (rule never_bind [OF safe_cache_open [OF that fit] opened]) (rule hold [OF that])
  show ?thesis
    unfolding pull_file2_def Let_def
  proof (rule never_seq)
    show "safe (indexI src i)" using i by (simp add: never_rules)
    fix e
    show "safe (bindI (request2 os sha link (Describe (word_of_nat i) (re_chunk_size re)) dl) (\<lambda>reply.
        case reply of
          Description actual d \<Rightarrow>
            if actual \<noteq> word_of_nat i \<or> d_chunk_size d \<noteq> re_chunk_size re then invalidI ''unexpected description''
            else bindI (liftI (validate_description e d)) (\<lambda>_.
                 bindI (cache_open os sha hex (re_cache re) (re_peer re) False path e d) (\<lambda>st.
                   holding os sha st (pull_held os sha link dl r e dst p d (word_of_nat i))))
        | _ \<Rightarrow> invalidI ''expected description''))"
      by (rule never_bind [OF safe_request2(1) ensures_request2])
        (auto simp: desc_typed_def intro!: never_rules main split: message2.split)
  qed
qed

lemma safe_body2:
  assumes sc: "scan_ok (checksum (j_options j)) sc" and fit: "sizes_fit os" and op: "\<And>p. safe (on_plan p)"
    and src: "j_push j \<Longrightarrow> src = sc_entries sc"
  shows "safe (bindI (liftI (plan src dst (j_options j))) (\<lambda>p.
             bindI (on_plan p) (\<lambda>_.
               if dry_run (j_options j) then expect_ok2 os sha link (Common Finish) (j_deadline j)
               else
                 bindI (if \<not> j_push j then prepare os r src p else returnI ()) (\<lambda>_.
                 bindI (eachI (\<lambda>i.
                   if j_push j then push_file2 os sha link (j_deadline j) (re_chunk_size re) r sc src i
                   else pull_file2 os sha hex link (j_deadline j) re (j_path j) r src dst p i) (files p)) (\<lambda>_.
                 bindI (if j_push j then check_source os r sc else returnI ()) (\<lambda>_.
                 bindI (expect_ok2 os sha link (Common Finish) (j_deadline j)) (\<lambda>_.
                   if \<not> j_push j then finish os r src p else returnI ())))))))"
proof (rule never_bind [where Q = "\<lambda>p. plan src dst (j_options j) = Inr p"])
  show "ensures (liftI (plan src dst (j_options j))) (\<lambda>p. plan src dst (j_options j) = Inr p)"
    by (auto simp: ensures_def)
  fix p assume p: "plan src dst (j_options j) = Inr p"
  have dirs: "i < length src" if "i \<in> set (directories p)" for i
    using that planD(3) [OF p] by (simp add: planned_directories)
  have fl: "i < length src" if "i \<in> set (files p)" for i
    using that planD(3) [OF p] by (simp add: planned_files transferred_def)
  have one: "safe (if j_push j then push_file2 os sha link (j_deadline j) (re_chunk_size re) r sc src i
                 else pull_file2 os sha hex link (j_deadline j) re (j_path j) r src dst p i)" if i: "i \<in> set (files p)" for i
  proof (cases "j_push j")
    case True
    from fl [OF i] src [OF True] have "src ! i \<in> set (sc_entries sc)" by simp
    moreover have "e_kind (src ! i) = File"
      using i planD(3) [OF p] by (simp add: planned_files transferred_def)
    moreover have "e_size (src ! i) \<le> MAX_FILE"
      using manifest_ok_entry [OF planD(1) [OF p], of "src ! i"] fl [OF i] calculation(2) by (simp add: entry_ok_def)
    ultimately obtain st where "bt_get (sc_stamps sc) (e_path (src ! i)) = Some st" "st_size st \<le> MAX_FILE"
      using sc unfolding scan_ok_def by metis
    from safe_push_file2 [OF fl [OF i] this] True show ?thesis by simp
  qed (use safe_pull_file2 [OF fl [OF i] fit] in simp)
  show "safe (bindI (on_plan p) (\<lambda>_.
             if dry_run (j_options j) then expect_ok2 os sha link (Common Finish) (j_deadline j)
             else
               bindI (if \<not> j_push j then prepare os r src p else returnI ()) (\<lambda>_.
               bindI (eachI (\<lambda>i.
                 if j_push j then push_file2 os sha link (j_deadline j) (re_chunk_size re) r sc src i
                 else pull_file2 os sha hex link (j_deadline j) re (j_path j) r src dst p i) (files p)) (\<lambda>_.
               bindI (if j_push j then check_source os r sc else returnI ()) (\<lambda>_.
               bindI (expect_ok2 os sha link (Common Finish) (j_deadline j)) (\<lambda>_.
                 if \<not> j_push j then finish os r src p else returnI ()))))))"
    by (intro never_seq op never_if safe_request2 never_each one never_return safe_check_source [OF sc] never_carry_out dirs)
      simp_all
qed (simp add: never_rules)


end
