(* ===== verification/Session2_Props.thy ===== *)
theory Session2_Props
  imports Session2
begin

text \<open>
  What the server of protocol version 2 promises: the properties that follow from its invariant, and the
  run of a push whose chunks are all cached, from START to FINISH, in which they are witnessed.
\<close>

section \<open>Properties\<close>

lemma handle2_Inr:
  "handle2 os sha hex c peer p m v w = ((Inr rep, v'), w') \<longleftrightarrow> handle_inner2 os sha hex c peer p m v w = (Inr (rep, v'), w')"
  by (auto simp: handle2_def split: prod.splits sum.splits)

lemma handle2_failure:
  "fst (fst (handle2 os sha hex c peer p m v w)) = Inl e \<longleftrightarrow> fst (handle_inner2 os sha hex c peer p m v w) = Inl e"
  by (auto simp: handle2_def split: prod.split sum.split)

lemma server2_safe:
  assumes ok: "server2_ok perms v"
  shows "sizes_fit os \<Longrightarrow> message2_typed m \<Longrightarrow> fst (fst (handle2 os sha hex c peer p m v w)) \<noteq> Inl Panics"
    "accepts_file2 v c sz has_metadata \<noteq> Inl Panics" "receive2 c f v \<noteq> Inl Panics"
proof -
  show "fst (fst (handle2 os sha hex c peer p m v w)) \<noteq> Inl Panics" if "sizes_fit os" "message2_typed m"
    unfolding handle2_failure using safe_handle_inner2 [OF ok that(2,1), of sha hex c peer p] by (simp add: never_def)
  have len: "chunk_length (t_description t) i \<noteq> Inl Panics" if "b_transfer v = Some t" for t i
    using ok that geometry_safe(2) by (auto simp: server2_ok_def transfer_ok_def split: option.splits)
  then have acc: "accepts_file2 v c sz h \<noteq> Inl Panics" for sz h
    by (auto simp: accepts_file2_def split: option.split sum.split failure.split)
  then show "accepts_file2 v c sz has_metadata \<noteq> Inl Panics" .
  have "b_transfer v \<noteq> None" if "accepts_file2 v c sz h = Inr True" for sz h
    using that by (auto simp: accepts_file2_def split: option.splits if_splits)
  then show "receive2 c f v \<noteq> Inl Panics"
    using acc by (auto simp: receive2_def result_simps split: option.splits if_splits)
qed

text \<open>A request other than START that is answered with success runs as a command.\<close>

lemma handle_inner2_command:
  assumes "handle_inner2 os sha hex c peer p m v w = (Inr (rep, v'), w')"
    "\<And>push opt path man. m \<noteq> Common (Start push opt path man)"
  shows "handle_command2 os sha hex c peer p m v w = (Inr (rep, v'), w')"
  using assms by (auto simp: handle_inner2_def split: if_splits message2.splits message.splits)

lemma transfer_command_kind:
  assumes "transfer_command os sha hex peer m v s w = (Inr (rep, s', t'), w')"
  shows "\<not> is_common (reply_message2 rep) \<or> reply_message2 rep = Common Ok"
  using assms
  by (cases m) (auto simp: transfer_command_def description_command_def describe_command_def hashes_command_def
      hashes_get_command_def chunk_begin_command_def chunk_commit_command_def chunk_get_command_def
      chunk_verified_command_def file_commit_command_def file_verified_command_def dropI_def Let_def io_simps case_Inr)

text \<open>C11: The invariant of the server of version 2. Whatever sequence of requests, completed resources,
  disconnects and expirations it has seen, its session is consistent as in version 1, a transfer belongs
  to the pending file and its description to that file's entry, a push has a store of that description
  and a pull an open snapshot with a full table, the chunks asked for or served lie in the page
  negotiated last, and a received resource has exactly the length of the chunk that was begun.\<close>

theorem server2_invariant:
  assumes "reachable2 os sha hex perms r ca v"
  shows "server2_ok perms v"
  using assms by (rule reachable2_ok)

text \<open>No input makes the server of version 2 panic: in every reachable state, for every decoded request of
  every connection and every behaviour of the file system, no index, lookup or arithmetic fails, and
  neither does the handling of a received resource. The hypothesis on the system excludes a cache
  directory whose staging files have \<open>2 ^ 64\<close> bytes or more.\<close>

theorem server2_never_panics:
  assumes "reachable2 os sha hex perms r ca v" "sizes_fit os" "message2_typed m"
  shows "fst (fst (handle2 os sha hex c peer p m v w)) \<noteq> Inl Panics
    \<and> accepts_file2 v c sz has_metadata \<noteq> Inl Panics \<and> receive2 c f v \<noteq> Inl Panics"
  by (intro conjI server2_safe(1) [OF reachable2_ok [OF assms(1)] assms(2,3)] server2_safe(2,3) [OF reachable2_ok [OF assms(1)]])

text \<open>C15: A file is installed only when it is complete. A FILE_COMMIT that is answered with success was sent
  by the owner and peer of a push session with full permission that is no dry run, for the unfinished
  file in transfer, when every page of hashes had been negotiated and no chunk was missing or under way;
  the chunks were assembled into a file, that file was installed for the entry with the digest of the
  description, and the session then counts it as done and awaits the next one.\<close>

theorem file_commit2_guarded:
  assumes "reachable2 os sha hex perms r ca v"
    and "handle2 os sha hex c peer (perms c) (FileCommit i) v w = ((Inr rep, v'), w')"
  shows "\<exists>s t st fl w1 w2 w3 w4 s'.
    v_session (b_base v) = Some s \<and> s_connection s = c \<and> b_peer v = Some peer \<and> s_push s
    \<and> perms c = Full \<and> \<not> dry_run (s_options s)
    \<and> b_transfer v = Some t \<and> t_index t = unat i \<and> unat i \<in> set (files (s_plan s)) \<and> unat i |\<notin>| s_done s
    \<and> t_payload t = Upload st {||} \<and> t_pending t = None \<and> chunks (t_description t) = Inr (t_next_page t)
    \<and> store_assemble os sha st (t_table t) w1 = (Inr fl, w2)
    \<and> install os sha (s_root s) ((s_source s ! unat i)\<lparr>e_hash := Some (d_hash (t_description t))\<rparr>)
        (s_destination s) (s_plan s) fl w3 = (Inr (), w4)
    \<and> v_session (b_base v') = Some s' \<and> s_done s' = finsert (unat i) (s_done s) \<and> s_pending s' = None
    \<and> b_transfer v' = None"
proof -
  from assms(1) have ok: "server2_ok perms v" by (rule reachable2_ok)
  from assms(2) have run: "handle_command2 os sha hex c peer (perms c) (FileCommit i) v w = (Inr (rep, v'), w')"
    unfolding handle2_Inr by (rule handle_inner2_command) simp
  obtain s0 s now w1 where s: "v_session (b_base v) = Some s0" "s = s0\<lparr>s_activity := now\<rparr>" "s_connection s = c"
    "b_peer v = Some peer" "s_push s \<longrightarrow> perms c = Full"
    "ready perms (FileCommit i) v s" "command2 os sha hex c peer (perms c) (FileCommit i) v s w1 = (Inr (rep, v'), w')"
    by (rule handle_command2_Inr [OF ok run])
  from s(7) obtain s' t' w2 where cmd: "file_commit_command os sha v s i w1 = (Inr (rep, s', t'), w2)"
    and v': "v' = v\<lparr>b_base := (b_base v)\<lparr>v_session := Some s'\<rparr>, b_transfer := t'\<rparr>"
    by (auto simp: command2_def transfer_command_def io_simps)
  from cmd obtain t where t: "b_transfer v = Some t" by (auto simp: file_commit_command_def io_simps)
  obtain st fl w3 w4 w5 where c: "t_index t = unat i" "t_payload t = Upload st {||}" "t_pending t = None"
    "chunks (t_description t) = Inr (t_next_page t)" "store_assemble os sha st (t_table t) w1 = (Inr fl, w3)"
    "install os sha (s_root s) ((s_source s ! t_index t)\<lparr>e_hash := Some (d_hash (t_description t))\<rparr>)
       (s_destination s) (s_plan s) fl w4 = (Inr (), w5)" "t' = None"
    "s' = s\<lparr>s_prepared := True, s_done := finsert (t_index t) (s_done s), s_pending := None\<rparr>"
    by (rule file_commit_command_Inr [OF t cmd])
  from s(6) t c(2) have core: "session_core perms s" "\<not> dry_run (s_options s)"
    and to: "s_pending s = Some (t_index t)" "s_push s"
    by (auto simp: ready_def transfer_ok_def)
  note i = core_pending(1,2) [OF core(1) to(1)]
  show ?thesis
    by (rule exI [of _ s0], rule exI [of _ t], rule exI [of _ st], rule exI [of _ fl], rule exI [of _ w1],
        rule exI [of _ w3], rule exI [of _ w4], rule exI [of _ w5], rule exI [of _ s'])
      (use s core(2) to(2) t c i v' in simp)
qed

text \<open>C26: Every reply can be sent and read. Whatever a reachable server answers with success to a request
  other than START, the message encodes within the limits of the protocol, and the peer decodes it to
  the same message.\<close>

theorem replies2_delivered:
  assumes "reachable2 os sha hex perms r ca v" "\<And>push opt path man. m \<noteq> Common (Start push opt path man)"
    and "handle2 os sha hex c peer (perms c) m v w = ((Inr rep, v'), w')"
  shows "\<exists>bytes. encode2 (reply_message2 rep) = Inr bytes \<and> length bytes \<le> 4110
    \<and> decode2 sha (Inr ()) bytes = Inr (reply_message2 rep)"
proof -
  from assms(1) have ok: "server2_ok perms v" by (rule reachable2_ok)
  have run: "handle_command2 os sha hex c peer (perms c) m v w = (Inr (rep, v'), w')"
    by (rule handle_inner2_command [OF assms(3) [unfolded handle2_Inr] assms(2)])
  obtain s w1 where s: "ready perms m v s" "command2 os sha hex c peer (perms c) m v s w1 = (Inr (rep, v'), w')"
    by (rule handle_command2_Inr [OF ok run])
  have "message_ok2 sha (reply_message2 rep) \<and> (\<not> is_common (reply_message2 rep) \<or> reply_message2 rep = Common Ok)"
  proof (cases "m = Common Finish")
    case True
    with s(2) show ?thesis by (auto simp: command2_def finish2_def io_simps)
  next
    case False
    with s(2) obtain s' t' w2 where run: "transfer_command os sha hex peer m v s w1 = (Inr (rep, s', t'), w2)"
      by (auto simp: command2_def io_simps)
    from transfer_command_reply [OF s(1) run] transfer_command_kind [OF run] show ?thesis by blast
  qed
  moreover have "length (message_bytes2 (Common Ok)) \<le> 4110" by (simp add: message_bytes2_def)
  ultimately show ?thesis
    using command_bytes_bound [OF _ message_ok2_encodable] message_ok2_encodable
    unfolding encode2_iff decode2_iff MAX_CONTROL_def
    by (intro exI [of _ "message_bytes2 (reply_message2 rep)"]) force
qed

lemma intruder_inner2:
  assumes "v_session (b_base v) = Some s"
    and "s_connection s \<noteq> c \<or> b_peer v \<noteq> Some peer \<or> s_push s \<and> p \<noteq> Full"
  shows "\<exists>e. handle_inner2 os sha hex c peer p m v w = (Inl (Fails e), w)"
proof -
  have start: "\<exists>e. handle_inner os sha c p (Start push opt path man) (b_base v) w = (Inl (Fails e), w)"
    for push opt path man
    using assms(1) by (auto simp: handle_inner_def start_session_def failI_def)
  show ?thesis
  proof (cases "\<exists>push opt path man. m = Common (Start push opt path man)")
    case True
    then obtain push opt path man where m: "m = Common (Start push opt path man)" by blast
    from start [of push opt path man] obtain e where
      "handle_inner os sha c p (Start push opt path man) (b_base v) w = (Inl (Fails e), w)" by blast
    then show ?thesis by (simp add: m handle_inner2_def bindI_def failI_def)
  next
    case False
    then have "handle_inner2 os sha hex c peer p m v w
      = (if p = Deny then failI PermissionDenied else handle_command2 os sha hex c peer p m v) w"
      by (auto simp: handle_inner2_def split: message2.split message.split)
    then show ?thesis using assms by (auto simp: handle_command2_def invalidI_def failI_def)
  qed
qed

text \<open>C27: Sessions are isolated and bound to their peer. While a session is open, a request that comes from
  another connection is refused and changes nothing; one that comes from its connection but from another
  identity, or for a push by a peer that has lost its full permission, is refused and ends the session,
  its transfer included.\<close>

theorem intruders2_refused:
  assumes "v_session (b_base v) = Some s"
    and "s_connection s \<noteq> c \<or> b_peer v \<noteq> Some peer \<or> s_push s \<and> p \<noteq> Full"
  shows "\<exists>e v' w'. handle2 os sha hex c peer p m v w = ((Inl (Fails e), v'), w')
    \<and> (if s_connection s \<noteq> c then v' = v \<and> w' = w
        else v_session (b_base v') = None \<and> b_transfer v' = None \<and> w' = drop_transfer os sha (b_transfer v) w)"
proof -
  obtain e where "handle_inner2 os sha hex c peer p m v w = (Inl (Fails e), w)"
    using intruder_inner2 [OF assms, of os sha hex m w] by blast
  then show ?thesis
    using assms(1) by (cases "s_connection s = c") (simp_all add: handle2_def disconnect2_def disconnect_def)
qed

lemma keeps_scan_file:
  assumes r: "reads_keep os view" and a: "anonymous_keep os view"
  shows "keeps view (scan_file os sha f cs)"
proof -
  have exact: "keeps view (read_exact os f todo acc)" for todo acc
  proof (induction todo arbitrary: acc rule: less_induct)
    case (less todo)
    show ?case
      by (subst read_exact_unfold) (use less r in \<open>auto simp: neq_Nil_conv intro!: keeps_rules keeps_reads\<close>)
  qed
  have blocks: "keeps view (read_blocks os f out todo acc)" if "\<And>b. keeps view (out b)" for out todo acc
  proof (induction todo arbitrary: acc rule: less_induct)
    case (less todo)
    show ?case
      by (subst read_blocks_unfold) (use less exact that in \<open>auto intro!: keeps_rules\<close>)
  qed
  have "keeps view (scan_file_chunks os sha f (unat cs) n whole table)" for n whole table
  proof (induction n arbitrary: whole table rule: less_induct)
    case (less n)
    show ?case
      by (subst scan_file_chunks_unfold) (use less in \<open>auto intro!: keeps_rules blocks\<close>)
  qed
  then show ?thesis
    using r anonymous_file [OF a] by (auto simp: scan_file_def Let_def intro!: keeps_rules keeps_reads)
qed

lemma keeps_chunk_file:
  assumes r: "reads_keep os view" and a: "anonymous_keep os view"
  shows "keeps view (chunk_file os f d i)"
proof -
  have "keeps view (bindI (sysI (os_tempfile os)) (\<lambda>file.
     bindI (copy_limited os f file n 0) (\<lambda>k.
       if k \<noteq> n then invalidI t else bindI (sysI (os_rewind os file)) (\<lambda>_. returnI file))))" for n t
    by (rule keeps_bind_ensures [OF anonymous_file [OF a]])
      (auto simp: invalidI_def intro!: keeps_rules keeps_reads keeps_copy_limited r)
  then show ?thesis
    unfolding chunk_file_def by (intro keeps_bind [OF keeps_return(5)] keeps_bind [OF keeps_reads(8) [OF r]])
qed

lemma keeps_require [keeps_rules]:
  "keeps view (invalidI t)" "keeps view (transfer_of state index)" "keeps view (require_file s i push)"
  by (auto simp: invalidI_def transfer_of_def require_file_def intro!: keeps_rules split: option.split)

text \<open>In a session that only sends, no command changes what can be seen.\<close>

lemma keeps_pull_commands2:
  assumes r: "reads_keep os view" and a: "anonymous_keep os view"
    and s: "ready perms m v s" "\<not> s_push s"
  shows "keeps view (transfer_command os sha hex peer m v s)"
proof -
  have dl: "\<exists>f served. t_payload t = Download f served" if "b_transfer v = Some t" for t
    using s that by (auto simp: ready_def transfer_ok_def split: payload.splits)
  have "keeps view (description_command os sha hex v peer s i d)" for i d
    using s(2) by (auto simp: description_command_def require_file_def Let_def bindI_def protocol_error_def failI_def keeps_def)
  moreover have "keeps view (describe_command os sha v s i cs)" for i cs
    by (auto simp: describe_command_def Let_def intro!: keeps_rules keeps_snapshot keeps_scan_file r a split: prod.split)
  moreover have "keeps view (hashes_command os sha v s i start hs)" for i start hs
    unfolding hashes_command_def Let_def
    by (rule keeps_bind_ensures [OF keeps_require(2) ensures_transfer]) (auto dest!: dl intro!: keeps_rules)
  moreover have "keeps view (hashes_get_command v s i start)" "keeps view (chunk_begin_command v s i chunk)"
      "keeps view (chunk_verified_command v s i chunk)" for i start chunk
    unfolding hashes_get_command_def chunk_begin_command_def chunk_verified_command_def
    by (auto intro!: keeps_rules split: payload.split)
  moreover have "keeps view (chunk_commit_command os sha v s i chunk resource)" for i chunk resource
    unfolding chunk_commit_command_def
    by (rule keeps_bind_ensures [OF keeps_require(2) ensures_transfer]) (auto dest!: dl intro!: keeps_rules)
  moreover have "keeps view (chunk_get_command os v s i chunk)" for i chunk
    unfolding chunk_get_command_def by (auto intro!: keeps_rules keeps_chunk_file r a split: payload.split)
  moreover have "keeps view (file_commit_command os sha v s i)" for i
    unfolding file_commit_command_def
    by (rule keeps_bind_ensures [OF keeps_require(2) ensures_transfer]) (auto dest!: dl intro!: keeps_rules)
  moreover have "keeps view (file_verified_command os v s i)" for i
    unfolding file_verified_command_def by (auto intro!: keeps_rules keeps_root_reads r)
  ultimately show ?thesis
    by (auto simp: transfer_command_def intro!: keeps_rules split: message2.split)
qed

lemma keeps_handle_inner2:
  assumes r: "reads_keep os view" and a: "anonymous_keep os view" and ok: "server2_ok perms v"
    and q: "\<And>s. v_session (b_base v) = Some s \<Longrightarrow> s_connection s = c \<Longrightarrow> \<not> s_push s \<or> dry_run (s_options s)"
  shows "keeps view (handle_inner2 os sha hex c peer p m v)"
proof -
  have start: "keeps view (handle_inner os sha c p req (b_base v))" for req
    by (rule keeps_handle_inner [OF r a]) (rule q)
  have "keeps view (handle_command2 os sha hex c peer p m v)"
  proof (cases "v_session (b_base v)")
    case (Some s)
    have run: "keeps view (command2 os sha hex c peer p m v (s\<lparr>s_activity := now\<rparr>))"
      if c: "s_connection s = c" and d: "dry_run (s_options s) \<longrightarrow> m = Common Finish" for now
    proof -
      let ?s = "s\<lparr>s_activity := now\<rparr>"
      have rd: "ready perms m v ?s"
        using ok Some d by (auto simp: ready_def server2_ok_def core_activity transfer_ok_activity split: option.splits)
      have "keeps view (handle_inner os sha c p Finish ((b_base v)\<lparr>v_session := Some ?s\<rparr>))"
        by (rule keeps_handle_inner [OF r a]) (use q [OF Some c] in auto)
      then have "keeps view (finish2 os sha c p v ?s)"
        by (auto simp: finish2_def intro!: keeps_rules)
      moreover have "m \<noteq> Common Finish \<Longrightarrow> keeps view (transfer_command os sha hex peer m v ?s)"
        by (rule keeps_pull_commands2 [OF r a rd]) (use q [OF Some c] d in auto)
      ultimately show ?thesis
        by (auto simp: command2_def intro!: keeps_rules)
    qed
    with Some show ?thesis
      by (auto simp: handle_command2_def Let_def intro!: keeps_rules keeps_reads r)
  qed (auto simp: handle_command2_def intro!: keeps_rules)
  then show ?thesis
    using start by (auto simp: handle_inner2_def intro!: keeps_rules split: message2.split message.split reply.split)
qed


section \<open>Witnesses\<close>

definition demo_cache :: cache where
  "demo_cache = \<lparr>ca_directory = ascii ''c'', ca_root_id = ascii ''r'', ca_limits = None\<rparr>"

definition demo2 :: "session \<Rightarrow> transfer option \<Rightarrow> server2" where
  "demo2 s t = \<lparr>b_base = demo_server s, b_cache = demo_cache, b_peer = Some 8, b_path = [], b_transfer = t\<rparr>"

definition cached_os :: "((fd \<Rightarrow> byte list option) \<times> nat) os" where
  "cached_os = disk_os\<lparr>os_openat2 := \<lambda>_ _ m w. (if m = Open_path then Inl NotFound else Inr 1, w)\<rparr>"

abbreviation demo_handle2 ::
  "message2 \<Rightarrow> server2 \<Rightarrow> (fd \<Rightarrow> byte list option) \<times> nat
     \<Rightarrow> (reply2 outcome \<times> server2) \<times> (fd \<Rightarrow> byte list option) \<times> nat" where
  "demo_handle2 \<equiv> handle2 cached_os length_digest (\<lambda>_. ascii ''k'') 1 8 Full"

lemmas demo2_defs =
  demo_root_def demo_file_def demo_options_def demo_plan_def demo_session_def demo_server_def demo_cache_def
  demo2_def three_bytes_def disk_os_def cached_os_def

lemma demo2_start:
  "demo_handle2 (Common (Start True demo_options [] [demo_file])) (new_server2 demo_root demo_cache) w
     = ((Inr (Reply2 (Common (Manifest []))), demo2 demo_session None), w)"
  using demo_paths demo_planned
  by (simp add: handle2_def handle_inner2_def run_defs demo2_defs new_server2_def new_server_def)

definition demo_store :: store where
  "demo_store = \<lparr>cs_root = \<lparr>root_fd = 0, root_prefix = ascii ''k''\<rparr>, cs_description = three_bytes, cs_last_activity = 5, cs_lock = 1,
     cs_cache_lock = 1\<rparr>"

abbreviation demo_data :: "(fd \<Rightarrow> byte list option)" where
  "demo_data \<equiv> [8 \<mapsto> activity_record 5]"

lemma demo2_paths:
  "full \<lparr>root_fd = 0, root_prefix = []\<rparr> (ascii ''cache.lock'') = Inr (ascii ''cache.lock'')"
  "full \<lparr>root_fd = 0, root_prefix = []\<rparr> (ascii ''k'') = Inr (ascii ''k'')"
  "full \<lparr>root_fd = 0, root_prefix = ascii ''k''\<rparr> (ascii ''lock'') = Inr (ascii ''k/lock'')"
  "full \<lparr>root_fd = 0, root_prefix = ascii ''k''\<rparr> (ascii ''activity'') = Inr (ascii ''k/activity'')"
  "subtree \<lparr>root_fd = 0, root_prefix = []\<rparr> (ascii ''k'') = Inr \<lparr>root_fd = 0, root_prefix = ascii ''k''\<rparr>"
  "rsplit_once slash (ascii ''k/activity'') = Some (ascii ''k'', ascii ''activity'')"
  "validate (ascii ''activity'') = Inr ()" "validate (ascii ''k'') = Inr ()"
  by code_simp+

lemma demo2_staged:
  "stage_inner cached_os length_digest \<lparr>root_fd = 0, root_prefix = ascii ''k''\<rparr> (ascii ''activity'')
      (Bytes_reader (activity_record t)) 16 (Some (length_digest (activity_record t))) None w
     = (Inr \<lparr>sg_dir = 1, sg_name = ascii ''activity'', sg_temp_name = reserved_prefix, sg_temp = 8\<rparr>,
        (fst w)(8 \<mapsto> activity_record t), snd w)"
proof -
  have len: "length (activity_record t) = 16" "length (activity_record t) = 16 \<Longrightarrow> activity_record t \<noteq> []"
    by (auto simp: activity_record_def activity_magic_def ascii_def)
  show ?thesis
    using demo2_paths len
    by (simp add: stage_inner_def stage_body_def parent_def open_full_def stage_loop.simps read_from_def bindI_def
      pureI_def on_failI_def sysI_def disk_os_def cached_os_def length_digest_def Let_def)
qed

lemma demo2_activity:
  "write_activity cached_os length_digest \<lparr>root_fd = 0, root_prefix = ascii ''k''\<rparr> t w
     = (Inr (), (fst w)(8 \<mapsto> activity_record t), snd w)"
  using demo2_staged [of t w]
  by (simp add: write_activity_def stage_content_def Let_def bindI_def commit_def finallyI_def drop_staged_def sysI_def
    disk_os_def cached_os_def resultI_def)

lemma cached_calls:
  "os_openat2 cached_os d p m w = (if m = Open_path then Inl NotFound else Inr 1, w)"
  "os_open_root cached_os q w = (Inr 0, w)" "os_mkdirat cached_os d n w = (Inr (), w)"
  "os_sync cached_os f w = (Inr (), w)" "os_flock cached_os f b w = (Inr (), w)"
  "os_now cached_os w = (5, w)" "os_clock cached_os w = (Some 5, w)"
  "os_metadata cached_os f w = (Inr \<lparr>m_type = Regular, m_dev = 1, m_ino = 1, m_len = 3, m_mtime = 0, m_mtime_ns = 0,
         m_ctime = 0, m_ctime_ns = 0, m_nlink = 1\<rparr>, w)"
  by (simp_all add: cached_os_def disk_os_def)

lemma demo2_opened:
  "cache_open cached_os length_digest (\<lambda>_. ascii ''k'') demo_cache 8 True [] demo_file three_bytes w
     = (Inr demo_store, (fst w)(8 \<mapsto> activity_record 5), snd w)"
proof -
  have sc: "scope length_digest 8 True (ascii ''r'') (ascii ''f'') = Inr (length_digest (scope_input 8 True (ascii ''r'') (ascii ''f'')))"
    by (simp add: scope_def demo_paths) (simp add: ascii_def MAX_PATH_def)
  have dir: "filter (\<lambda>s. s \<noteq> []) (components (ascii ''k'')) = [ascii ''k'']" by code_simp
  show ?thesis
    using demo_paths demo2_paths demo2_activity [of 5 w] sc dir
    by (simp add: cache_open_def demo_cache_def demo_file_def key_def store_open_def root_open_def lock_state_with_def
      open_locked_def mkdir_def mkdir_step_def open_full_def now_seconds_def demo_store_def cached_calls bindI_def
      pureI_def sysI_def resultI_def Let_def)
qed

lemma demo2_described:
  "demo_handle2 (Description 0 three_bytes) (demo2 demo_session None) w
     = ((Inr ok2, demo2 (demo_session\<lparr>s_pending := Some 0\<rparr>) (Some (start_transfer 0 three_bytes [] (Upload demo_store {||})))),
        (fst w)(8 \<mapsto> activity_record 5), snd w)"
proof -
  have "validate_description demo_file three_bytes = Inr ()"
    by (simp add: validate_description_def demo_file_def three_bytes_def)
  moreover have "require_file demo_session 0 True w = (Inr (), w)"
    by (simp add: require_file_def demo_session_def demo_plan_def)
  ultimately show ?thesis
    using demo2_opened [of w]
    by (simp add: handle2_def handle_inner2_def handle_command2_def command2_def transfer_command_def description_command_def
      bindI_def pureI_def indexI_def nowI_def cached_calls demo2_def demo_server_def demo_session_def demo_options_def
      require_file_def demo_plan_def Let_def)
qed

definition demo_transfer :: "byte list \<Rightarrow> nat \<Rightarrow> transfer" where
  "demo_transfer table n = (start_transfer 0 three_bytes table (Upload demo_store {||}))\<lparr>t_next_page := n\<rparr>"

definition demo_pushing :: session where
  "demo_pushing = demo_session\<lparr>s_pending := Some 0\<rparr>"

lemma demo2_name:
  "store_name demo_store 0 = Inr (ascii ''00000000/00000000.chunk'')"
  "full \<lparr>root_fd = 0, root_prefix = ascii ''k''\<rparr> (ascii ''00000000/00000000.chunk'') = Inr (ascii ''k/00000000/00000000.chunk'')"
  "ascii ''k/00000000/00000000.chunk'' \<noteq> []"
proof -
  show "store_name demo_store 0 = Inr (ascii ''00000000/00000000.chunk'')"
    using three_name(1) by (simp add: store_name_def demo_store_def three_store_def)
qed code_simp+

lemma demo2_verified:
  "store_verified cached_os length_digest demo_store (be_hash 3) 0 w = (Inr (Some 1), fst w, 0)"
proof -
  have "read_all os f 10 = read_all os f (Suc (Suc 8))" for os :: "((fd \<Rightarrow> byte list option) \<times> nat) os" and f
    by simp
  note fuel = this [THEN fun_cong, THEN fun_cong, unfolded read_all.simps]
  show ?thesis
    using demo2_name three_bytes_facts
    by (simp add: fuel store_verified_def demo_store_def open_file_def open_full_def hash_file_def bindI_def pureI_def
      resultI_def sysI_def cached_os_def disk_os_def length_digest_def)
qed

lemma demo2_page:
  "set_page three_bytes 0 [3] [] = Inr (be_hash 3)" "page_len three_bytes 0 = Inr 1"
proof -
  show l: "page_len three_bytes 0 = Inr 1"
    using page_len_Inr [OF three_bytes_facts(1), of 0 1] by (simp add: n_chunks_def three_bytes_def div_ceil_def)
  show "set_page three_bytes 0 [3] [] = Inr (be_hash 3)"
    using l set_page_Inr [OF three_bytes_facts(1)] by (simp add: write_at_def)
qed

lemma demo2_hashed:
  "demo_handle2 (Hashes 0 0 [3]) (demo2 demo_pushing (Some (demo_transfer [] 0))) w
     = ((Inr (Reply2 (Missing 0 0 1 [])), demo2 demo_pushing (Some (demo_transfer (be_hash 3) 1))), fst w, 0)"
proof -
  have "chunks three_bytes = Inr 1" by (rule three_bytes_facts)
  then have "store_missing cached_os length_digest demo_store (be_hash 3) 0 w = (Inr [], fst w, 0)"
    using demo2_verified [of w] demo2_page(2)
    by (simp add: store_missing_def demo_store_def bindI_def pureI_def)
  moreover have "cs_description demo_store = three_bytes" by (simp add: demo_store_def)
  ultimately show ?thesis
    using demo2_page(1)
    by (simp add: handle2_def handle_inner2_def handle_command2_def command2_def transfer_command_def hashes_command_def
      transfer_of_def demo_transfer_def start_transfer_def
      bindI_def pureI_def nowI_def cached_calls demo2_def demo_server_def demo_session_def demo_pushing_def demo_options_def
      Let_def sorted_list_of_fset.rep_eq)
qed

lemma demo2_assembled:
  "store_assemble cached_os length_digest demo_store (be_hash 3) w = (Inr 9, (fst w)(9 \<mapsto> [1, 2, 3]), 0)"
  using demo2_verified three_bytes_facts
  by (simp add: store_assemble_def assemble_chunk_def demo_store_def three_bytes_def bindI_def pureI_def sysI_def
      cached_os_def disk_os_def read_blocks.simps read_exact.simps length_digest_def)

lemma demo2_installed:
  "install cached_os length_digest demo_root (demo_file\<lparr>e_hash := Some 3\<rparr>) [] demo_plan 9 ((fst w)(9 \<mapsto> [1, 2, 3]), 0)
     = (Inr (), (fst w)(9 \<mapsto> [1, 2, 3], 8 \<mapsto> [1, 2, 3]), 131072)"
  using demo_paths
  by (simp add: run_defs demo2_defs bt_get_def stage_loop.simps read_from_def length_digest_def)

lemma demo2_cleared:
  "clear_committed cached_os length_digest demo_store w = (Inr demo_store, w)"
  "dropI cached_os length_digest demo_store w = (Inr (), w)"
proof -
  have "full \<lparr>root_fd = 0, root_prefix = ascii ''k''\<rparr> [] = Inr (ascii ''k'')" by code_simp
  moreover have "children cached_os \<lparr>root_fd = 0, root_prefix = ascii ''k''\<rparr> [] w = (Inr [], w)"
    using calculation by (simp add: children_def open_full_def bindI_def pureI_def sysI_def cached_os_def disk_os_def ascii_def)
  moreover have t: "store_touch cached_os length_digest demo_store w = (Inr demo_store, w)"
    by (simp add: store_touch_def now_seconds_def cached_calls refresh_activity_def demo_store_def bindI_def)
  ultimately show "clear_committed cached_os length_digest demo_store w = (Inr demo_store, w)"
    by (simp add: clear_committed_def store_clear_def payload_bytes_def remove_payload_def bindI_def resultI_def demo_store_def)
  show "dropI cached_os length_digest demo_store w = (Inr (), w)" using t by (simp add: dropI_def store_drop_def)
qed

lemma demo2_committed:
  "demo_handle2 (FileCommit 0) (demo2 demo_pushing (Some (demo_transfer (be_hash 3) 1))) w
     = ((Inr ok2, demo2 (demo_session\<lparr>s_prepared := True, s_done := {|0|}\<rparr>) None), (fst w)(9 \<mapsto> [1, 2, 3], 8 \<mapsto> [1, 2, 3]), 131072)"
proof -
  have "prepare cached_os demo_root [demo_file] demo_plan w = (Inr (), w)" for w
    using demo_paths by (simp add: run_defs demo2_defs)
  then show ?thesis
    using demo2_assembled [of w] demo2_installed [of w] demo2_cleared three_bytes_facts(2)
    by (simp add: handle2_def handle_inner2_def handle_command2_def command2_def transfer_command_def file_commit_command_def
      transfer_of_def demo_transfer_def start_transfer_def
      bindI_def pureI_def indexI_def nowI_def cached_calls demo2_def demo_server_def demo_session_def demo_pushing_def demo_options_def
      Let_def three_bytes_def)
qed

lemma demo2_finished:
  "demo_handle2 (Common Finish) (demo2 (demo_session\<lparr>s_prepared := True, s_done := {|0|}\<rparr>) None) w
     = ((Inr ok2, new_server2 demo_root demo_cache), w)"
  by (simp add: handle2_def handle_inner2_def handle_command2_def command2_def finish2_def run_defs demo2_defs
    new_server_def new_server2_def fcard.rep_eq)

text \<open>All of these servers are reachable.\<close>

abbreviation demo_reachable2 :: "server2 \<Rightarrow> bool" where
  "demo_reachable2 \<equiv> reachable2 cached_os length_digest (\<lambda>_. ascii ''k'') (\<lambda>_. Full) demo_root demo_cache"

lemma reachable2_step:
  "reachable2 os sha hex perms r ca v \<Longrightarrow> message2_typed m \<Longrightarrow> handle2 os sha hex c peer (perms c) m v w = ((x, v'), w')
    \<Longrightarrow> reachable2 os sha hex perms r ca v'"
  unfolding reachable2_def by (rule rtranclp.rtrancl_into_rtrancl) (auto intro: step2.request2)

lemma demo2_reachable:
  "demo_reachable2 (new_server2 demo_root demo_cache)" "demo_reachable2 (demo2 demo_session None)"
  "demo_reachable2 (demo2 demo_pushing (Some (demo_transfer [] 0)))"
  "demo_reachable2 (demo2 demo_pushing (Some (demo_transfer (be_hash 3) 1)))"
proof -
  show 0: "demo_reachable2 (new_server2 demo_root demo_cache)" by (simp add: reachable2_def)
  from reachable2_step [OF 0 _ demo2_start] show 1: "demo_reachable2 (demo2 demo_session None)" by simp
  have "start_transfer 0 three_bytes [] (Upload demo_store {||}) = demo_transfer [] 0"
    by (simp add: demo_transfer_def start_transfer_def)
  with reachable2_step [OF 1 _ demo2_described] three_bytes_facts(1)
  show 2: "demo_reachable2 (demo2 demo_pushing (Some (demo_transfer [] 0)))" by (simp add: demo_pushing_def)
  from reachable2_step [OF 2 _ demo2_hashed] show "demo_reachable2 (demo2 demo_pushing (Some (demo_transfer (be_hash 3) 1)))"
    by simp
qed

lemma server2_invariant_witness: "server2_ok (\<lambda>_. Full) (demo2 demo_pushing (Some (demo_transfer (be_hash 3) 1)))"
  by (rule server2_invariant [OF demo2_reachable(4)])

lemma server2_never_panics_witness:
  "fst (fst (demo_handle2 (HashesGet 0 5) (demo2 demo_pushing (Some (demo_transfer [] 0))) (\<lambda>_. None, 0))) \<noteq> Inl Panics"
proof -
  have "sizes_fit cached_os"
    by (auto simp: sizes_fit_def payload_bytes_def children_def never_def bindI_def pureI_def sysI_def open_full_def
      cached_os_def disk_os_def split: sum.split)
  from server2_never_panics [OF demo2_reachable(3) this, of "HashesGet 0 5" 1 8 "Full" "(\<lambda>_. None, 0)"]
  show ?thesis by simp
qed

lemma file_commit2_guarded_witness:
  "\<exists>t st. Some (demo_transfer (be_hash 3) 1) = Some t \<and> t_payload t = Upload st {||} \<and> chunks (t_description t) = Inr 1"
proof -
  have "b_transfer (demo2 demo_pushing (Some (demo_transfer (be_hash 3) 1))) = Some (demo_transfer (be_hash 3) 1)"
    "t_next_page (demo_transfer (be_hash 3) 1) = 1"
    by (simp_all add: demo2_def demo_transfer_def)
  with file_commit2_guarded [OF demo2_reachable(4) demo2_committed] show ?thesis by auto
qed

lemma replies2_delivered_witness:
  "\<exists>bytes. encode2 (Missing 0 0 1 []) = Inr bytes \<and> decode2 length_digest (Inr ()) bytes = Inr (Missing 0 0 1 [])"
  using replies2_delivered [OF demo2_reachable(3) _ demo2_hashed] by auto

lemma intruders2_refused_witness:
  "\<exists>e. handle2 cached_os length_digest (\<lambda>_. ascii ''k'') 2 8 Full (Common Finish) (demo2 demo_session None) (\<lambda>_. None, 0)
     = ((Inl (Fails e), demo2 demo_session None), (\<lambda>_. None, 0))"
proof -
  have "v_session (b_base (demo2 demo_session None)) = Some demo_session" "s_connection demo_session \<noteq> 2"
    by (simp_all add: demo2_def demo_server_def demo_session_def)
  from intruders2_refused [OF this(1) disjI1 [OF this(2)], of cached_os length_digest "\<lambda>_. ascii ''k''" 8 "Full"
      "Common Finish" "(\<lambda>_. None, 0)"] this(2)
  show ?thesis by auto
qed


end
