(* ===== verification/Memory2.thy ===== *)
theory Memory2
  imports Memory_Fs Client2_Props Session2_Props
begin

text \<open>
  The file system of \<open>Memory_Fs\<close> with a cache directory beside it: descriptors from 1000 on belong to
  the cache, where everything succeeds and nothing is kept. It satisfies the laws of both sides, and a
  pull of version 2 runs on it to its end.
\<close>

section \<open>A system with two sides\<close>

definition mem_side :: "fd \<Rightarrow> bool" where
  "mem_side f \<longleftrightarrow> 1000 \<le> f"

definition beside_sys :: "'a \<Rightarrow> (fd \<Rightarrow> mem \<Rightarrow> 'a sys \<times> mem) \<Rightarrow> fd \<Rightarrow> mem \<Rightarrow> 'a sys \<times> mem" where
  "beside_sys x c d w =
     (if \<not> mem_side d then c d w
      else (if fs_handle w d = None \<and> fs_temp w d = None then Inr x else Inl (OtherIo []), w))"

definition side_os :: "mem os" where
  "side_os = mem_os\<lparr>
     os_open_root := \<lambda>_ w. (Inr 1000, w),
     os_openat2 := \<lambda>d p m w. if mem_side d then (if m = Open_path then Inl NotFound else Inr 1000, w) else mem_open d p m w,
     os_metadata := \<lambda>f w. if mem_side f \<and> fs_handle w f = None
        then (Inr (node_metadata (File_node 0 0 0)), w) else mem_metadata f w,
     os_mkdirat := \<lambda>d n. beside_sys () (\<lambda>d. mem_mkdir d n) d,
     os_unlinkat := \<lambda>d n b. beside_sys () (\<lambda>d. mem_unlink d n b) d,
     os_renameat := \<lambda>d a d' b. beside_sys () (\<lambda>d. mem_rename d a d' b) d,
     os_tempfile_in := \<lambda>d p. beside_sys (1001, p) (\<lambda>d. mem_tempfile_in d p) d,
     os_tempfile := \<lambda>w. (Inr 1002, w\<lparr>m_input := (m_input w)(1002 := [])\<rparr>),
     os_write := \<lambda>f b w. if mem_side f \<and> fs_temp w f \<noteq> None then (Inl (OtherIo []), w) else mem_write f b w\<rparr>"

lemma side_obeys_write: "obeys_write side_os mem_view"
  unfolding obeys_write_def
proof (intro allI impI, elim conjE)
  fix f q b sz sec ns w u w'
  assume "fs_temp (mem_view w) f = Some q" "fs_tree (mem_view w) q = Some (File_node sz sec ns)"
    "os_write side_os f b w = (Inr u, w')"
  then show "\<exists>sec ns. mem_view w' = (mem_view w)\<lparr>
        fs_tree := (fs_tree (mem_view w))(q \<mapsto> File_node (sz + word_of_nat (length b)) sec ns)\<rparr>"
    by (intro exI [of _ sec] exI [of _ ns]) (auto simp: side_os_def mem_write_def mem_view_eq split: if_splits)
qed

lemma side_obeys: "\<not> mem_side rf \<Longrightarrow> obeys side_os rf mem_view"
proof -
  assume rf: "\<not> mem_side rf"
  have times: "os_futimens side_os = os_futimens mem_os" by (simp add: side_os_def)
  have "obeys_times side_os mem_view = obeys_times mem_os mem_view" unfolding obeys_times_def times ..
  then have times_ok: "obeys_times side_os mem_view" using mem_obeys_files(3) by (rule iffD2)
  have "os_openat2 side_os rf = os_openat2 mem_os rf" using rf by (simp add: side_os_def mem_os_def fun_eq_iff)
  note opens = this
  have "obeys_open side_os rf mem_view = obeys_open mem_os rf mem_view" unfolding obeys_open_def opens ..
  then have "obeys_open side_os rf mem_view" using mem_obeys_open by (rule iffD2)
  moreover have "obeys_reads side_os mem_view"
    using mem_obeys_rest(1) by (auto simp: obeys_reads_def side_os_def mem_os_def)
  moreover have "obeys_mkdir side_os mem_view"
    using mem_obeys_rest(2) by (auto simp: obeys_mkdir_def side_os_def mem_os_def beside_sys_def split: if_splits)
  moreover have "obeys_unlink side_os mem_view"
    by (auto simp: obeys_unlink_def side_os_def mem_os_def beside_sys_def mem_unlink_def keep_handles_def
        split: if_splits option.splits)
  moreover have "obeys_rename side_os mem_view"
    by (auto simp: obeys_rename_def side_os_def mem_os_def beside_sys_def mem_rename_def keep_handles_def
        split: if_splits option.splits)
  moreover have "obeys_tempfile side_os mem_view"
    using mem_obeys_files(1) by (simp add: obeys_tempfile_def side_os_def mem_os_def beside_sys_def)
  ultimately show ?thesis using times_ok side_obeys_write by (simp add: obeys_def)
qed

lemma side_apart: "apart side_os mem_view mem_side"
  by (auto simp: apart_def side_results_def side_os_def mem_os_def mem_side_def beside_sys_def mem_write_def
      split: if_splits option.splits node.splits)

lemma side_opens: "opens_aside side_os mem_side dir"
  by (simp add: opens_aside_def side_os_def mem_side_def)

section \<open>A pull of one empty file\<close>

definition zero_file :: entry where
  "zero_file = \<lparr>e_path = ascii ''f'', e_kind = File, e_size = 0, e_mtime = 9, e_ns = 2, e_hash = None\<rparr>"

definition zero_bytes :: description where
  "zero_bytes = \<lparr>d_size = 0, d_chunk_size = 4096, d_hash = 0\<rparr>"

definition demo_resume :: resume where
  "demo_resume = \<lparr>re_cache = demo_cache, re_peer = 8, re_chunk_size = 4096\<rparr>"

text \<open>The peer answers with a manifest of the file, its description, and OK twice.\<close>

definition zero_world :: mem where
  "zero_world = demo_world\<lparr>m_answers := [message_bytes2 (Common (Manifest [zero_file])), message_bytes2 (Description 0 zero_bytes),
     message_bytes2 (Common Ok), message_bytes2 (Common Ok)]\<rparr>"

lemma zero_planned: "plan [zero_file] [] demo_options = Inr demo_plan"
  by code_simp

lemma zero_described: "desc_ok zero_bytes" "n_chunks zero_bytes = 0" "chunks zero_bytes = Inr 0"
proof -
  show d: "desc_ok zero_bytes"
    by (simp add: desc_ok_def zero_bytes_def MIN_CHUNK_SIZE_def MAX_CHUNK_SIZE_def MAX_FILE_def)
  show n: "n_chunks zero_bytes = 0" by (simp add: n_chunks_def zero_bytes_def div_ceil_def)
  then show "chunks zero_bytes = Inr 0" using chunks_ok [OF d] by simp
qed

lemma zero_answers:
  "decode2 (\<lambda>_. 0) (Inr ()) (message_bytes2 (Common (Manifest [zero_file]))) = Inr (Common (Manifest [zero_file]))"
  "decode2 (\<lambda>_. 0) (Inr ()) (message_bytes2 (Description 0 zero_bytes)) = Inr (Description 0 zero_bytes)"
  "decode2 (\<lambda>_. 0) (Inr ()) (message_bytes2 (Common Ok)) = Inr (Common Ok)"
proof -
  have "valid_utf8 (ascii ''f'')" by (rule valid_utf8_ascii) auto
  then have "valid_utf8 (e_path zero_file)" by (simp add: zero_file_def)
  moreover have "manifest_ok False [zero_file]" using planD(1) [OF zero_planned] by (simp add: demo_options_def)
  ultimately show "decode2 (\<lambda>_. 0) (Inr ()) (message_bytes2 (Common (Manifest [zero_file]))) = Inr (Common (Manifest [zero_file]))"
    by (simp add: decode2_iff message_bytes2_def manifest_bytes_def entry_bytes_def string_bytes_def
        typed_manifest_def optional_hash_bytes_def MAX_CONTROL_def zero_file_def)
  have "desc_typed (\<lambda>_. 0) zero_bytes" using zero_described by (simp add: desc_typed_def zero_bytes_def)
  then show "decode2 (\<lambda>_. 0) (Inr ()) (message_bytes2 (Description 0 zero_bytes)) = Inr (Description 0 zero_bytes)"
    by (simp add: decode2_iff message_bytes2_def index_ok_def MAX_CONTROL_def)
  show "decode2 (\<lambda>_. 0) (Inr ()) (message_bytes2 (Common Ok)) = Inr (Common Ok)"
    by (simp add: decode2_iff message_bytes2_def MAX_CONTROL_def)
qed

lemma zero_encodes:
  "encode2 (Common (Start False demo_options [] [])) = Inr (message_bytes2 (Common (Start False demo_options [] [])))"
  "encode2 (Describe 0 4096) = Inr (message_bytes2 (Describe 0 4096))"
  "encode2 (FileVerified 0) = Inr (message_bytes2 (FileVerified 0))" "encode2 (Common Finish) = Inr (message_bytes2 (Common Finish))"
  using demo_manifest_ok(2)
  by (simp_all add: encode2_iff message_bytes2_def manifest_bytes_def string_bytes_def MAX_CONTROL_def index_ok_def
      MIN_CHUNK_SIZE_def MAX_CHUNK_SIZE_def)

abbreviation side_opened :: "mem \<Rightarrow> (store outcome) \<times> mem" where
  "side_opened \<equiv> cache_open side_os (\<lambda>_. 0) (\<lambda>_. ascii ''k'') demo_cache 8 False [] zero_file zero_bytes"

lemma side_calls:
  "os_openat2 side_os 1000 p m w = (if m = Open_path then Inl NotFound else Inr 1000, w)"
  "os_open_root side_os q w = (Inr 1000, w)" "os_sync side_os f w = (Inr (), w)" "os_flock side_os f b w = (Inr (), w)"
  "os_clock side_os w = (Some 5, w)"
  by (simp_all add: side_os_def mem_os_def mem_side_def)

text \<open>In a world where no descriptor from 1000 on belongs to the tree.\<close>

definition side_free :: "mem \<Rightarrow> bool" where
  "side_free w \<longleftrightarrow> (\<forall>f. mem_side f \<longrightarrow> fs_handle w f = None \<and> fs_temp w f = None)"

lemma side_free_calls:
  assumes "side_free w"
  shows "os_mkdirat side_os 1000 n w = (Inr (), w)" "os_unlinkat side_os 1000 n b w = (Inr (), w)"
    "os_renameat side_os 1000 n 1000 n' w = (Inr (), w)" "os_tempfile_in side_os 1000 p w = (Inr (1001, p), w)"
    "os_metadata side_os 1000 w = (Inr (node_metadata (File_node 0 0 0)), w)"
    "os_read_dir side_os 1000 w = (Inl NotFound, w)"
    "os_write side_os 1001 bs w = (Inr (), w\<lparr>m_input := (m_input w)(1001 := m_input w 1001 @ bs)\<rparr>)"
  using assms
  by (simp_all add: side_free_def side_os_def mem_os_def beside_sys_def mem_side_def mem_read_dir_def mem_write_def)

lemma side_activity:
  assumes "side_free w"
  shows "write_activity side_os (\<lambda>_. 0) \<lparr>root_fd = 1000, root_prefix = ascii ''k''\<rparr> t w
    = (Inr (), w\<lparr>m_input := (m_input w)(1001 := m_input w 1001 @ activity_record t)\<rparr>)"
proof -
  have len: "length (activity_record t) = 16" "activity_record t \<noteq> []"
    by (auto simp: activity_record_def activity_magic_def ascii_def)
  have paths: "full \<lparr>root_fd = 1000, root_prefix = ascii ''k''\<rparr> (ascii ''activity'') = Inr (ascii ''k/activity'')"
    by code_simp
  have free: "side_free (w\<lparr>m_input := x\<rparr>)" for x using assms by (simp add: side_free_def)
  show ?thesis
    using demo2_paths paths len assms free
    by (simp add: write_activity_def stage_content_def stage_inner_def stage_body_def parent_def open_full_def
      stage_loop.simps read_from_def bindI_def pureI_def on_failI_def sysI_def commit_def finallyI_def drop_staged_def
      side_calls side_free_calls Let_def)
qed

lemma side_opened:
  assumes "side_free w"
  shows "side_opened w = (Inr \<lparr>cs_root = \<lparr>root_fd = 1000, root_prefix = ascii ''k''\<rparr>, cs_description = zero_bytes,
      cs_last_activity = 5, cs_lock = 1000, cs_cache_lock = 1000\<rparr>,
    w\<lparr>m_input := (m_input w)(1001 := m_input w 1001 @ activity_record 5)\<rparr>)"
proof -
  have sc: "scope (\<lambda>_. 0) 8 False (ascii ''r'') (ascii ''f'') = Inr 0"
    by (simp add: scope_def demo_paths) (simp add: ascii_def MAX_PATH_def)
  have dir: "filter (\<lambda>s. s \<noteq> []) (components (ascii ''k'')) = [ascii ''k'']" by code_simp
  have paths: "full \<lparr>root_fd = 1000, root_prefix = []\<rparr> (ascii ''cache.lock'') = Inr (ascii ''cache.lock'')"
    "full \<lparr>root_fd = 1000, root_prefix = []\<rparr> (ascii ''k'') = Inr (ascii ''k'')"
    "full \<lparr>root_fd = 1000, root_prefix = ascii ''k''\<rparr> (ascii ''lock'') = Inr (ascii ''k/lock'')"
    "subtree \<lparr>root_fd = 1000, root_prefix = []\<rparr> (ascii ''k'') = Inr \<lparr>root_fd = 1000, root_prefix = ascii ''k''\<rparr>"
    by code_simp+
  show ?thesis
    using paths sc dir side_activity [OF assms, of 5] assms
    by (simp add: cache_open_def demo_cache_def zero_file_def key_def store_open_def root_open_def lock_state_with_def
      open_locked_def mkdir_def mkdir_step_def open_full_def now_seconds_def side_calls side_free_calls bindI_def
      pureI_def sysI_def resultI_def Let_def node_metadata_def)
qed

text \<open>An answer of the peer; decoding a description makes the anonymous file 1002.\<close>

lemma side_request:
  assumes "encode2 m = Inr bs" "m_answers w = message_bytes2 a # as"
    "decode2 (\<lambda>_. 0) (Inr ()) (message_bytes2 a) = Inr a" "\<And>c t. a \<noteq> Common (Error c t)"
  obtains x where "request2 side_os (\<lambda>_. 0) mem_link m d w = (Inr a, w\<lparr>m_answers := as, m_input := x\<rparr>)"
    "x = m_input w \<or> x = (m_input w)(1002 := [])"
proof -
  have last: "(case a of Common (Error c t) \<Rightarrow> failI (Remote c t) | _ \<Rightarrow> returnI a) v = (Inr a, v)" for v :: mem
    using assms(4) by (auto split: message2.split message.split)
  have t: "os_tempfile side_os v = (Inr 1002, v\<lparr>m_input := (m_input v)(1002 := [])\<rparr>)" for v by (simp add: side_os_def)
  let ?x = "if decode2 (\<lambda>_. 0) (Inl Busy) (message_bytes2 a) = Inl Busy then (m_input w)(1002 := []) else m_input w"
  have "request2 side_os (\<lambda>_. 0) mem_link m d w = (Inr a, w\<lparr>m_answers := as, m_input := ?x\<rparr>)"
    using assms(1-3) last t
    by (auto simp: request2_def decode_reply_def callI_def mem_link_def bindI_def pureI_def sysI_def may_def)
  then show ?thesis by (rule that) simp
qed

lemma side_ok:
  assumes "encode2 m = Inr bs" "m_answers w = message_bytes2 (Common Ok) # as"
  obtains x where "expect_ok2 side_os (\<lambda>_. 0) mem_link m d w = (Inr (), w\<lparr>m_answers := as, m_input := x\<rparr>)"
    "x = m_input w \<or> x = (m_input w)(1002 := [])"
proof -
  obtain x where "request2 side_os (\<lambda>_. 0) mem_link m d w = (Inr (Common Ok), w\<lparr>m_answers := as, m_input := x\<rparr>)"
    "x = m_input w \<or> x = (m_input w)(1002 := [])"
    by (rule side_request [OF assms zero_answers(3)]) auto
  then show ?thesis by (intro that [of x]) (simp_all add: expect_ok2_def bindI_def)
qed

lemmas side_defs = side_os_def mem_defs beside_sys_def mem_side_def

text \<open>What the tree of the client is while it is pulled: nothing but the handles that were opened.\<close>

definition bare :: "mem \<Rightarrow> bool" where
  "bare w \<longleftrightarrow> fs_tree w = (\<lambda>_. None) \<and> fs_handle w = (\<lambda>_. None) \<and> fs_temp w = (\<lambda>_. None) \<and> m_next w = 10"

lemma bare_prepare: "prepare side_os demo_root [zero_file] demo_plan w = (Inr (), w)"
  using demo_paths
  by (simp add: run_defs demo_plan_def demo_root_def)

lemma bare_finish: "finish side_os demo_root [zero_file] demo_plan w = (Inr (), w)"
  using demo_paths
  by (simp add: run_defs demo_plan_def demo_root_def)

lemma bare_install:
  assumes "bare w" "m_input w 1002 = []"
  obtains w' where "install side_os (\<lambda>_. 0) demo_root (zero_file\<lparr>e_hash := Some 0\<rparr>) [] demo_plan 1002 w = (Inr (), w')"
    "m_answers w' = m_answers w" "side_free w'"
proof -
  let ?r = "install side_os (\<lambda>_. 0) demo_root (zero_file\<lparr>e_hash := Some 0\<rparr>) [] demo_plan 1002 w"
  have "fst ?r = Inr () \<and> m_answers (snd ?r) = m_answers w \<and> side_free (snd ?r)"
    using demo_paths demo_names assms
    by (simp add: run_defs demo_plan_def demo_root_def zero_file_def bare_def side_defs bt_get_def stage_loop.simps
        read_from_def child_path_def side_free_def)
  then show ?thesis by (intro that [of "snd ?r"]) (auto simp: prod_eq_iff)
qed

lemma zero_assemble:
  "cs_description st = zero_bytes \<Longrightarrow>
   store_assemble side_os (\<lambda>_. 0) st [] w = (Inr 1002, w\<lparr>m_input := (m_input w)(1002 := [])\<rparr>)"
  using zero_described
  by (simp add: store_assemble_def bindI_def sysI_def pureI_def side_os_def mem_os_def zero_bytes_def)

lemma zero_clear:
  assumes "side_free w" "cs_root st = \<lparr>root_fd = 1000, root_prefix = ascii ''k''\<rparr>"
  shows "clear_committed side_os (\<lambda>_. 0) st w = (Inr st, w)"
proof -
  have "full \<lparr>root_fd = 1000, root_prefix = ascii ''k''\<rparr> [] = Inr (ascii ''k'')" by code_simp
  then show ?thesis
    using assms
    by (simp add: clear_committed_def store_clear_def payload_bytes_def children_def open_full_def bindI_def resultI_def
        sysI_def pureI_def side_free_calls side_calls)
qed

lemma zero_drop: "cs_last_activity st = 5 \<Longrightarrow> store_drop side_os (\<lambda>_. 0) st w = w"
  by (simp add: store_drop_def store_touch_def now_seconds_def side_calls bindI_def sysI_def pureI_def resultI_def refresh_activity_def)

lemma zero_held:
  assumes "bare w" "m_answers w = [message_bytes2 (Common Ok), message_bytes2 (Common Ok)]"
    "cs_description st = zero_bytes" "cs_root st = \<lparr>root_fd = 1000, root_prefix = ascii ''k''\<rparr>"
  obtains w' where
    "pull_held side_os (\<lambda>_. 0) mem_link 60 demo_root zero_file [] demo_plan zero_bytes 0 (w, st) = (Inr (), w', st)"
    "m_answers w' = [message_bytes2 (Common Ok)]"
proof -
  let ?v = "w\<lparr>m_input := (m_input w)(1002 := [])\<rparr>"
  have "m_answers ?v = message_bytes2 (Common Ok) # [message_bytes2 (Common Ok)]" using assms(2) by simp
  from side_ok [OF zero_encodes(3) this, of 60] obtain x where
    ok: "expect_ok2 side_os (\<lambda>_. 0) mem_link (FileVerified 0) 60 ?v
        = (Inr (), ?v\<lparr>m_answers := [message_bytes2 (Common Ok)], m_input := x\<rparr>)"
    and x: "x = m_input ?v \<or> x = (m_input ?v)(1002 := [])" by blast
  let ?u = "?v\<lparr>m_answers := [message_bytes2 (Common Ok)], m_input := x\<rparr>"
  have "bare ?u" "m_input ?u 1002 = []" using assms(1) x by (auto simp: bare_def)
  then obtain w' where w': "install side_os (\<lambda>_. 0) demo_root (zero_file\<lparr>e_hash := Some 0\<rparr>) [] demo_plan 1002 ?u = (Inr (), w')"
    "m_answers w' = m_answers ?u" "side_free w'" by (rule bare_install)
  have "page_starts 0 = []" by (simp add: page_starts_def)
  moreover have "d_hash zero_bytes = 0" by (simp add: zero_bytes_def)
  ultimately have "pull_held side_os (\<lambda>_. 0) mem_link 60 demo_root zero_file [] demo_plan zero_bytes 0 (w, st) = (Inr (), w', st)"
    using zero_described(3) zero_assemble [OF assms(3)] ok w' zero_clear [OF w'(3) assms(4)]
    by (simp add: pull_held_def bindI_def pureI_def on_world_def with_store_def set_store_def)
  then show ?thesis by (rule that) (simp add: w')
qed

lemma zero_pull_file:
  assumes "bare w" "m_answers w = [message_bytes2 (Description 0 zero_bytes), message_bytes2 (Common Ok), message_bytes2 (Common Ok)]"
  obtains w' where
    "pull_file2 side_os (\<lambda>_. 0) (\<lambda>_. ascii ''k'') mem_link 60 demo_resume [] demo_root [zero_file] [] demo_plan 0 w = (Inr (), w')"
    "m_answers w' = [message_bytes2 (Common Ok)]"
proof -
  let ?as = "[message_bytes2 (Common Ok), message_bytes2 (Common Ok)]"
  obtain x where rq: "request2 side_os (\<lambda>_. 0) mem_link (Describe 0 4096) 60 w
      = (Inr (Description 0 zero_bytes), w\<lparr>m_answers := ?as, m_input := x\<rparr>)"
    by (rule side_request [OF zero_encodes(2) assms(2) zero_answers(2)]) auto
  let ?v = "w\<lparr>m_answers := ?as, m_input := x\<rparr>"
  have "side_free ?v" using assms(1) by (simp add: side_free_def bare_def)
  note op = side_opened [OF this]
  let ?st = "\<lparr>cs_root = \<lparr>root_fd = 1000, root_prefix = ascii ''k''\<rparr>, cs_description = zero_bytes,
      cs_last_activity = 5, cs_lock = 1000, cs_cache_lock = 1000\<rparr>"
  let ?u = "?v\<lparr>m_input := (m_input ?v)(1001 := m_input ?v 1001 @ activity_record 5)\<rparr>"
  have "bare ?u" using assms(1) by (simp add: bare_def)
  then obtain w' where w':
    "pull_held side_os (\<lambda>_. 0) mem_link 60 demo_root zero_file [] demo_plan zero_bytes 0 (?u, ?st) = (Inr (), w', ?st)"
    "m_answers w' = [message_bytes2 (Common Ok)]"
    by (rule zero_held [where st = ?st]) simp_all
  have "validate_description zero_file zero_bytes = Inr ()" by code_simp
  then have "pull_file2 side_os (\<lambda>_. 0) (\<lambda>_. ascii ''k'') mem_link 60 demo_resume [] demo_root [zero_file] [] demo_plan 0 w = (Inr (), w')"
    using rq op w'(1) zero_drop [of ?st w']
    by (simp add: pull_file2_def indexI_def bindI_def pureI_def demo_resume_def holding_def) (simp add: zero_bytes_def)
  then show ?thesis by (rule that) (rule w'(2))
qed

lemma zero_pull:
  "\<exists>w'. synchronize2 side_os (\<lambda>_. 0) (\<lambda>_. ascii ''k'') mem_link demo_root empty_scan demo_job demo_resume
     (\<lambda>_. returnI ()) zero_world = (Inr (), w')"
proof -
  let ?as = "[message_bytes2 (Description 0 zero_bytes), message_bytes2 (Common Ok), message_bytes2 (Common Ok)]"
  have "m_answers zero_world = message_bytes2 (Common (Manifest [zero_file])) # ?as" by (simp add: zero_world_def)
  then obtain x where start: "request2 side_os (\<lambda>_. 0) mem_link (Common (Start False demo_options [] [])) 60 zero_world
      = (Inr (Common (Manifest [zero_file])), zero_world\<lparr>m_answers := ?as, m_input := x\<rparr>)"
    by (rule side_request [OF zero_encodes(1) _ zero_answers(1), where as = ?as]) auto
  let ?v = "zero_world\<lparr>m_answers := ?as, m_input := x\<rparr>"
  have "bare ?v" by (simp add: bare_def zero_world_def demo_world_def)
  then obtain w1 where w1:
    "pull_file2 side_os (\<lambda>_. 0) (\<lambda>_. ascii ''k'') mem_link 60 demo_resume [] demo_root [zero_file] [] demo_plan 0 ?v = (Inr (), w1)"
    "m_answers w1 = message_bytes2 (Common Ok) # []"
    by (rule zero_pull_file) simp_all
  obtain y where fin: "expect_ok2 side_os (\<lambda>_. 0) mem_link (Common Finish) 60 w1 = (Inr (), w1\<lparr>m_answers := [], m_input := y\<rparr>)"
    by (rule side_ok [OF zero_encodes(4) w1(2)])
  have job: "j_push demo_job = False" "j_options demo_job = demo_options" "j_path demo_job = []" "j_deadline demo_job = 60"
    "sc_entries empty_scan = []" "re_chunk_size demo_resume = 4096" "dry_run demo_options = False" "files demo_plan = [0]"
    "count 0 4096 = Inr 0" "l_close mem_link v = (Inr (), v)" for v
    by (simp_all add: demo_job_def empty_scan_def demo_resume_def demo_options_def demo_plan_def mem_link_def count_def
        MIN_CHUNK_SIZE_def MAX_CHUNK_SIZE_def div_ceil_def)
  show ?thesis
    unfolding synchronize2_def synchronize_inner2_def finallyI_def job Let_def
    using start w1(1) fin zero_planned bare_prepare bare_finish
    by (simp add: bindI_def pureI_def job(8))
qed

lemma pull2_carries_out_witness:
  "\<exists>theirs p. plan theirs [] demo_options = Inr p
     \<and> seen demo_root (mem_view (snd (synchronize2 side_os (\<lambda>_. 0) (\<lambda>_. ascii ''k'') mem_link demo_root empty_scan
          demo_job demo_resume (\<lambda>_. returnI ()) zero_world))) = carry_out theirs p (\<lambda>_. None)"
proof -
  have safe: "safe_name (root_prefix demo_root)" by (simp add: demo_root_def safe_name_def)
  have obeys: "obeys side_os (root_fd demo_root) mem_view" by (rule side_obeys) (simp add: demo_root_def mem_side_def)
  have empty: "seen demo_root (mem_view zero_world) = (\<lambda>_. None)"
    by (auto simp: seen_def scanned_def rel_def zero_world_def demo_world_def fun_eq_iff)
  moreover have "tree_of (sc_entries empty_scan) = (\<lambda>_. None)" by (simp add: tree_of_def empty_scan_def fun_eq_iff)
  ultimately have start: "seen demo_root (mem_view zero_world) = tree_of (sc_entries empty_scan)" by simp
  have job: "\<not> j_push demo_job" "\<not> dry_run (j_options demo_job)" by (simp_all add: demo_job_def demo_options_def)
  obtain w' where run: "synchronize2 side_os (\<lambda>_. 0) (\<lambda>_. ascii ''k'') mem_link demo_root empty_scan demo_job demo_resume
     (\<lambda>_. returnI ()) zero_world = (Inr (), w')"
    using zero_pull by blast
  from pull2_carries_out [OF obeys safe mem_link_apart side_apart side_opens job start run]
  obtain theirs p where "plan theirs (sc_entries empty_scan) (j_options demo_job) = Inr p"
    "seen demo_root (mem_view w') = carry_out theirs p (seen demo_root (mem_view zero_world))" by blast
  then show ?thesis by (intro exI [of _ theirs] exI [of _ p]) (simp add: run empty, simp add: empty_scan_def demo_job_def)
qed


end
