(* ===== verification/Service_Props.thy ===== *)
theory Service_Props
  imports Service Session2_Props
begin

text \<open>
  The two servers as one: at most one of them has a session, a link speaks one version, and both keep
  their invariants whatever the link manager does.
\<close>

section \<open>Sessions keep their link\<close>

text \<open>\<open>derived x y\<close>: if there is a session \<open>y\<close>, it is the session \<open>x\<close> with the same connection.\<close>

definition derived :: "session option \<Rightarrow> session option \<Rightarrow> bool" where
  "derived x y \<longleftrightarrow> (\<forall>s'. y = Some s' \<longrightarrow> (\<exists>s. x = Some s \<and> s_connection s' = s_connection s))"

lemma derived_none [simp]: "derived x None" and derived_refl [simp]: "derived x x"
  by (auto simp: derived_def)

lemma derivedD: "derived (Some s) y \<Longrightarrow> y = Some s' \<Longrightarrow> s_connection s' = s_connection s" "derived None y \<Longrightarrow> y = None"
  by (auto simp: derived_def)

lemma derived_some: "s_connection s' = s_connection s \<Longrightarrow> derived (Some s) (Some s')"
  by (simp add: derived_def)

lemma derived_events:
  "derived (v_session v) (v_session (disconnect c v))"
  "derived (v_session v) (v_session (touch c now v))"
  "expire now timeout v = (l, v') \<Longrightarrow> derived (v_session v) (v_session v')"
  "receive c f v = Inr v' \<Longrightarrow> derived (v_session v) (v_session v')"
proof -
  show "receive c f v = Inr v' \<Longrightarrow> derived (v_session v) (v_session v')"
  proof (cases "v_session v")
    case (Some s)
    assume "receive c f v = Inr v'"
    with Some have "v' = v \<or> v' = v\<lparr>v_session := Some (s\<lparr>s_received := Some f\<rparr>)\<rparr>"
      by (auto simp: receive_def result_simps split: if_splits)
    then show ?thesis using Some by (auto simp: derived_def)
  qed (auto simp: receive_def result_simps)
qed (auto simp: disconnect_def touch_def expire_def intro: derived_some split: option.splits if_splits)

lemma derived_events2:
  "disconnect2 os sha c v w = (v', w') \<Longrightarrow> derived (v_session (b_base v)) (v_session (b_base v'))"
  "derived (v_session (b_base v)) (v_session (b_base (touch2 c now v)))"
  "expire2 os sha now timeout v w = ((l, v'), w') \<Longrightarrow> derived (v_session (b_base v)) (v_session (b_base v'))"
  "receive2 c f v = Inr v' \<Longrightarrow> derived (v_session (b_base v)) (v_session (b_base v'))"
proof -
  show "receive2 c f v = Inr v' \<Longrightarrow> derived (v_session (b_base v)) (v_session (b_base v'))"
    by (auto simp: receive2_def result_simps split: if_splits option.splits)
  show "expire2 os sha now timeout v w = ((l, v'), w') \<Longrightarrow> derived (v_session (b_base v)) (v_session (b_base v'))"
    using derived_events(3) [of now timeout "b_base v"] by (auto simp: expire2_def split: if_splits prod.splits)
qed (auto simp: disconnect2_def touch2_def derived_events split: if_splits)

lemma command_connection:
  "command os sha req s w = (Inr (rep, Some s'), w') \<Longrightarrow> s_connection s' = s_connection s"
  by (cases req) (auto simp: command_Inr begin_file_Inr commit_file_Inr get_file_Inr verify_file_Inr)

text \<open>A session that is there after a request belongs to the requesting connection, or nothing has happened.\<close>

lemma handle_owner:
  assumes "handle os sha c p req v w = ((x, v'), w')" "v_session v' = Some s'"
  shows "s_connection s' = c \<or> v' = v"
proof (cases x)
  case (Inl e)
  then show ?thesis using assms by (auto simp: handle_def disconnect_def split: prod.splits sum.splits if_splits)
next
  case (Inr rep)
  with assms(1) have run: "handle_inner os sha c p req v w = (Inr (rep, v'), w')" by (simp add: handle_Inr)
  show ?thesis
  proof (cases "\<exists>push opt path m. req = Start push opt path m")
    case True
    with run show ?thesis
      using assms(2) by (auto simp: handle_inner_def fresh_session_def dest!: start_session_Inr split: if_splits)
  next
    case False
    then obtain s now w1 nx where "s_connection s = c"
      "command os sha req (s\<lparr>s_activity := now\<rparr>) w1 = (Inr (rep, nx), w')" "v' = v\<lparr>v_session := nx\<rparr>"
      using handle_command_Inr [OF run] by blast
    then show ?thesis using assms(2) command_connection by fastforce
  qed
qed

lemma transfer_connection:
  assumes "transfer_command os sha hex peer m v s w = (Inr (rep, s', t), w')"
  shows "s_connection s' = s_connection s"
  using assms
  by (cases m) (auto simp: transfer_command_def description_command_def describe_command_def hashes_command_def
      hashes_get_command_def chunk_begin_command_def chunk_commit_command_def chunk_get_command_def
      chunk_verified_command_def file_commit_command_def file_verified_command_def dropI_def Let_def io_simps case_Inr)

text \<open>The same for version 2.\<close>

lemma handle2_owner:
  assumes ok: "server2_ok perms v" and run: "handle2 os sha hex c peer (perms c) m v w = ((x, v'), w')"
    and s: "v_session (b_base v') = Some s'"
  shows "s_connection s' = c \<or> v' = v"
proof (cases x)
  case (Inl e)
  then obtain w1 where "disconnect2 os sha c v w1 = (v', w')"
    using run by (auto simp: handle2_def split: prod.splits sum.splits)
  then show ?thesis using s by (auto simp: disconnect2_def disconnect_def split: if_splits option.splits)
next
  case (Inr rep)
  with run have inner: "handle_inner2 os sha hex c peer (perms c) m v w = (Inr (rep, v'), w')" by (simp add: handle2_Inr)
  show ?thesis
  proof (cases "\<exists>push opt path man. m = Common (Start push opt path man)")
    case True
    then obtain push opt path man where m: "m = Common (Start push opt path man)" by blast
    let ?run = "handle_inner os sha c (perms c) (Start push opt path man) (b_base v)"
    from inner have "bindI ?run (\<lambda>(rep, base). case rep of
              Reply r \<Rightarrow> returnI (Reply2 (Common r), v\<lparr>b_base := base, b_peer := Some peer, b_path := path\<rparr>)
            | Reply_file _ _ \<Rightarrow> panicI) w = (Inr (rep, v'), w')"
      by (simp add: handle_inner2_def m io_simps)
    then obtain a base w1 where base: "?run w = (Inr (a, base), w1)"
      and rest: "(case a of
              Reply r \<Rightarrow> returnI (Reply2 (Common r), v\<lparr>b_base := base, b_peer := Some peer, b_path := path\<rparr>)
            | Reply_file _ _ \<Rightarrow> panicI) w1 = (Inr (rep, v'), w')"
      by (auto simp: bindI_Inr)
    from rest have "b_base v' = base" by (cases a) (auto simp: io_simps)
    with start_inner_Inr [where perms = perms, OF base] s show ?thesis by auto
  next
    case False
    then have cmd: "handle_command2 os sha hex c peer (perms c) m v w = (Inr (rep, v'), w')"
      using handle_inner2_command [OF inner] by blast
    obtain s0 s1 now w1 where "s_connection s1 = c" and run: "command2 os sha hex c peer (perms c) m v s1 w1 = (Inr (rep, v'), w')"
      by (rule handle_command2_Inr [OF ok cmd]) blast
    show ?thesis
    proof (cases "m = Common Finish")
      case True
      then have "v_session (b_base v') = None"
        using run finish_inner_Inr by (fastforce simp: command2_def finish2_def io_simps split: if_splits)
      then show ?thesis using s by simp
    next
      case False
      then obtain t s2 where "transfer_command os sha hex peer m v s1 w1 = (Inr (rep, s2, t), w')"
        "v' = v\<lparr>b_base := (b_base v)\<lparr>v_session := Some s2\<rparr>, b_transfer := t\<rparr>"
        using run by (auto simp: command2_def io_simps)
      then show ?thesis using s \<open>s_connection s1 = c\<close> by (auto dest: transfer_connection)
    qed
  qed
qed

section \<open>The invariant\<close>

definition engines_ok :: "(ident \<Rightarrow> permission) \<Rightarrow> (ident \<Rightarrow> byte option) \<Rightarrow> server \<Rightarrow> server2 option \<Rightarrow> bool" where
  "engines_ok perms versions v o2 \<longleftrightarrow>
     server_ok perms v
     \<and> (\<forall>s. v_session v = Some s \<longrightarrow> versions (s_connection s) = Some 1)
     \<and> (\<forall>e. o2 = Some e \<longrightarrow>
          server2_ok perms e
          \<and> (\<forall>s. v_session (b_base e) = Some s \<longrightarrow> versions (s_connection s) = Some 2)
          \<and> \<not> (active v \<and> active2 e))"

lemma engines_ok_none: "engines_ok perms versions v None \<longleftrightarrow>
    server_ok perms v \<and> (\<forall>s. v_session v = Some s \<longrightarrow> versions (s_connection s) = Some 1)"
  by (simp add: engines_ok_def)

lemma engines_ok_some: "engines_ok perms versions v (Some e) \<longleftrightarrow>
    engines_ok perms versions v None \<and> server2_ok perms e
    \<and> (\<forall>s. v_session (b_base e) = Some s \<longrightarrow> versions (s_connection s) = Some 2) \<and> \<not> (active v \<and> active2 e)"
  by (auto simp: engines_ok_def)

lemma engines_derived1:
  assumes ok: "engines_ok perms versions v e" and "step os sha perms v v'" "derived (v_session v) (v_session v')"
  shows "engines_ok perms versions v' e"
proof -
  have "server_ok perms v'" using step_ok [OF assms(2)] ok by (simp add: engines_ok_def)
  moreover have "active v' \<longrightarrow> active v" using assms(3) by (auto simp: active_def derived_def)
  moreover have "\<forall>s. v_session v' = Some s \<longrightarrow> versions (s_connection s) = Some 1"
    using ok assms(3) by (auto simp: engines_ok_def derived_def)
  ultimately show ?thesis using ok by (auto simp: engines_ok_def)
qed

lemma engines_derived2:
  assumes ok: "engines_ok perms versions v (Some e)" and st: "step2 os sha hex perms e e'"
    and d: "derived (v_session (b_base e)) (v_session (b_base e'))"
  shows "engines_ok perms versions v (Some e')"
proof -
  have "server2_ok perms e'" using step2_ok [OF st] ok by (simp add: engines_ok_some)
  moreover have "active2 e' \<longrightarrow> active2 e" using d by (auto simp: active2_def derived_def)
  moreover have "\<forall>s. v_session (b_base e') = Some s \<longrightarrow> versions (s_connection s) = Some 2"
    using ok d by (auto simp: engines_ok_some derived_def)
  ultimately show ?thesis using ok by (auto simp: engines_ok_some)
qed

text \<open>A request of a link that speaks its version, while the other server is idle.\<close>

lemma engines_request1:
  assumes ok: "engines_ok perms versions v e" and idle: "\<forall>b. e = Some b \<longrightarrow> \<not> active2 b" and l: "versions c = Some 1"
    and run: "handle os sha c (perms c) req v w = ((x, v'), w')"
  shows "engines_ok perms versions v' e"
proof -
  have "server_ok perms v'" using step_ok [OF step.request [where perms = perms, OF run]] ok by (simp add: engines_ok_def)
  moreover have "versions (s_connection s) = Some 1" if "v_session v' = Some s" for s
    using handle_owner [OF run that] that ok l by (auto simp: engines_ok_def)
  ultimately show ?thesis using ok idle by (auto simp: engines_ok_def)
qed

lemma engines_request2:
  assumes ok: "engines_ok perms versions v (Some e)" and idle: "\<not> active v" and l: "versions c = Some 2"
    and ty: "message2_typed m" and run: "handle2 os sha hex c peer (perms c) m e w = ((x, e'), w')"
  shows "engines_ok perms versions v (Some e')"
proof -
  have e: "server2_ok perms e" using ok by (simp add: engines_ok_some)
  have "server2_ok perms e'" using step2_ok [OF step2.request2 [where perms = perms, OF ty run] e] .
  moreover have "versions (s_connection s) = Some 2" if "v_session (b_base e') = Some s" for s
    using handle2_owner [OF e run that] that ok l by (auto simp: engines_ok_some)
  ultimately show ?thesis using ok idle by (auto simp: engines_ok_some)
qed

section \<open>Every event keeps the invariant\<close>

text \<open>
  \<open>proven\<close> is the identity the handshake of a link proves; the map the link manager keeps may at any
  time hold or lack it, but never another one. A link has the permission of that identity.
\<close>

definition link_permission :: "(str \<Rightarrow> byte list option) \<Rightarrow> config \<Rightarrow> (ident \<Rightarrow> ident) \<Rightarrow> ident \<Rightarrow> permission" where
  "link_permission hex_decode cfg proven link = permission_of hex_decode cfg (proven link)"

definition proves :: "(ident \<Rightarrow> ident) \<Rightarrow> (ident \<Rightarrow> ident option) \<Rightarrow> bool" where
  "proves proven ids \<longleftrightarrow> (\<forall>l i. ids l = Some i \<longrightarrow> i = proven l)"

definition service_ok :: "(str \<Rightarrow> byte list option) \<Rightarrow> config \<Rightarrow> (ident \<Rightarrow> ident) \<Rightarrow> service \<Rightarrow> bool" where
  "service_ok hex_decode cfg proven v \<longleftrightarrow>
     sv_config v = cfg \<and> proves proven (sv_identities v)
     \<and> engines_ok (link_permission hex_decode cfg proven) (sv_versions v) (sv_engine v) (sv_v2 v)"

inductive service_step ::
  "'w os \<Rightarrow> (byte list \<Rightarrow> hash) \<Rightarrow> (byte list \<Rightarrow> str) \<Rightarrow> (str \<Rightarrow> byte list option) \<Rightarrow> (byte list \<Rightarrow> ident)
     \<Rightarrow> (io_kind \<Rightarrow> str) \<Rightarrow> (ident \<Rightarrow> ident) \<Rightarrow> service \<Rightarrow> service \<Rightarrow> bool"
  for os :: "'w os" and sha hex hex_decode thash io_text proven where
  requested: "service_handler os sha hex hex_decode thash io_text link path data v w = ((r, v'), w')
     \<Longrightarrow> service_step os sha hex hex_decode thash io_text proven v v'"
| ticked: "service_maintain os sha now v w = (Inr (l, v'), w')
     \<Longrightarrow> service_step os sha hex hex_decode thash io_text proven v v'"
| closed: "service_closed os sha link v w = (v', w') \<Longrightarrow> service_step os sha hex hex_decode thash io_text proven v v'"
| packet: "admit hex_decode rt event now v = Inr (b, v') \<Longrightarrow> service_step os sha hex hex_decode thash io_text proven v v'"
| completed: "service_step os sha hex hex_decode thash io_text proven v (v\<lparr>sv_incoming := sv_incoming v @ [f]\<rparr>)"
| identified: "proves proven ids \<Longrightarrow> service_step os sha hex hex_decode thash io_text proven v (v\<lparr>sv_identities := ids\<rparr>)"

definition service_reachable ::
  "'w os \<Rightarrow> (byte list \<Rightarrow> hash) \<Rightarrow> (byte list \<Rightarrow> str) \<Rightarrow> (str \<Rightarrow> byte list option) \<Rightarrow> (byte list \<Rightarrow> ident)
     \<Rightarrow> (io_kind \<Rightarrow> str) \<Rightarrow> (ident \<Rightarrow> ident) \<Rightarrow> root \<Rightarrow> cache option \<Rightarrow> config \<Rightarrow> service \<Rightarrow> bool" where
  "service_reachable os sha hex hex_decode thash io_text proven r ca cfg v \<longleftrightarrow>
     (service_step os sha hex hex_decode thash io_text proven)\<^sup>*\<^sup>* (new_service r ca cfg) v"

lemma service_engines: "service_ok hx cfg proven v \<Longrightarrow>
    engines_ok (link_permission hx cfg proven) (sv_versions v) (sv_engine v) (sv_v2 v)"
  by (simp add: service_ok_def)

lemma service_okI:
  assumes "service_ok hx cfg proven v" "sv_config v' = sv_config v" "sv_identities v' = sv_identities v"
    "engines_ok (link_permission hx cfg proven) (sv_versions v') (sv_engine v') (sv_v2 v')"
  shows "service_ok hx cfg proven v'"
  using assms by (simp add: service_ok_def)

lemma ok_disconnect:
  assumes ok: "service_ok hx cfg proven v" and run: "service_disconnect os sha link v w = (v', w')"
  shows "service_ok hx cfg proven v'"
proof (rule service_okI [OF ok])
  let ?p = "link_permission hx cfg proven"
  have v1: "engines_ok ?p (sv_versions v) (disconnect link (sv_engine v)) (sv_v2 v)"
    by (rule engines_derived1 [OF service_engines [OF ok] step.lost derived_events(1)])
  show "engines_ok ?p (sv_versions v') (sv_engine v') (sv_v2 v')"
  proof (cases "sv_v2 v")
    case None
    with run v1 show ?thesis by (auto simp: service_disconnect_def Let_def)
  next
    case (Some e)
    then obtain e' where e: "disconnect2 os sha link e w = (e', w')"
      "v' = v\<lparr>sv_engine := disconnect link (sv_engine v), sv_v2 := Some e'\<rparr>"
      using run by (auto simp: service_disconnect_def Let_def split: prod.splits)
    have "engines_ok ?p (sv_versions v) (disconnect link (sv_engine v)) (Some e')"
      using engines_derived2 [OF _ step2.lost2 [OF e(1)] derived_events2(1) [OF e(1)]] v1 Some by simp
    then show ?thesis by (simp add: e(2))
  qed
qed (use run in \<open>auto simp: service_disconnect_def Let_def split: option.splits prod.splits\<close>)

lemma ok_touch:
  assumes ok: "service_ok hx cfg proven v"
  shows "service_ok hx cfg proven (service_touch link now v)"
proof (rule service_okI [OF ok])
  let ?p = "link_permission hx cfg proven" let ?v = "touch link now (sv_engine v)"
  have v1: "engines_ok ?p (sv_versions v) ?v (sv_v2 v)"
    by (rule engines_derived1 [OF service_engines [OF ok] step.traffic derived_events(2)])
  show "engines_ok ?p (sv_versions (service_touch link now v)) (sv_engine (service_touch link now v)) (sv_v2 (service_touch link now v))"
  proof (cases "sv_v2 v")
    case (Some e)
    with v1 have "engines_ok ?p (sv_versions v) ?v (Some e)" by simp
    from engines_derived2 [OF this step2.traffic2 derived_events2(2)] Some show ?thesis by (simp add: service_touch_def)
  qed (use v1 in \<open>simp add: service_touch_def\<close>)
qed (simp_all add: service_touch_def)

lemma ok_expire:
  assumes ok: "service_ok hx cfg proven v" and run: "service_expire os sha now timeout v w = ((l, v'), w')"
  shows "service_ok hx cfg proven v'"
proof -
  let ?p = "link_permission hx cfg proven"
  obtain l1 v1 where x: "expire now timeout (sv_engine v) = (l1, v1)" by fastforce
  have "step os sha ?p (sv_engine v) v1" using step.lease [of os sha ?p "sv_engine v" now timeout] x by simp
  then have v1: "engines_ok ?p (sv_versions v) v1 (sv_v2 v)"
    by (rule engines_derived1 [OF service_engines [OF ok] _ derived_events(3) [OF x]])
  show ?thesis
  proof (cases "sv_v2 v")
    case None
    with run x v1 ok show ?thesis by (auto simp: service_expire_def Let_def intro!: service_okI [OF ok])
  next
    case (Some e)
    then obtain l2 e' where e: "expire2 os sha now timeout e w = ((l2, e'), w')" "v' = v\<lparr>sv_engine := v1, sv_v2 := Some e'\<rparr>"
      using run x by (auto simp: service_expire_def Let_def split: prod.splits)
    have "engines_ok ?p (sv_versions v) v1 (Some e')"
      using engines_derived2 [OF _ step2.lease2 [OF e(1)] derived_events2(3) [OF e(1)]] v1 Some by simp
    then show ?thesis by (intro service_okI [OF ok]) (simp_all add: e(2))
  qed
qed

lemma ok_deliver:
  assumes ok: "service_ok hx cfg proven v" and run: "deliver f v = Inr v'"
  shows "service_ok hx cfg proven v' \<and> sv_versions v' = sv_versions v \<and> sv_identities v' = sv_identities v"
proof -
  note eng = service_engines [OF ok]
  show ?thesis
  proof (cases "sv_versions v (fc_link f) = Some 2")
    case True
    show ?thesis
    proof (cases "sv_v2 v")
      case (Some e)
      with run True obtain e' where e': "receive2 (fc_link f) (received_of f) e = Inr e'" "v' = v\<lparr>sv_v2 := Some e'\<rparr>"
        by (auto simp: deliver_def result_simps)
      from engines_derived2 [OF _ step2.completion2 [OF e'(1)] derived_events2(4) [OF e'(1)]] eng Some e'(2)
      show ?thesis by (auto intro!: service_okI [OF ok])
    qed (use run True ok in \<open>simp add: deliver_def\<close>)
  next
    case False
    with run obtain v1 where v1: "receive (fc_link f) (received_of f) (sv_engine v) = Inr v1" "v' = v\<lparr>sv_engine := v1\<rparr>"
      by (auto simp: deliver_def result_simps)
    from engines_derived1 [OF eng step.completion [OF v1(1)] derived_events(4) [OF v1(1)]] v1(2)
    show ?thesis by (auto intro!: service_okI [OF ok])
  qed
qed

lemma ok_receive:
  assumes ok: "service_ok hx cfg proven v" and run: "service_receive v = Inr v'"
  shows "service_ok hx cfg proven v'" "sv_versions v' = sv_versions v" "sv_identities v' = sv_identities v"
proof -
  have "service_ok hx cfg proven v' \<and> sv_versions v' = sv_versions u \<and> sv_identities v' = sv_identities u"
    if "service_ok hx cfg proven u" "foldR deliver fs u = Inr v'" for fs u
    using that
  proof (induction fs arbitrary: u)
    case (Cons f fs)
    then obtain u1 where u1: "deliver f u = Inr u1" "foldR deliver fs u1 = Inr v'" by (auto simp: result_simps)
    from ok_deliver [OF Cons.prems(1) u1(1)] Cons.IH [OF _ u1(2)] show ?case by auto
  qed simp
  moreover have "service_ok hx cfg proven (v\<lparr>sv_incoming := []\<rparr>)" using ok by (simp add: service_ok_def)
  ultimately show "service_ok hx cfg proven v'" "sv_versions v' = sv_versions v" "sv_identities v' = sv_identities v"
    using run by (auto simp: service_receive_def)
qed

lemma engines_version:
  assumes "engines_ok perms versions v e" "versions link = None \<or> versions link = Some x"
  shows "engines_ok perms (versions(link \<mapsto> x)) v e"
  using assms by (auto simp: engines_ok_def)

lemma decoded_typed: "decode_reply os sha data w = (Inr m, w') \<Longrightarrow> message2_typed m"
proof -
  assume "decode_reply os sha data w = (Inr m, w')"
  then have "decode2 sha (Inr ()) data = Inr m" by (auto simp: decode_reply_def bindI_Inr)
  then show ?thesis by (cases m) (auto simp: decode2_iff desc_typed_def)
qed

lemma ok_request1:
  assumes ok: "service_ok hx cfg proven v" and l: "sv_versions v link = Some 1"
    and run: "service_request1 os sha link (link_permission hx cfg proven link) data v w = ((r, v'), w')"
  shows "service_ok hx cfg proven v'"
proof (cases "(\<exists>b. sv_v2 v = Some b \<and> active2 b) \<or> (\<exists>e. decode data = Inl e)")
  case True
  with run ok show ?thesis by (auto simp: service_request1_def split: option.splits if_splits)
next
  case False
  then obtain m where idle: "\<forall>b. sv_v2 v = Some b \<longrightarrow> \<not> active2 b" and m: "decode data = Inr m" by (cases "decode data") auto
  obtain x e w1 where h: "handle os sha link (link_permission hx cfg proven link) m (sv_engine v) w = ((x, e), w1)"
    using surj_pair by metis
  have "\<not> (case sv_v2 v of None \<Rightarrow> False | Some e \<Rightarrow> active2 e)" using idle by (simp split: option.split)
  with run h m have v': "v' = v\<lparr>sv_engine := e\<rparr>" by (simp add: service_request1_def)
  from engines_request1 [where perms = "link_permission hx cfg proven", OF service_engines [OF ok] idle l h] show ?thesis
    by (intro service_okI [OF ok]) (simp_all add: v')
qed

lemma ok_request2:
  assumes ok: "service_ok hx cfg proven v" and l: "sv_versions v link = Some 2"
    and run: "service_request2 os sha hex link peer (link_permission hx cfg proven link) data v w = ((r, v'), w')"
  shows "service_ok hx cfg proven v'"
proof (cases "active (sv_engine v) \<or> sv_v2 v = None \<or> (\<exists>e. fst (decode_reply os sha data w) = Inl e)")
  case True
  with run ok show ?thesis by (auto simp: service_request2_def split: option.splits if_splits prod.splits sum.splits)
next
  case False
  then obtain b m w1 where idle: "\<not> active (sv_engine v)" and b: "sv_v2 v = Some b" and m: "decode_reply os sha data w = (Inr m, w1)"
    by (metis fst_conv not_None_eq obj_sumE surj_pair)
  obtain x e w2 where h: "handle2 os sha hex link peer (link_permission hx cfg proven link) m b w1 = ((x, e), w2)"
    using surj_pair by metis
  have v': "v' = v\<lparr>sv_v2 := Some e\<rparr>" using run idle b m h by (simp add: service_request2_def)
  have "engines_ok (link_permission hx cfg proven) (sv_versions v) (sv_engine v) (Some b)"
    using service_engines [OF ok] b by simp
  from engines_request2 [where perms = "link_permission hx cfg proven", OF this idle l decoded_typed [OF m] h]
  show ?thesis by (intro service_okI [OF ok]) (simp_all add: v')
qed

text \<open>What a request does before an engine sees it.\<close>

definition known :: "(byte list \<Rightarrow> ident) \<Rightarrow> ident \<Rightarrow> bool" where
  "known thash path \<longleftrightarrow> is_v2 thash path \<or> path = thash REQUEST_PATH"

definition version_of :: "(byte list \<Rightarrow> ident) \<Rightarrow> ident \<Rightarrow> byte" where
  "version_of thash path = (if is_v2 thash path then 2 else 1)"

lemma service_request_cases:
  obtains (refused) e where "service_request os sha hex hx thash link path data v w = ((Inl (Fails e), v), w)"
  | (broken) f where "service_receive (v\<lparr>sv_versions := (sv_versions v)(link \<mapsto> version_of thash path)\<rparr>) = Inl f"
      "service_request os sha hex hx thash link path data v w
        = ((Inl f, v\<lparr>sv_versions := (sv_versions v)(link \<mapsto> version_of thash path)\<rparr>), w)"
      "sv_versions v link = None \<or> sv_versions v link = Some (version_of thash path)"
  | (passed) peer u where "known thash path" "sv_identities v link = Some peer"
      "permission_of hx (sv_config v) peer \<noteq> Deny"
      "sv_versions v link = None \<or> sv_versions v link = Some (version_of thash path)"
      "service_receive (v\<lparr>sv_versions := (sv_versions v)(link \<mapsto> version_of thash path)\<rparr>) = Inr u"
      "service_request os sha hex hx thash link path data v w =
        (if is_v2 thash path then service_request2 os sha hex link peer (permission_of hx (sv_config v) peer) data u w
         else service_request1 os sha link (permission_of hx (sv_config v) peer) data u w)"
proof -
  let ?run = "service_request os sha hex hx thash link path data v w"
  let ?u = "v\<lparr>sv_versions := (sv_versions v)(link \<mapsto> version_of thash path)\<rparr>"
  note defs = service_request_def known_def version_of_def Let_def
  show thesis
  proof (cases "known thash path \<and> (\<exists>peer. sv_identities v link = Some peer \<and> permission_of hx (sv_config v) peer \<noteq> Deny)
      \<and> (sv_versions v link = None \<or> sv_versions v link = Some (version_of thash path))")
    case False
    have "\<exists>e. ?run = ((Inl (Fails e), v), w)"
    proof (cases "known thash path \<and> (\<exists>peer. sv_identities v link = Some peer \<and> permission_of hx (sv_config v) peer \<noteq> Deny)")
      case True
      with False obtain x where "sv_versions v link = Some x" "x \<noteq> version_of thash path" by auto
      with True show ?thesis by (auto simp: defs)
    next
      case False
      then show ?thesis by (cases "sv_identities v link") (auto simp: defs)
    qed
    then show thesis using refused by blast
  next
    case True
    then obtain peer where peer: "known thash path" "sv_identities v link = Some peer"
      "permission_of hx (sv_config v) peer \<noteq> Deny"
      and vers: "sv_versions v link = None \<or> sv_versions v link = Some (version_of thash path)" by blast
    have run: "?run = (case service_receive ?u of
                Inl f \<Rightarrow> ((Inl f, ?u), w)
              | Inr u \<Rightarrow>
                  if is_v2 thash path
                  then service_request2 os sha hex link peer (permission_of hx (sv_config v) peer) data u w
                  else service_request1 os sha link (permission_of hx (sv_config v) peer) data u w)"
      using peer vers by (auto simp: defs split: option.split sum.split)
    show thesis
    proof (cases "service_receive ?u")
      case (Inl f)
      then show thesis using broken run vers by simp
    next
      case (Inr u)
      then show thesis using passed [OF peer vers Inr] run by simp
    qed
  qed
qed

lemma ok_request:
  assumes ok: "service_ok hx cfg proven v"
    and run: "service_request os sha hex hx thash link path data v w = ((r, v'), w')"
  shows "service_ok hx cfg proven v'"
proof -
  let ?u = "v\<lparr>sv_versions := (sv_versions v)(link \<mapsto> version_of thash path)\<rparr>"
  have versioned: "service_ok hx cfg proven ?u"
    if "sv_versions v link = None \<or> sv_versions v link = Some (version_of thash path)"
    using engines_version [OF service_engines [OF ok] that] ok by (simp add: service_ok_def)
  show ?thesis
  proof (cases rule: service_request_cases [of os sha hex hx thash link path data v w])
    case refused
    with run ok show ?thesis by simp
  next
    case broken
    with run versioned show ?thesis by simp
  next
    case (passed peer u)
    from ok_receive [OF versioned [OF passed(4)] passed(5)]
    have u: "service_ok hx cfg proven u" "sv_versions u link = Some (version_of thash path)" by simp_all
    have perm: "permission_of hx (sv_config v) peer = link_permission hx cfg proven link"
      using ok passed(2) by (simp add: service_ok_def proves_def link_permission_def)
    show ?thesis
    proof (cases "is_v2 thash path")
      case True
      with u passed(6) run perm show ?thesis
        by (intro ok_request2 [OF u(1), of link os sha hex peer data w r v' w']) (simp_all add: version_of_def)
    next
      case False
      with u passed(6) run perm show ?thesis
        by (intro ok_request1 [OF u(1), of link os sha data w r v' w']) (simp_all add: version_of_def)
    qed
  qed
qed

lemma ok_handler:
  assumes ok: "service_ok hx cfg proven v"
    and run: "service_handler os sha hex hx thash io_text link path data v w = ((r, v'), w')"
  shows "service_ok hx cfg proven v'"
proof -
  obtain x u w1 where req: "service_request os sha hex hx thash link path data v w = ((x, u), w1)" using surj_pair by metis
  note u = ok_request [OF ok req]
  show ?thesis
  proof (cases "\<exists>e. x = Inl (Fails e)")
    case True
    then obtain e where e: "x = Inl (Fails e)" ..
    obtain z w2 where d: "service_disconnect os sha link u w1 = (z, w2)" by fastforce
    from run e req d have "v' = z" by (auto simp: service_handler_def split: sum.splits)
    then show ?thesis using ok_disconnect [OF u d] by simp
  next
    case False
    then have "v' = u" using run req by (auto simp: service_handler_def split: sum.splits failure.splits)
    then show ?thesis using u by simp
  qed
qed

text \<open>After a disconnect no session of the link is left, so that its version may be forgotten.\<close>

lemma disconnected:
  "v_session (disconnect c v) = Some s \<Longrightarrow> s_connection s \<noteq> c"
  "disconnect2 os sha c e w = (e', w') \<Longrightarrow> v_session (b_base e') = Some s \<Longrightarrow> s_connection s \<noteq> c"
  by (auto simp: disconnect_def disconnect2_def split: option.splits if_splits)

lemma ok_closed:
  assumes ok: "service_ok hx cfg proven v" and run: "service_closed os sha link v w = (v', w')"
  shows "service_ok hx cfg proven v'"
proof -
  obtain u w1 where d: "service_disconnect os sha link v w = (u, w1)" by fastforce
  note u = service_engines [OF ok_disconnect [OF ok d]]
  have "v_session (sv_engine u) = Some s \<Longrightarrow> s_connection s \<noteq> link" for s
    using d by (auto simp: service_disconnect_def Let_def dest: disconnected split: option.splits prod.splits)
  moreover have "sv_v2 u = Some e \<Longrightarrow> v_session (b_base e) = Some s \<Longrightarrow> s_connection s \<noteq> link" for e s
    using d by (auto simp: service_disconnect_def Let_def dest: disconnected split: option.splits prod.splits)
  ultimately have "engines_ok (link_permission hx cfg proven) ((sv_versions u)(link := None)) (sv_engine u) (sv_v2 u)"
    using u by (auto simp: engines_ok_def)
  then show ?thesis using ok_disconnect [OF ok d] run d by (auto simp: service_closed_def service_ok_def)
qed

lemma ok_maintain:
  assumes ok: "service_ok hx cfg proven v" and run: "service_maintain os sha now v w = (Inr (l, v'), w')"
  shows "service_ok hx cfg proven v'"
proof -
  from run obtain u t where "service_receive v = Inr u" "service_expire os sha now t u w = ((l, v'), w')"
    by (auto simp: service_maintain_def split: sum.splits prod.splits)
  from ok_expire [OF ok_receive(1) [OF ok this(1)] this(2)] show ?thesis .
qed

lemma ok_admit:
  assumes ok: "service_ok hx cfg proven v" and run: "admit hx' rt event now v = Inr (b, v')"
  shows "service_ok hx cfg proven v'"
proof -
  have touched: "service_ok hx cfg proven u" "service_ok hx cfg proven (service_touch l now u)" if "service_receive v = Inr u" for u l
    using ok_receive(1) [OF ok that] by (auto intro: ok_touch)
  show ?thesis
    using run ok touched
    by (auto simp: admit_def result_simps Let_def split: destination_event.splits option.splits if_splits prod.splits)
qed

lemma service_step_ok:
  "service_step os sha hex hx thash io_text proven v v' \<Longrightarrow> service_ok hx cfg proven v \<Longrightarrow> service_ok hx cfg proven v'"
proof (induction rule: service_step.induct)
  case (requested link path data v w r v' w')
  then show ?case by (rule ok_handler [rotated])
next
  case (ticked now v w l v' w')
  then show ?case by (rule ok_maintain [rotated])
next
  case (closed link v w v' w')
  then show ?case by (rule ok_closed [rotated])
next
  case (packet rt event now v b v')
  then show ?case by (rule ok_admit [rotated])
qed (simp_all add: service_ok_def)

lemma new_service_ok: "service_ok hx cfg proven (new_service r ca cfg)"
  by (auto simp: service_ok_def new_service_def proves_def engines_ok_def server_ok_def server2_ok_def new_server_def
      new_server2_def active_def)

interpretation both: machine "service_step os sha hex hx thash io_text proven" "new_service r ca cfg" "service_ok hx cfg proven"
  for os sha hex hx thash io_text proven r ca cfg
  by unfold_locales (rule new_service_ok, erule (1) service_step_ok)

lemma service_reachable_ok:
  "service_reachable os sha hex hx thash io_text proven r ca cfg v \<Longrightarrow> service_ok hx cfg proven v"
  unfolding service_reachable_def by (rule both.reach_inv)


section \<open>No event makes the service panic\<close>

lemma error_bytes_ok: "\<exists>bytes. error_bytes thash io_text path e = Inr bytes"
proof -
  have "length (take_chars 240 (error_text io_text e)) \<le> 960"
    using length_take_chars [of 240 "error_text io_text e"] by simp
  then show ?thesis
    by (auto simp: error_bytes_def error_reply_def Let_def encode2_iff encode_iff message_bytes_def message_bytes2_def
        string_bytes_def MAX_PATH_def MAX_CONTROL_def)
qed

lemma safe_deliver:
  assumes ok: "service_ok hx cfg proven v"
  shows "deliver f v \<noteq> Inl Panics"
proof -
  have "server_ok (link_permission hx cfg proven) (sv_engine v)" using ok by (simp add: service_ok_def engines_ok_def)
  then have "receive c g (sv_engine v) \<noteq> Inl Panics" for c g by (rule server_safe)
  moreover have "receive2 c g e \<noteq> Inl Panics" if "sv_v2 v = Some e" for c g e
  proof -
    have "server2_ok (link_permission hx cfg proven) e" using ok that by (simp add: service_ok_def engines_ok_def)
    then show ?thesis by (rule server2_safe)
  qed
  ultimately show ?thesis by (auto simp: deliver_def Let_def result_simps split: option.split)
qed

lemma safe_receive:
  assumes "service_ok hx cfg proven v"
  shows "service_receive v \<noteq> Inl Panics"
proof -
  have "foldR deliver fs u \<noteq> Inl Panics" if "service_ok hx cfg proven u" for fs u
    using that
  proof (induction fs arbitrary: u)
    case (Cons f fs)
    from safe_deliver [OF Cons.prems] ok_deliver [OF Cons.prems, of f] Cons.IH show ?case
      by (cases "deliver f u") auto
  qed simp
  moreover have "service_ok hx cfg proven (v\<lparr>sv_incoming := []\<rparr>)" using assms by (simp add: service_ok_def)
  ultimately show ?thesis unfolding service_receive_def by blast
qed

lemma safe_answers: "r \<noteq> Inl Panics \<Longrightarrow> bindR r answer1 \<noteq> Inl Panics" "q \<noteq> Inl Panics \<Longrightarrow> bindR q answer2 \<noteq> Inl Panics"
  by (auto simp: answer1_def answer2_def result_simps may_def split: reply.split reply2.split sum.splits)

lemma safe_decode_reply: "fst (decode_reply os sha data w) \<noteq> Inl Panics"
proof -
  have "safe (decode_reply os sha data)"
    unfolding decode_reply_def by (intro never_seq never_if never_sys never_return) simp_all
  then show ?thesis by (simp add: never_def)
qed

lemma safe_engine_requests:
  assumes ok: "service_ok hx cfg proven v" and fit: "sizes_fit os"
  shows "fst (fst (service_request1 os sha link perm data v w)) \<noteq> Inl Panics"
    "fst (fst (service_request2 os sha hex link peer perm data v w)) \<noteq> Inl Panics"
proof -
  have e: "server_ok (link_permission hx cfg proven) (sv_engine v)" using ok by (simp add: service_ok_def engines_ok_def)
  have "fst (fst (handle os sha link perm m (sv_engine v) w)) \<noteq> Inl Panics" for m by (rule server_safe [OF e])
  then show "fst (fst (service_request1 os sha link perm data v w)) \<noteq> Inl Panics"
    by (auto simp: service_request1_def safe_answers split: sum.split prod.split) (metis fst_conv safe_answers(1))
  show "fst (fst (service_request2 os sha hex link peer perm data v w)) \<noteq> Inl Panics"
  proof (cases "active (sv_engine v) \<or> sv_v2 v = None")
    case True
    then show ?thesis by (auto simp: service_request2_def)
  next
    case False
    then obtain b where b: "\<not> active (sv_engine v)" "sv_v2 v = Some b" by auto
    then have b_ok: "server2_ok (link_permission hx cfg proven) b" using ok by (simp add: service_ok_def engines_ok_def)
    obtain x w1 where x: "decode_reply os sha data w = (x, w1)" by fastforce
    show ?thesis
    proof (cases x)
      case (Inl f)
      then show ?thesis using safe_decode_reply [of os sha data w] b x by (simp add: service_request2_def)
    next
      case (Inr m)
      obtain y b' w2 where h: "handle2 os sha hex link peer perm m b w1 = ((y, b'), w2)" using surj_pair by metis
      have "fst (fst (handle2 os sha hex link peer perm m b w1)) \<noteq> Inl Panics"
        using server2_safe(1) [OF b_ok fit decoded_typed [of os sha data w m w1]] x Inr by simp
      then show ?thesis using b x Inr h by (simp add: service_request2_def safe_answers)
    qed
  qed
qed

lemma safe_request:
  assumes ok: "service_ok hx cfg proven v" and fit: "sizes_fit os"
  shows "fst (fst (service_request os sha hex hx thash link path data v w)) \<noteq> Inl Panics"
proof -
  have versioned: "service_ok hx cfg proven (v\<lparr>sv_versions := (sv_versions v)(link \<mapsto> version_of thash path)\<rparr>)"
    if "sv_versions v link = None \<or> sv_versions v link = Some (version_of thash path)"
    using engines_version [OF service_engines [OF ok] that] ok by (simp add: service_ok_def)
  show ?thesis
  proof (cases rule: service_request_cases [of os sha hex hx thash link path data v w])
    case (broken f)
    with safe_receive [OF versioned [OF broken(3)]] show ?thesis by simp
  next
    case (passed peer u)
    from safe_engine_requests [OF ok_receive(1) [OF versioned [OF passed(4)] passed(5)] fit] passed(6)
    show ?thesis by simp
  qed simp
qed


section \<open>The session of the export\<close>

definition holder :: "service \<Rightarrow> session option" where
  "holder v =
     (case v_session (sv_engine v) of
        Some s \<Rightarrow> Some s
      | None \<Rightarrow> (case sv_v2 v of None \<Rightarrow> None | Some e \<Rightarrow> v_session (b_base e)))"

text \<open>What the servers hold, but for the file that has arrived.\<close>

definition bare_session :: "session \<Rightarrow> session" where
  "bare_session s = s\<lparr>s_received := None\<rparr>"

definition bare_transfer :: "transfer \<Rightarrow> transfer" where
  "bare_transfer t = t\<lparr>t_received := None\<rparr>"

definition picture2 :: "server2 \<Rightarrow> session option \<times> transfer option \<times> ident option" where
  "picture2 e = (v_session (b_base e), map_option bare_transfer (b_transfer e), b_peer e)"

definition picture ::
  "service \<Rightarrow> session option \<times> (session option \<times> transfer option \<times> ident option) option" where
  "picture v = (map_option bare_session (v_session (sv_engine v)), map_option picture2 (sv_v2 v))"

lemma bare_connection [simp]: "s_connection (bare_session s) = s_connection s" "s_activity (bare_session s) = s_activity s"
  by (simp_all add: bare_session_def)

lemma bare_twice: "bare_session (s\<lparr>s_received := x\<rparr>) = bare_session s" "bare_transfer (t\<lparr>t_received := y\<rparr>) = bare_transfer t"
  by (simp_all add: bare_session_def bare_transfer_def)

lemma picture_receive:
  assumes "receive c f v = Inr v'"
  shows "map_option bare_session (v_session v') = map_option bare_session (v_session v)"
proof (cases "v_session v")
  case (Some s)
  with assms have "v' = v \<or> v' = v\<lparr>v_session := Some (s\<lparr>s_received := Some f\<rparr>)\<rparr>"
    by (auto simp: receive_def result_simps split: if_splits)
  then show ?thesis using Some by (auto simp: bare_twice)
qed (use assms in \<open>auto simp: receive_def result_simps\<close>)

lemma picture_receive2: "receive2 c f e = Inr e' \<Longrightarrow> picture2 e' = picture2 e"
  by (auto simp: receive2_def result_simps picture2_def bare_twice split: if_splits option.splits)

lemma picture_deliver: "deliver f v = Inr v' \<Longrightarrow> picture v' = picture v \<and> sv_config v' = sv_config v"
  by (auto simp: deliver_def Let_def result_simps picture_def picture_receive picture_receive2 split: if_splits option.splits)

lemma picture_received: "service_receive v = Inr v' \<Longrightarrow> picture v' = picture v \<and> sv_config v' = sv_config v"
proof -
  have "picture v' = picture u \<and> sv_config v' = sv_config u" if "foldR deliver fs u = Inr v'" for fs u
    using that
  proof (induction fs arbitrary: u)
    case (Cons f fs)
    then obtain u1 where "deliver f u = Inr u1" "foldR deliver fs u1 = Inr v'" by (auto simp: result_simps)
    with Cons.IH picture_deliver show ?case by metis
  qed simp
  then show "service_receive v = Inr v' \<Longrightarrow> ?thesis"
    by (fastforce simp: service_receive_def picture_def)
qed

text \<open>\<open>held l v\<close>: if a server has a session, it is one of \<open>l\<close>.\<close>

definition sessions_of :: "service \<Rightarrow> session set" where
  "sessions_of v = set_option (v_session (sv_engine v)) \<union> (\<Union>e \<in> set_option (sv_v2 v). set_option (v_session (b_base e)))"

lemma holder_sessions: "holder v = None \<longleftrightarrow> sessions_of v = {}"
  by (auto simp: holder_def sessions_of_def split: option.split)

lemma sessions_connections:
  assumes "picture u = picture v"
  shows "s_connection ` sessions_of u = s_connection ` sessions_of v"
proof -
  have one: "s_connection ` set_option x = s_connection ` set_option y"
    if "map_option bare_session x = map_option bare_session y" for x y
    using that by (cases x; cases y) (auto dest: arg_cong [where f = s_connection])
  have two: "(\<Union>e \<in> set_option a. set_option (v_session (b_base e))) = (\<Union>e \<in> set_option b. set_option (v_session (b_base e)))"
    if "map_option picture2 a = map_option picture2 b" for a b
    using that by (cases a; cases b) (auto simp: picture2_def)
  have p: "map_option bare_session (v_session (sv_engine u)) = map_option bare_session (v_session (sv_engine v))"
    "map_option picture2 (sv_v2 u) = map_option picture2 (sv_v2 v)"
    using assms by (simp_all add: picture_def)
  show ?thesis unfolding sessions_of_def image_Un one [OF p(1)] two [OF p(2)] ..
qed

lemma foreign_handle:
  assumes "v_session v = Some s" "s_connection s \<noteq> c"
  shows "\<exists>e. handle os sha c p req v w = ((Inl (Fails e), v), w)"
proof -
  obtain e where "handle_inner os sha c p req v w = (Inl (Fails e), w)" using foreign_inner [OF assms, of os sha p req w] by blast
  then show ?thesis using assms by (simp add: handle_def disconnect_def)
qed

lemma foreign_handle2:
  assumes "v_session (b_base v) = Some s" "s_connection s \<noteq> c"
  shows "\<exists>e. handle2 os sha hex c peer p m v w = ((Inl (Fails e), v), w)"
proof -
  obtain e where "handle_inner2 os sha hex c peer p m v w = (Inl (Fails e), w)"
    using intruder_inner2 [OF assms(1), of c peer p os sha hex m w] assms(2) by blast
  then show ?thesis using assms by (simp add: handle2_def disconnect2_def)
qed

lemma foreign_requests:
  assumes busy: "sessions_of v \<noteq> {}" and others: "link \<notin> s_connection ` sessions_of v"
  shows "\<exists>e. fst (service_request1 os sha link perm data v w) = (Inl (Fails e), v)"
    "\<exists>x. fst (service_request2 os sha hex link peer perm data v w) = (Inl x, v)"
proof -
  have conn: "v_session (sv_engine v) = Some s \<Longrightarrow> s_connection s \<noteq> link"
    "sv_v2 v = Some e \<Longrightarrow> v_session (b_base e) = Some s \<Longrightarrow> s_connection s \<noteq> link" for s e
    using others by (auto simp: sessions_of_def)
  show "\<exists>e. fst (service_request1 os sha link perm data v w) = (Inl (Fails e), v)"
  proof (cases "v_session (sv_engine v)")
    case None
    then obtain e where "sv_v2 v = Some e" "active2 e" using busy by (auto simp: sessions_of_def active2_def)
    then show ?thesis by (simp add: service_request1_def)
  next
    case (Some s)
    show ?thesis
    proof (cases "(case sv_v2 v of None \<Rightarrow> False | Some e \<Rightarrow> active2 e) \<or> (\<exists>e. decode data = Inl e)")
      case True
      then show ?thesis by (auto simp: service_request1_def)
    next
      case False
      then obtain m where "decode data = Inr m" by (cases "decode data") auto
      moreover obtain x where "handle os sha link perm m (sv_engine v) w = ((Inl (Fails x), sv_engine v), w)"
        using foreign_handle [OF Some conn(1) [OF Some], of os sha perm m w] by blast
      ultimately show ?thesis using False by (simp add: service_request1_def)
    qed
  qed
  show "\<exists>x. fst (service_request2 os sha hex link peer perm data v w) = (Inl x, v)"
  proof (cases "active (sv_engine v) \<or> sv_v2 v = None")
    case True
    then show ?thesis by (auto simp: service_request2_def)
  next
    case False
    then obtain e s where e: "\<not> active (sv_engine v)" "sv_v2 v = Some e" "v_session (b_base e) = Some s"
      using busy by (auto simp: sessions_of_def active_def)
    obtain y w1 where y: "decode_reply os sha data w = (y, w1)" by fastforce
    show ?thesis
    proof (cases y)
      case (Inl f)
      then show ?thesis using e(1,2) y by (simp add: service_request2_def)
    next
      case (Inr m)
      obtain x where x: "handle2 os sha hex link peer perm m e w1 = ((Inl (Fails x), e), w1)"
        using foreign_handle2 [OF e(3) conn(2) [OF e(2,3)], of os sha hex peer perm m w1] by blast
      have "v\<lparr>sv_v2 := Some e\<rparr> = v" using e(2) by simp
      then show ?thesis using e(1,2) y Inr x by (simp add: service_request2_def)
    qed
  qed
qed

lemma foreign_disconnect:
  assumes "link \<notin> s_connection ` sessions_of v"
  shows "service_disconnect os sha link v w = (v, w)"
proof -
  have "disconnect link (sv_engine v) = sv_engine v"
    using assms by (auto simp: disconnect_def sessions_of_def split: option.split)
  moreover have "disconnect2 os sha link e w = (e, w)" if "sv_v2 v = Some e" for e
    using assms that by (auto simp: disconnect2_def sessions_of_def split: option.split)
  ultimately show ?thesis by (simp add: service_disconnect_def split: option.split)
qed

lemma holder_only:
  assumes "service_ok hx cfg proven v" "holder v = Some s"
  shows "sessions_of v = {s}"
  using assms
  by (auto simp: service_ok_def engines_ok_def holder_def sessions_of_def active_def active2_def split: option.splits)

lemma foreign_service_request:
  assumes busy: "sessions_of v \<noteq> {}" and others: "link \<notin> s_connection ` sessions_of v"
    and run: "service_request os sha hex hx thash link path data v w = ((r, u), w')"
  shows "\<exists>e. r = Inl e" "picture u = picture v"
proof -
  let ?v = "v\<lparr>sv_versions := (sv_versions v)(link \<mapsto> version_of thash path)\<rparr>"
  have same: "picture ?v = picture v" "sessions_of ?v = sessions_of v" by (simp_all add: picture_def sessions_of_def)
  have "(\<exists>e. r = Inl e) \<and> picture u = picture v"
  proof (cases rule: service_request_cases [of os sha hex hx thash link path data v w])
    case (passed peer x)
    have p: "picture x = picture v" using picture_received [OF passed(5)] same by simp
    note c = sessions_connections [OF p]
    have "sessions_of x \<noteq> {}" "link \<notin> s_connection ` sessions_of x" using busy others c by auto
    note f = foreign_requests [OF this]
    obtain e where "fst (service_request1 os sha link (permission_of hx (sv_config v) peer) data x w) = (Inl (Fails e), x)"
      using f(1) [of os sha "permission_of hx (sv_config v) peer" data w] by blast
    moreover obtain e where "fst (service_request2 os sha hex link peer (permission_of hx (sv_config v) peer) data x w) = (Inl e, x)"
      using f(2) [of os sha hex peer "permission_of hx (sv_config v) peer" data w] by blast
    moreover have "(r, u) = fst (service_request os sha hex hx thash link path data v w)" using run by simp
    ultimately show ?thesis using passed(6) p by (cases "is_v2 thash path") auto
  qed (use run same in auto)
  then show "\<exists>e. r = Inl e" "picture u = picture v" by simp_all
qed

text \<open>C13: The export has one session at a time, and other links cannot disturb it. While a link holds the
  session, of either protocol version, every request of any other link is refused, whatever its version,
  identity and content, and refusing it and dropping the link changes nothing of the session, its plan
  and progress, its transfer and its peer; only files that had arrived before may be handed over.\<close>

theorem sessions_isolated:
  assumes reach: "service_reachable os sha hex hx thash io_text proven r ca cfg v"
    and s: "holder v = Some s" "s_connection s \<noteq> link"
    and run: "service_handler os sha hex hx thash io_text link path data v w = ((a, v'), w')"
  shows "(\<exists>e. fst (fst (service_request os sha hex hx thash link path data v w)) = Inl e) \<and> picture v' = picture v"
proof -
  have one: "sessions_of v = {s}" by (rule holder_only [OF service_reachable_ok [OF reach] s(1)])
  have busy: "sessions_of v \<noteq> {}" "link \<notin> s_connection ` sessions_of v" using one s(2) by auto
  obtain x u w1 where req: "service_request os sha hex hx thash link path data v w = ((x, u), w1)" using surj_pair by metis
  note f = foreign_service_request [OF busy req]
  have "link \<notin> s_connection ` sessions_of u" using busy(2) sessions_connections [OF f(2)] by simp
  note d = foreign_disconnect [OF this]
  obtain e where e: "x = Inl e" using f(1) by blast
  have "v' = u"
  proof (cases e)
    case (Fails y)
    with run req e show ?thesis by (auto simp: service_handler_def d split: sum.splits)
  qed (use run req e in \<open>auto simp: service_handler_def\<close>)
  with f(2) e req show ?thesis by simp
qed

section \<open>Leases\<close>

lemma holder_picture:
  assumes "picture u = picture v"
  shows "map_option bare_session (holder u) = map_option bare_session (holder v)"
proof -
  have p: "map_option bare_session (v_session (sv_engine u)) = map_option bare_session (v_session (sv_engine v))"
    "map_option picture2 (sv_v2 u) = map_option picture2 (sv_v2 v)"
    using assms by (simp_all add: picture_def)
  from p(2) have "(case sv_v2 u of None \<Rightarrow> None | Some e \<Rightarrow> v_session (b_base e)) = (case sv_v2 v of None \<Rightarrow> None | Some e \<Rightarrow> v_session (b_base e))"
    by (cases "sv_v2 u"; cases "sv_v2 v") (auto simp: picture2_def)
  with p(1) show ?thesis by (cases "v_session (sv_engine u)"; cases "v_session (sv_engine v)") (auto simp: holder_def)
qed

lemma lease:
  assumes ok: "service_ok hx cfg proven v" and s: "holder v = Some s"
    and run: "service_expire os sha now t v w = ((l, v'), w')"
  shows "if t < now - s_activity s then l = Some (s_connection s) \<and> holder v' = None else l = None \<and> v' = v"
proof (cases "v_session (sv_engine v)")
  case None
  then obtain e where e: "sv_v2 v = Some e" "v_session (b_base e) = Some s" using s by (auto simp: holder_def split: option.splits)
  have "e\<lparr>b_base := b_base e\<rparr> = e" "v\<lparr>sv_engine := sv_engine v, sv_v2 := Some e\<rparr> = v" using e(1) by simp_all
  then show ?thesis using run None e by (auto simp: service_expire_def expire_def expire2_def holder_def Let_def split: if_splits)
next
  case (Some s1)
  then have s1: "s1 = s" using s by (simp add: holder_def)
  have idle: "v_session (b_base e) = None" if "sv_v2 v = Some e" for e
    using ok that Some by (simp add: service_ok_def engines_ok_def active_def active2_def)
  have "e\<lparr>b_base := b_base e\<rparr> = e" "v\<lparr>sv_engine := sv_engine v\<rparr> = v" "v\<lparr>sv_v2 := sv_v2 v\<rparr> = v" for e by simp_all
  then show ?thesis
    using run Some s1 idle
    by (cases "sv_v2 v") (auto simp: service_expire_def expire_def expire2_def holder_def Let_def split: if_splits)
qed

text \<open>C23: A silent link loses the session, and only a silent one. At a tick of the maintenance timer the
  session of either version is dropped and its link reported for closing if its last activity is longer
  ago than the timeout of the configuration; otherwise it is kept as it is.\<close>

theorem lease_decides:
  assumes reach: "service_reachable os sha hex hx thash io_text proven r ca cfg v" and s: "holder v = Some s"
    and run: "service_maintain os sha now v w = (Inr (l, v'), w')"
  shows "if unat (timeout_seconds cfg) * second < now - s_activity s
    then l = Some (s_connection s) \<and> holder v' = None else l = None \<and> picture v' = picture v"
proof -
  note ok = service_reachable_ok [OF reach]
  from run obtain u where u: "service_receive v = Inr u"
    and x: "service_expire os sha now (unat (timeout_seconds (sv_config u)) * second) u w = ((l, v'), w')"
    by (auto simp: service_maintain_def split: sum.splits prod.splits)
  note p = picture_received [OF u]
  have "map_option bare_session (holder u) = Some (bare_session s)" using holder_picture [of u v] p s by simp
  then obtain su where su: "holder u = Some su" "bare_session su = bare_session s" by auto
  have same: "s_connection su = s_connection s" "s_activity su = s_activity s" using su(2) by (metis bare_connection)+
  have cfg: "sv_config u = cfg" using p ok by (simp add: service_ok_def)
  from lease [OF ok_receive(1) [OF ok u] su(1) x] same p cfg show ?thesis by (auto split: if_splits)
qed

section \<open>Files\<close>

lemma expected_file:
  assumes ok: "service_ok hx cfg proven v" and acc: "service_accepts_file v link sz md = Inr True"
  obtains s i where "holder v = Some s" "s_connection s = link" "s_push s" "\<not> dry_run (s_options s)" "\<not> md"
    "s_pending s = Some i" "i \<in> set (files (s_plan s))" "i |\<notin>| s_done s"
    "link_permission hx cfg proven link = Full"
    "sz = e_size (s_source s ! i) \<or> (\<exists>e t k. sv_v2 v = Some e \<and> b_transfer e = Some t \<and> t_index t = i
       \<and> t_pending t = Some k \<and> chunk_length (t_description t) k = Inr sz)"
proof -
  let ?p = "link_permission hx cfg proven"
  from acc consider (one) "accepts_file (sv_engine v) link sz md = Inr True"
    | (two) e where "sv_v2 v = Some e" "accepts_file2 e link sz md = Inr True"
    by (auto simp: service_accepts_file_def result_simps split: if_splits option.splits)
  then show thesis
  proof cases
    case one
    then obtain s i where s: "v_session (sv_engine v) = Some s" "s_connection s = link" "s_push s" "\<not> dry_run (s_options s)"
      "\<not> md" "s_pending s = Some i" "sz = e_size (s_source s ! i)"
      by (auto simp: accepts_file_def split: option.splits if_splits)
    have core: "session_core ?p s"
      using ok s(1) by (simp add: service_ok_def engines_ok_def server_ok_def session_ok_def)
    show thesis
      by (rule that [of s i]) (use s core_pending [OF core s(6)] core_permission [OF core] in \<open>auto simp: holder_def\<close>)
  next
    case (two e)
    then obtain s t k where s: "v_session (b_base e) = Some s" "s_connection s = link" "s_push s" "\<not> dry_run (s_options s)"
      "\<not> md" "b_transfer e = Some t" "t_pending t = Some k" "chunk_length (t_description t) k = Inr sz"
      by (auto simp: accepts_file2_def split: option.splits if_splits sum.splits failure.splits)
    have none: "v_session (sv_engine v) = None" and e_ok: "server2_ok ?p e"
      using ok two(1) s(1) by (auto simp: service_ok_def engines_ok_def active_def active2_def)
    have core: "session_core ?p s" and pend: "s_pending s = Some (t_index t)"
      using e_ok s(1,6) by (simp_all add: server2_ok_def transfer_ok_def)
    show thesis
      by (rule that [of s "t_index t"])
        (use two s none core_pending [OF core pend] core_permission [OF core] pend in \<open>auto simp: holder_def\<close>)
  qed
qed


section \<open>Errors\<close>


section \<open>An export that is being pushed to\<close>

definition demo_config :: config where
  "demo_config = default_config\<lparr>permits := [[(others, Full)]]\<rparr>"

definition demo_thash :: "byte list \<Rightarrow> ident" where
  "demo_thash s = (if s = REQUEST_PATH2 then 2 else 1)"

definition demo_service :: "server \<Rightarrow> (ident \<Rightarrow> byte option) \<Rightarrow> service" where
  "demo_service e versions =
     \<lparr>sv_engine = e, sv_v2 = Some (new_server2 demo_root demo_cache), sv_versions = versions, sv_incoming = [],
      sv_identities = (\<lambda>_. Some 7), sv_config = demo_config\<rparr>"

abbreviation demo_handler :: "ident \<Rightarrow> ident \<Rightarrow> byte list \<Rightarrow> service \<Rightarrow> str list \<times> byte list
    \<Rightarrow> (answer outcome \<times> service) \<times> str list \<times> byte list" where
  "demo_handler \<equiv> service_handler blank_os (\<lambda>_. 0) (\<lambda>_. ascii ''k'') (\<lambda>_. None) demo_thash (\<lambda>_. [])"

abbreviation demo_running :: "service \<Rightarrow> bool" where
  "demo_running \<equiv> service_reachable blank_os (\<lambda>_. 0) (\<lambda>_. ascii ''k'') (\<lambda>_. None) demo_thash (\<lambda>_. []) (\<lambda>_. 7) demo_root
     (Some demo_cache) demo_config"

lemma demo_hashes: "is_v2 demo_thash 1 = False" "is_v2 demo_thash 2 = True" "demo_thash REQUEST_PATH = 1"
  by (simp_all add: is_v2_def demo_thash_def REQUEST_PATH_def REQUEST_PATH2_def ascii_def)

lemma demo_full: "permission_of (\<lambda>_. None) demo_config i = Full" "sv_config (demo_service e vs) = demo_config"
  by (simp_all add: permission_of_def demo_config_def permission_rule_def demo_service_def)

lemma demo_service_request:
  assumes "decode data = Inr m" "demo_handle m e w = ((Inr (Reply r), e'), w')" "encode r = Inr bytes"
    "vs 1 = None \<or> vs 1 = Some 1"
  shows "demo_handler 1 1 data (demo_service e vs) w = ((Inr (Answer bytes), demo_service e' (vs(1 \<mapsto> 1))), w')"
  using assms demo_hashes demo_full
  by (auto simp: service_handler_def service_request_def service_receive_def service_request1_def answer1_def demo_service_def
      active2_def new_server2_def new_server_def may_def)

lemma running_step:
  "demo_running v \<Longrightarrow> service_step blank_os (\<lambda>_. 0) (\<lambda>_. ascii ''k'') (\<lambda>_. None) demo_thash (\<lambda>_. []) (\<lambda>_. 7) v v' \<Longrightarrow> demo_running v'"
  unfolding service_reachable_def by (rule rtranclp.rtrancl_into_rtrancl)

lemma demo_requests:
  "decode (message_bytes (Start True demo_options [] [demo_file])) = Inr (Start True demo_options [] [demo_file])"
  "decode (message_bytes (Begin 0)) = Inr (Begin 0)" "\<exists>bytes. encode (Manifest []) = Inr bytes" "\<exists>bytes. encode Ok = Inr bytes"
proof -
  have m: "manifest_ok False [demo_file]" "manifest_ok False []" using planD(1,2) [OF demo_planned] by (simp_all add: demo_options_def)
  have "valid_utf8 (ascii ''f'')" by (rule valid_utf8_ascii) auto
  then have u: "typed_manifest [demo_file]" by (simp add: typed_manifest_def demo_file_def)
  have n: "valid_utf8 []" using valid_utf8_ascii [of "[]"] by (simp add: ascii_def)
  show "decode (message_bytes (Start True demo_options [] [demo_file])) = Inr (Start True demo_options [] [demo_file])"
    using m u n by (simp add: decode_iff message_bytes_def manifest_bytes_def entry_bytes_def string_bytes_def optional_hash_bytes_def
        MAX_CONTROL_def demo_file_def)
  show "decode (message_bytes (Begin 0)) = Inr (Begin 0)" by (simp add: decode_iff message_bytes_def MAX_CONTROL_def)
  show "\<exists>bytes. encode (Manifest []) = Inr bytes"
    using m by (simp add: encode_iff message_bytes_def manifest_bytes_def MAX_CONTROL_def)
  show "\<exists>bytes. encode Ok = Inr bytes" by (simp add: encode_iff message_bytes_def MAX_CONTROL_def)
qed

definition demo_pushed :: service where
  "demo_pushed = demo_service (demo_server (demo_session\<lparr>s_prepared := True, s_pending := Some 0\<rparr>)) ((\<lambda>_. None)(1 \<mapsto> 1))"

lemma demo_pushed: "demo_running demo_pushed"
proof -
  have "demo_running (new_service demo_root (Some demo_cache) demo_config)" by (simp add: service_reachable_def)
  then have "demo_running ((new_service demo_root (Some demo_cache) demo_config)\<lparr>sv_identities := \<lambda>_. Some 7\<rparr>)"
    by (rule running_step) (rule service_step.identified, simp add: proves_def)
  then have 0: "demo_running (demo_service (new_server demo_root) (\<lambda>_. None))" by (simp add: demo_service_def new_service_def)
  obtain b where b: "encode (Manifest []) = Inr b" using demo_requests(3) by blast
  have "demo_running (demo_service (demo_server demo_session) ((\<lambda>_. None)(1 \<mapsto> 1)))"
    by (rule running_step [OF 0 service_step.requested [OF demo_service_request [OF demo_requests(1) demo_start b]]]) simp
  note 1 = this
  obtain c where c: "encode Ok = Inr c" using demo_requests(4) by blast
  have "demo_running (demo_service (demo_server (demo_session\<lparr>s_prepared := True, s_pending := Some 0\<rparr>)) ((\<lambda>_. None)(1 \<mapsto> 1, 1 \<mapsto> 1)))"
    by (rule running_step [OF 1 service_step.requested [OF demo_service_request [OF demo_requests(2) demo_begin c]]]) simp
  then show ?thesis by (simp add: demo_pushed_def)
qed

lemma demo_held: "holder demo_pushed = Some (demo_session\<lparr>s_prepared := True, s_pending := Some 0\<rparr>)" "s_connection demo_session = 1"
  by (simp_all add: holder_def demo_pushed_def demo_service_def demo_server_def demo_session_def)



lemma sessions_isolated_witness:
  "picture (snd (fst (demo_handler 2 2 (message_bytes Finish) demo_pushed ([], [])))) = picture demo_pushed"
proof -
  obtain a v' w' where run: "demo_handler 2 2 (message_bytes Finish) demo_pushed ([], []) = ((a, v'), w')" using surj_pair by metis
  have "s_connection (demo_session\<lparr>s_prepared := True, s_pending := Some 0\<rparr>) \<noteq> 2" by (simp add: demo_session_def)
  from sessions_isolated [OF demo_pushed demo_held(1) this run] show ?thesis by (simp add: run)
qed

lemma lease_decides_witness:
  "\<exists>v' w'. service_maintain blank_os (\<lambda>_. 0) 1000000000000 demo_pushed ([], []) = (Inr (Some 1, v'), w') \<and> holder v' = None"
proof -
  have "\<exists>l v' w'. service_maintain blank_os (\<lambda>_. 0) 1000000000000 demo_pushed ([], []) = (Inr (l, v'), w')"
    by (auto simp: service_maintain_def service_receive_def demo_pushed_def demo_service_def split: prod.split)
  then obtain l v' w' where run: "service_maintain blank_os (\<lambda>_. 0) 1000000000000 demo_pushed ([], []) = (Inr (l, v'), w')"
    by blast
  have "unat (timeout_seconds demo_config) * second < 1000000000000 - s_activity (demo_session\<lparr>s_prepared := True, s_pending := Some 0\<rparr>)"
    by (simp add: demo_config_def default_config_def demo_session_def second_def)
  with lease_decides [OF demo_pushed demo_held(1) run] have "l = Some 1" "holder v' = None"
    by (simp_all add: demo_session_def)
  with run show ?thesis by blast
qed

definition demo_reticulum :: reticulum where
  "demo_reticulum =
     \<lparr>rt_links = 1, rt_header = (\<lambda>_. Some (\<lparr>hd_data = True, hd_context = Resource_adv, hd_destination = 1\<rparr>, 0)),
      rt_decrypt = (\<lambda>_. Some Some),
      rt_advertisement = (\<lambda>_. Some \<lparr>ad_request = False, ad_response = False, ad_metadata = False, ad_size = 3\<rparr>)\<rparr>"

lemma demo_admitted:
  "admit (\<lambda>_. None) demo_reticulum (Inbound_packet [1, 2]) 6 demo_pushed = Inr (True, service_touch 1 6 demo_pushed)"
proof -
  have "service_receive demo_pushed = Inr demo_pushed" by (simp add: service_receive_def demo_pushed_def demo_service_def)
  moreover have "sv_identities demo_pushed 1 = Some 7" by (simp add: demo_pushed_def demo_service_def)
  moreover have "permits_peer (\<lambda>_. None) (sv_config demo_pushed) 7" by (simp add: permits_peer_def demo_pushed_def demo_full)
  moreover have "service_accepts_file (service_touch 1 6 demo_pushed) 1 3 False = Inr True"
    by (simp add: service_accepts_file_def accepts_file_def service_touch_def touch_def demo_pushed_def demo_service_def
        demo_server_def demo_session_def demo_file_def demo_options_def)
  ultimately show ?thesis
    by (simp add: admit_def demo_reticulum_def admit_resource_def advertised_def)
qed



end
