(* ===== verification/Adapter_Props.thy ===== *)
theory Adapter_Props
  imports Adapter Memory2 Service_Props
begin

text \<open>
  The program as a whole. The directory a client is given is turned into a root whose prefix is a safe name;
  an accepted cache is apart from the tree (\<open>cache_disjoint\<close>); a session that succeeds carries the plan for the
  peer's manifest out (\<open>pull_session_carries_out\<close>), over a link to the peer it was told to
  (\<open>peer_authenticated\<close>); a client that succeeds has run one whole session (\<open>client_succeeds_whole\<close>); a dry run
  creates nothing before it (\<open>dry_run_starts_clean\<close>); a server starts in its invariant. The witnesses are
  evaluated on the system with two sides of \<open>Memory2\<close>.
\<close>

section \<open>Paths\<close>

lemma path_parts_join:
  assumes "a \<noteq> []" "is_relative b"
  shows "path_parts (path_join a b) = path_parts a @ path_parts b"
proof (cases "last a = slash")
  case True
  then obtain c where a: "a = c @ [slash]" using assms(1) by (metis append_butlast_last_id)
  have "components (c @ slash # b) = components c @ components b" by (rule split_on_append_sep)
  moreover have "components (c @ slash # []) = components c @ components []" by (rule split_on_append_sep)
  ultimately show ?thesis using assms(2) True by (simp add: path_join_def path_parts_def a)
next
  case False
  have "components (a @ slash # b) = components a @ components b" by (rule split_on_append_sep)
  then show ?thesis using assms False by (simp add: path_join_def path_parts_def)
qed

lemma disjoint_paths:
  assumes "\<not> path_within a b" "\<not> path_within b a" "a \<noteq> []" "b \<noteq> []" "is_relative p" "is_relative q"
  shows "path_parts (path_join a p) \<noteq> path_parts (path_join b q)"
proof
  assume "path_parts (path_join a p) = path_parts (path_join b q)"
  then have "path_parts a @ path_parts p = path_parts b @ path_parts q"
    using assms(3-6) by (simp add: path_parts_join)
  then have "prefix (path_parts a) (path_parts b) \<or> prefix (path_parts b) (path_parts a)"
    by (metis prefixI prefix_same_cases)
  then show False using assms(1,2) by (simp add: path_within_def)
qed

section \<open>Destinations\<close>

lemma existing_base_Inr:
  "existing_base en path cs names w = (Inr (base, rest), w') \<Longrightarrow>
     \<exists>more. cs = more @ base \<and> rest = names @ more \<and> dotdot \<notin> set more \<and> (\<forall>c \<in> set more. valid_utf8 c)"
proof (induction cs arbitrary: names w)
  case (Cons c cs)
  from Cons.prems obtain there w1 where *: "en_try_exists en (path_of (rev (c # cs))) w = (Inr there, w1)"
    "(if there then returnI (c # cs, names) else if c = dotdot then failI (InvalidPath (en_display en path))
       else if \<not> valid_utf8 c then failI (InvalidPath (ascii ''non-UTF-8 root''))
       else existing_base en path cs (names @ [c])) w1 = (Inr (base, rest), w')"
    by (auto simp: io_simps)
  show ?case
  proof (cases there)
    case True
    with * show ?thesis by auto
  next
    case False
    with * have "c \<noteq> dotdot" "valid_utf8 c" "existing_base en path cs (names @ [c]) w1 = (Inr (base, rest), w')"
      by (auto split: if_splits)
    with Cons.IH [OF this(3)] show ?thesis by auto
  qed
qed (auto simp: io_simps split: if_splits)

lemma split_join:
  "ps \<noteq> [] \<Longrightarrow> \<forall>p \<in> set ps. c \<notin> set p \<Longrightarrow> split_on c (join_with c ps) = ps"
proof (induction ps)
  case (Cons p ps)
  then show ?case by (cases "ps = []") (simp_all add: split_on_free join_with_Cons split_on_append_sep)
qed simp

lemma destination_Inr:
  assumes "destination os en path w = (Inr r, w')"
  obtains absolute base where
    "fst (en_absolute en path w) = Inr absolute" "path_parts absolute = base @ filter (\<lambda>c. c \<noteq> []) (components (root_prefix r))"
    "root_prefix r = [] \<or> valid_path (root_prefix r)"
proof -
  from assms obtain absolute base names w1 w2 where *: "en_absolute en path w = (Inr absolute, w1)"
    "existing_base en path (rev (path_parts absolute)) [] w1 = (Inr (base, names), w2)"
    "root_prefix r = join_with slash (rev names)" "root_prefix r = [] \<or> validate (root_prefix r) = Inr ()"
    by (auto simp: destination_def io_simps root_open_def Let_def split: if_splits)
  from existing_base_Inr [OF *(2)] have parts: "rev (path_parts absolute) = names @ base" by auto
  then have whole: "path_parts absolute = rev base @ rev names" by (metis rev_append rev_rev_ident)
  have free: "\<forall>c \<in> set (rev names). slash \<notin> set c \<and> c \<noteq> []"
  proof -
    have "set (rev names) \<subseteq> set (path_parts absolute)" by (simp add: whole)
    then show ?thesis by (auto simp: path_parts_def dest: split_on_components)
  qed
  have "filter (\<lambda>c. c \<noteq> []) (components (join_with slash (rev names))) = rev names"
  proof (cases "names = []")
    case False
    then have "components (join_with slash (rev names)) = rev names"
      using free by (intro split_join) auto
    with free show ?thesis by (simp add: filter_id_conv)
  qed simp
  with * whole have "path_parts absolute = rev base @ filter (\<lambda>c. c \<noteq> []) (components (root_prefix r))" by simp
  moreover have "root_prefix r = [] \<or> valid_path (root_prefix r)" using *(4) by (auto simp: valid_path_def)
  ultimately show ?thesis using * that by simp
qed

lemma destination_safe:
  assumes "destination os en path w = (Inr r, w')"
  shows "safe_name (root_prefix r)"
  using assms
proof (rule destination_Inr)
  assume "root_prefix r = [] \<or> valid_path (root_prefix r)"
  moreover have "safe_name []" by (simp add: safe_name_def)
  ultimately show ?thesis by (metis valid_path_safe)
qed

section \<open>The cache is beside the tree\<close>

lemma resolved_path_Inr:
  "resolved_path en r w = (Inr p, w') \<Longrightarrow> \<exists>q. en_read_link en (root_fd r) w = (Inr q, w') \<and> p = path_join q (root_prefix r)"
  by (auto simp: resolved_path_def io_simps)

lemma path_join_ne: "a \<noteq> [] \<Longrightarrow> path_join a b \<noteq> []"
  by (auto simp: path_join_def is_relative_def starts_with_iff)

lemma cache_of_Some:
  assumes "cache_of os en cfg r w = (Inr (Some ca), w')"
  shows "\<exists>d v v' u u'. resolved_path en r v = (Inr (ca_root_id ca), v') \<and> resolved_path en d u = (Inr (ca_directory ca), u')
    \<and> \<not> path_within (ca_directory ca) (ca_root_id ca) \<and> \<not> path_within (ca_root_id ca) (ca_directory ca)"
proof (cases "resume cfg")
  case None
  with assms show ?thesis by (simp add: cache_of_def)
next
  case (Some rs)
  note run = assms [unfolded cache_of_def Some option.case bindI_Inr]
  from run obtain path w1 d w2 dir w3 where *: "resolved_path en r w = (Inr path, w1)"
    "resolved_path en d w2 = (Inr dir, w3)"
    "(if path_within dir path \<or> path_within path dir
      then config_error ''resume directory must be outside the synchronized tree''
      else if \<not> valid_utf8 path then config_error ''non-UTF-8 root''
      else returnI (Some \<lparr>ca_directory = dir, ca_root_id = path, ca_limits = Some (cache_limits rs)\<rparr>)) w3 = (Inr (Some ca), w')"
    by (elim exE conjE) (erule (2) that)
  then have "\<not> path_within dir path \<and> \<not> path_within path dir \<and> ca_directory ca = dir \<and> ca_root_id ca = path"
    by (auto simp: config_error_def split: if_splits)
  with *(1,2) show ?thesis by blast
qed

lemma cache_outside:
  assumes links: "\<And>f v p v'. en_read_link en f v = (Inr p, v') \<Longrightarrow> p \<noteq> []"
    and run: "cache_of os en cfg r w = (Inr (Some ca), w')" and rel: "is_relative p" "is_relative q"
  shows "path_parts (path_join (ca_root_id ca) p) \<noteq> path_parts (path_join (ca_directory ca) q)"
proof -
  from cache_of_Some [OF run] obtain d v v' u u' where *: "resolved_path en r v = (Inr (ca_root_id ca), v')"
    "resolved_path en d u = (Inr (ca_directory ca), u')"
    "\<not> path_within (ca_directory ca) (ca_root_id ca)" "\<not> path_within (ca_root_id ca) (ca_directory ca)" by blast
  have found: "x \<noteq> []" if "resolved_path en d u = (Inr x, u')" for d u x u'
    using resolved_path_Inr [OF that] links path_join_ne by (elim exE conjE) simp
  show ?thesis by (rule disjoint_paths [OF *(4,3) found [OF *(1)] found [OF *(2)] rel])
qed

text \<open>C7: The chunk cache lies outside the synchronized tree. When a client or a server is given a cache, no
  path below the root it synchronizes and no path below the directory of the cache have the same
  components, whatever the links of the two directories resolve to, in either direction; otherwise the
  program refuses to start. The hypothesis: a link of \<open>/proc/self/fd\<close> is never empty.\<close>

theorem cache_disjoint:
  assumes links: "\<And>f v p v'. en_read_link en f v = (Inr p, v') \<Longrightarrow> p \<noteq> []"
    and run: "cache_of os en cfg r w = (Inr (Some ca), w')" and rel: "is_relative p" "is_relative q"
  shows "path_parts (path_join (ca_root_id ca) p) \<noteq> path_parts (path_join (ca_directory ca) q)"
  by (rule cache_outside [OF assms])

section \<open>A session of the client\<close>

text \<open>The calls that find the directory, and the runtime, leave the tree below the root alone.\<close>

definition env_apart :: "'w os \<Rightarrow> 'w env \<Rightarrow> ('w \<Rightarrow> fs_view) \<Rightarrow> bool" where
  "env_apart os en view \<longleftrightarrow>
     (\<forall>p w. extends (view w) (view (snd (os_open_root os p w))))
     \<and> (\<forall>p w. extends (view w) (view (snd (en_absolute en p w))))
     \<and> (\<forall>p w. extends (view w) (view (snd (en_try_exists en p w))))
     \<and> (\<forall>f w. extends (view w) (view (snd (en_read_link en f w))))"

definition runtime_apart :: "('w, 'l, 'e) runtime \<Rightarrow> ('w \<Rightarrow> fs_view) \<Rightarrow> bool" where
  "runtime_apart rn view \<longleftrightarrow>
     (\<forall>i d w. extends (view w) (view (snd (rn_await_path rn i d w))))
     \<and> (\<forall>i w. extends (view w) (view (snd (rn_recall rn i w))))
     \<and> (\<forall>i d w. extends (view w) (view (snd (rn_open rn i d w))))
     \<and> (\<forall>i k d w. extends (view w) (view (snd (rn_open_with_key rn i k d w))))
     \<and> (\<forall>l w. extends (view w) (view (snd (rn_identify rn l w))))
     \<and> (\<forall>l p b d n w. extends (view w) (view (snd (rn_request rn l p b d n w))))
     \<and> (\<forall>l f s d w. extends (view w) (view (snd (rn_send rn l f s d w))))
     \<and> (\<forall>l s d w. extends (view w) (view (snd (rn_receive rn l s d w))))
     \<and> (\<forall>l w. extends (view w) (view (snd (rn_close rn l w))))"

lemma snd_linked [simp]: "snd (linked rn c w) = snd (c w)"
  by (simp add: linked_def split: prod.split sum.split)

lemma linked_Inr [io_simps]: "linked rn c w = (Inr x, w') \<longleftrightarrow> c w = (Inr x, w')"
  by (auto simp: linked_def split: prod.splits sum.splits)

lemma awaitI_Inr [io_simps]: "awaitI c w = (Inr x, w') \<longleftrightarrow> c w = (Inr x, w')"
  by (auto simp: awaitI_def split: prod.splits sum.splits)

lemma asks_Inr [io_simps]: "asks c w = (Inr x, w') \<longleftrightarrow> c w = (x, w')"
  by (auto simp: asks_def split: prod.splits)

lemma transportI_Inr [io_simps]: "transportI c w = (Inr x, w') \<longleftrightarrow> c w = (Inr x, w')"
  by (auto simp: transportI_def split: prod.splits sum.splits)

lemma grows_other [steps_rules]:
  "(\<And>w. extends (view w) (view (snd (c w)))) \<Longrightarrow> grows view (awaitI c)"
  "(\<And>w. extends (view w) (view (snd (c' w)))) \<Longrightarrow> grows view (asks c')"
  "(\<And>w. extends (view w) (view (snd (c'' w)))) \<Longrightarrow> grows view (callI (linked rn c''))"
proof -
  show "(\<And>w. extends (view w) (view (snd (c w)))) \<Longrightarrow> grows view (awaitI c)"
    unfolding steps_def awaitI_def by (auto split: prod.split sum.split intro!: r_into_rtranclp) (metis snd_conv)+
  show "(\<And>w. extends (view w) (view (snd (c' w)))) \<Longrightarrow> grows view (asks c')"
    unfolding steps_def asks_def by (auto split: prod.split intro!: r_into_rtranclp) (metis snd_conv)+
qed (rule grows_call, simp)

lemma grows_destination:
  assumes "env_apart os en view"
  shows "grows view (destination os en p)" "grows view (resolved_path en r)" "grows view (cache_of os en cfg r)"
proof -
  have c: "grows view (sysI (os_open_root os p))" "grows view (sysI (en_absolute en p))"
    "grows view (sysI (en_try_exists en p))" "grows view (sysI (en_read_link en f))" for p f
    using assms by (auto intro!: grows_sys simp: env_apart_def)
  have base: "grows view (existing_base en p cs names)" for p cs names
    by (induction cs arbitrary: names) (auto intro!: steps_rules c)
  show d: "grows view (destination os en p)" for p
  proof -
    have "grows view (if pre \<noteq> [] then liftI (validate pre) else returnI ())" for pre by (simp add: steps_return)
    then show ?thesis unfolding destination_def root_open_def Let_def case_prod_beta by (intro steps_bind steps_return c base)
  qed
  show r: "grows view (resolved_path en r)" for r
    unfolding resolved_path_def by (intro steps_rules c)
  show "grows view (cache_of os en cfg r)"
    unfolding cache_of_def config_error_def by (auto intro!: steps_rules d r split: option.split)
qed

lemma grows_open_link:
  assumes "runtime_apart rn view"
  shows "grows view (open_link rn thash cfg i d)"
  using assms unfolding open_link_def by (auto intro!: steps_rules simp: runtime_apart_def split: option.split)

lemma transport_apart:
  assumes "runtime_apart rn view" "\<And>p w. extends (view w) (view (snd (on_plan p w)))"
  shows "link_apart (reticulum_transport rn l path) on_plan view"
proof -
  have "snd (l_receive_file (reticulum_transport rn l path) s d w) = snd (rn_receive rn l s d w)" for s d w
  proof (cases "linked rn (rn_receive rn l s d) w")
    case (Pair x w')
    have "snd (linked rn (rn_receive rn l s d) w) = snd (rn_receive rn l s d w)" by simp
    then show ?thesis using Pair by (cases x) (simp_all add: reticulum_transport_def)
  qed
  then show ?thesis using assms by (simp add: link_apart_def runtime_apart_def) (simp add: reticulum_transport_def)
qed

text \<open>\<open>answered\<close>: the peer of a link answered a request with this manifest.\<close>

definition answered :: "('w, 'l, 'e) runtime \<Rightarrow> (byte list \<Rightarrow> hash) \<Rightarrow> entry list \<Rightarrow> bool" where
  "answered rn sha es \<longleftrightarrow>
     (\<exists>l path bytes d v response v'. rn_request rn l path bytes d (MAX_CONTROL + 1024) v = (Inr response, v')
        \<and> (decode response = Inr (Manifest es) \<or> decode2 sha (Inr ()) response = Inr (Common (Manifest es))))"

lemma answeredI:
  assumes "l_request (reticulum_transport rn l path) bytes d v = (Inr response, v')"
    and "decode response = Inr (Manifest es) \<or> decode2 sha (Inr ()) response = Inr (Common (Manifest es))"
  shows "answered rn sha es"
proof -
  have "rn_request rn l path bytes d (MAX_CONTROL + 1024) v = (Inr response, v')"
    using assms(1) by (simp add: reticulum_transport_def linked_Inr)
  with assms(2) show ?thesis unfolding answered_def by blast
qed

abbreviation pull_job :: "config \<Rightarrow> str \<Rightarrow> options \<Rightarrow> job" where
  "pull_job cfg path opt \<equiv>
     \<lparr>j_push = False, j_path = path, j_options = opt, j_deadline = unat (timeout_seconds cfg) * second\<rparr>"

text \<open>The steps of a session that succeeds.\<close>

lemma client_session_Inr:
  assumes "client_session os en rn sha hex thash cfg False local remote_id path opt on_plan w = (Inr (), w')"
  obtains r w1 cache w2 sc w3 u w4 l peer w5 u' w6 where "destination os en local w = (Inr r, w1)"
    "(if protocol cfg = 2 then cache_of os en cfg r else returnI None) w1 = (Inr cache, w2)"
    "scan_root os sha r (checksum opt) w2 = (Inr sc, w3)"
    "awaitI (rn_await_path rn remote_id (unat (timeout_seconds cfg) * second)) w3 = (Inr u, w4)"
    "open_link rn thash cfg remote_id (unat (timeout_seconds cfg) * second) w4 = (Inr (l, peer), w5)"
    "callI (linked rn (rn_identify rn l)) w5 = (Inr u', w6)"
    "(case cache of
        Some ca \<Rightarrow>
          bindI (presentI (resume cfg)) (\<lambda>rs.
            synchronize2 os sha hex (reticulum_transport rn l REQUEST_PATH2) r sc (pull_job cfg path opt)
              \<lparr>re_cache = ca, re_peer = peer, re_chunk_size = chunk_size rs\<rparr> on_plan)
      | None \<Rightarrow> synchronize os sha (reticulum_transport rn l REQUEST_PATH) r sc (pull_job cfg path opt) on_plan) w6 = (Inr (), w')"
  using assms unfolding client_session_def Let_def if_False bindI_Inr split_paired_Ex case_prod_conv
  by (elim exE conjE) (rule that, assumption+)

lemma session_result:
  assumes d: "destination os en local w = (Inr r, w0)"
    and o: "obeys os (root_fd r) view" "obeys_scan os (root_fd r) view" and wf: "tree_wf (view w)"
    and e: "env_apart os en view" and n: "runtime_apart rn view"
    and pl: "\<And>p w. extends (view w) (view (snd (on_plan p w)))"
    and c: "\<And>v ca v'. cache_of os en cfg r v = (Inr (Some ca), v')
          \<Longrightarrow> \<exists>side. apart os view side \<and> opens_aside os side (ca_directory ca)"
    and job: "\<not> dry_run opt"
    and run: "client_session os en rn sha hex thash cfg False local remote_id path opt on_plan w = (Inr (), w')"
  shows "\<exists>es theirs p. tree_of es = seen r (view w) \<and> answered rn sha theirs \<and> plan theirs es opt = Inr p
    \<and> seen r (view w') = carry_out theirs p (seen r (view w))"
  using run
proof (rule client_session_Inr)
  fix r1 w1 cache w2 sc w3 u w4 l peer w5 u' w6
  assume 1: "destination os en local w = (Inr r1, w1)"
    and 2: "(if protocol cfg = 2 then cache_of os en cfg r1 else returnI None) w1 = (Inr cache, w2)"
    and 3: "scan_root os sha r1 (checksum opt) w2 = (Inr sc, w3)"
    and 4: "awaitI (rn_await_path rn remote_id (unat (timeout_seconds cfg) * second)) w3 = (Inr u, w4)"
    and 5: "open_link rn thash cfg remote_id (unat (timeout_seconds cfg) * second) w4 = (Inr (l, peer), w5)"
    and 6: "callI (linked rn (rn_identify rn l)) w5 = (Inr u', w6)"
    and 7: "(case cache of
        Some ca \<Rightarrow>
          bindI (presentI (resume cfg)) (\<lambda>rs.
            synchronize2 os sha hex (reticulum_transport rn l REQUEST_PATH2) r1 sc (pull_job cfg path opt)
              \<lparr>re_cache = ca, re_peer = peer, re_chunk_size = chunk_size rs\<rparr> on_plan)
      | None \<Rightarrow> synchronize os sha (reticulum_transport rn l REQUEST_PATH) r1 sc (pull_job cfg path opt) on_plan) w6 = (Inr (), w')"
  from 1 d have r: "r1 = r" by simp
  have s: "safe_name (root_prefix r)" by (rule destination_safe [OF d])
  have "extends (view w) (view w1)" by (rule growsD [OF grows_destination(1) [OF e] 1])
  moreover have "extends (view w1) (view w2)"
  proof (cases "protocol cfg = 2")
    case True
    with 2 have "cache_of os en cfg r1 w1 = (Inr cache, w2)" by simp
    then show ?thesis by (rule growsD [OF grows_destination(3) [OF e]])
  qed (use 2 in simp)
  ultimately have w2: "extends (view w) (view w2)" by (rule extends_trans)
  then have "tree_wf (view w2)" using wf by (simp add: tree_wf_def is_dir_def extends_tree)
  from walk_describes [OF o s this 3 [unfolded r]]
  have tree: "tree_of (sc_entries sc) = seen r (view w2)" and w3: "extends (view w2) (view w3)" by (simp_all add: seen_def)
  have "grows view (awaitI (rn_await_path rn remote_id (unat (timeout_seconds cfg) * second)))"
    "grows view (callI (linked rn (rn_identify rn l)))"
    using n by (auto intro!: grows_other simp: runtime_apart_def)
  from growsD [OF this(1) 4] growsD [OF grows_open_link [OF n] 5] growsD [OF this(2) 6] w3
  have "extends (view w2) (view w6)" by (blast intro: extends_trans)
  then have start: "seen r (view w6) = tree_of (sc_entries sc)" "seen r (view w6) = seen r (view w)"
    using tree w2 by (simp_all add: extends_seen)
  have la: "link_apart (reticulum_transport rn l rp) on_plan view" for rp
    by (rule transport_apart [OF n]) (rule pl)
  have j: "\<not> j_push (pull_job cfg path opt)" "\<not> dry_run (j_options (pull_job cfg path opt))" using job by simp_all
  have "\<exists>rp d bytes response v v' theirs p. l_request (reticulum_transport rn l rp) bytes d v = (Inr response, v')
      \<and> (decode response = Inr (Manifest theirs) \<or> decode2 sha (Inr ()) response = Inr (Common (Manifest theirs)))
      \<and> plan theirs (sc_entries sc) opt = Inr p
      \<and> seen r (view w') = carry_out theirs p (seen r (view w6))"
  proof (cases cache)
    case None
    with 7 have "synchronize os sha (reticulum_transport rn l REQUEST_PATH) r sc (pull_job cfg path opt) on_plan w6 = (Inr (), w')"
      by (simp add: r)
    from pull_result [OF o(1) s la j start(1) this] show ?thesis by (simp, blast)
  next
    case (Some ca)
    with 2 have "cache_of os en cfg r w1 = (Inr (Some ca), w2)" by (auto simp: r split: if_splits)
    from c [OF this] obtain side where ap: "apart os view side" and oa: "opens_aside os side (ca_directory ca)" by blast
    from 7 Some obtain rs :: resume_config where "synchronize2 os sha hex (reticulum_transport rn l REQUEST_PATH2) r sc (pull_job cfg path opt)
        \<lparr>re_cache = ca, re_peer = peer, re_chunk_size = chunk_size rs\<rparr> on_plan w6 = (Inr (), w')"
      by (auto simp: r bindI_Inr presentI_Inr)
    from pull2_result [OF o(1) s la ap _ j start(1) this] oa show ?thesis by (simp, blast)
  qed
  then obtain rp d bytes response v v' theirs p where rq: "l_request (reticulum_transport rn l rp) bytes d v = (Inr response, v')"
    "decode response = Inr (Manifest theirs) \<or> decode2 sha (Inr ()) response = Inr (Common (Manifest theirs))"
    and p: "plan theirs (sc_entries sc) opt = Inr p" "seen r (view w') = carry_out theirs p (seen r (view w6))" by blast
  have "answered rn sha theirs" by (rule answeredI [OF rq])
  with p start show ?thesis by metis
qed


section \<open>A session on the system with two sides\<close>

definition two_os :: "mem os" where
  "two_os = side_os\<lparr>os_open_root := \<lambda>p w. (Inr (if p = ascii ''/a'' then 0 else 1000), w)\<rparr>"

definition two_env :: "mem env" where
  "two_env = \<lparr>en_absolute = (\<lambda>p w. (Inr p, w)), en_try_exists = (\<lambda>_ w. (Inr True, w)), en_exists = (\<lambda>_ w. (True, w)),
     en_is_file = (\<lambda>_ w. (False, w)), en_is_dir = (\<lambda>_ w. (False, w)),
     en_read_link = (\<lambda>f w. (Inr (if f = 0 then ascii ''/a'' else ascii ''/b''), w)),
     en_read_string = (\<lambda>_ w. (Inl NotFound, w)), en_named_temp = (\<lambda>_ w. (Inl NotFound, w)),
     en_persist = (\<lambda>_ _ w. (Inl NotFound, w)), en_discard = (\<lambda>_ w. w), en_display = id, en_home = None\<rparr>"

definition two_runtime :: "(mem, unit, unit) runtime" where
  "two_runtime = \<lparr>rn_transient = (\<lambda>_. False), rn_resource = (\<lambda>_. None), rn_text = (\<lambda>_. []),
     rn_await_path = (\<lambda>_ _ w. (Inr (), w)), rn_recall = (\<lambda>_ w. (Some [7], w)), rn_destination = (\<lambda>_ i. i),
     rn_open = (\<lambda>_ _ w. (Inl (), w)), rn_open_with_key = (\<lambda>_ _ _ w. (Inr (), w)), rn_identify = (\<lambda>_ w. (Inr (), w)),
     rn_request = (\<lambda>_ _ _ _ _ w. case m_answers w of [] \<Rightarrow> (Inl (), w) | a # as \<Rightarrow> (Inr a, w\<lparr>m_answers := as\<rparr>)),
     rn_send = (\<lambda>_ _ _ _ w. (Inl (), w)), rn_receive = (\<lambda>_ _ _ w. (Inl (), w)), rn_close = (\<lambda>_ w. (Inr (), w))\<rparr>"

definition two_config :: config where
  "two_config = default_config\<lparr>protocol := 2, resume := Some \<lparr>chunk_size = 4096, directory = ascii ''/b'',
     max_bytes = 1, max_transfers = 1, retention_seconds = 1\<rparr>, reconnect := default_policy\<lparr>attempts := 2\<rparr>\<rparr>"

definition two_cache :: cache where
  "two_cache = \<lparr>ca_directory = ascii ''/b/'', ca_root_id = ascii ''/a/'',
     ca_limits = Some \<lparr>limits.max_bytes = 1, max_transfers = 1, retention_seconds = 1\<rparr>\<rparr>"

definition two_world :: mem where
  "two_world = demo_world\<lparr>m_answers := [message_bytes2 (Common (Manifest [])), message_bytes2 (Common Ok)]\<rparr>"

lemma two_destination:
  "destination two_os two_env (ascii ''/a'') w = (Inr demo_root, w)"
  "destination two_os two_env (ascii ''/b'') w = (Inr \<lparr>root_fd = 1000, root_prefix = []\<rparr>, w)"
proof -
  have parts: "path_parts (ascii ''/a'') = [ascii ''a'']" "path_parts (ascii ''/b'') = [ascii ''b'']"
    "path_of [ascii ''a''] = ascii ''/a''" "path_of [ascii ''b''] = ascii ''/b''"
    "ascii ''/b'' \<noteq> ascii ''/a''" by code_simp+
  have ab: "en_absolute two_env p v = (Inr p, v)" "en_try_exists two_env p v = (Inr True, v)"
    "os_open_root two_os p v = (Inr (if p = ascii ''/a'' then 0 else 1000), v)" for p v
    by (simp_all add: two_env_def two_os_def)
  show "destination two_os two_env (ascii ''/a'') w = (Inr demo_root, w)"
    "destination two_os two_env (ascii ''/b'') w = (Inr \<lparr>root_fd = 1000, root_prefix = []\<rparr>, w)"
    using parts by (simp_all add: destination_def bindI_def sysI_def ab root_open_def demo_root_def)
qed

lemma two_cache_of: "cache_of two_os two_env two_config demo_root w = (Inr (Some two_cache), w)"
proof -
  have paths: "path_join (ascii ''/a'') [] = ascii ''/a/''" "path_join (ascii ''/b'') [] = ascii ''/b/''"
    "\<not> path_within (ascii ''/a/'') (ascii ''/b/'')" "\<not> path_within (ascii ''/b/'') (ascii ''/a/'')"
    "valid_utf8 (ascii ''/a/'')" by code_simp+
  have rl: "en_read_link two_env f v = (Inr (if f = 0 then ascii ''/a'' else ascii ''/b''), v)" for f v
    by (simp add: two_env_def)
  have cfg: "resume two_config = Some \<lparr>chunk_size = 4096, directory = ascii ''/b'',
     max_bytes = 1, max_transfers = 1, retention_seconds = 1\<rparr>" by (simp add: two_config_def)
  show ?thesis
    using paths
    by (simp add: cache_of_def cfg resolved_path_def rl two_destination bindI_def sysI_def demo_root_def two_cache_def
        cache_limits_def)
qed

lemma two_same:
  "os_openat2 two_os = os_openat2 side_os" "os_openat two_os = os_openat side_os" "os_metadata two_os = os_metadata side_os"
  "os_read_dir two_os = os_read_dir side_os" "os_mkdirat two_os = os_mkdirat side_os"
  "os_unlinkat two_os = os_unlinkat side_os" "os_renameat two_os = os_renameat side_os" "os_sync two_os = os_sync side_os"
  "os_futimens two_os = os_futimens side_os" "os_flock two_os = os_flock side_os" "os_read two_os = os_read side_os"
  "os_write two_os = os_write side_os" "os_rewind two_os = os_rewind side_os" "os_seek two_os = os_seek side_os"
  "os_tempfile_in two_os = os_tempfile_in side_os" "os_tempfile two_os = os_tempfile side_os"
  "os_create_dirs two_os = os_create_dirs side_os" "os_now two_os = os_now side_os" "os_clock two_os = os_clock side_os"
  by (simp_all add: two_os_def)

lemma two_laws:
  "obeys two_os 0 mem_view" "obeys_scan two_os 0 mem_view" "apart two_os mem_view mem_side" "env_apart two_os two_env mem_view"
proof -
  have "obeys side_os 0 mem_view" by (rule side_obeys) (simp add: mem_side_def)
  note side = this [unfolded obeys_def obeys_open_def obeys_reads_def obeys_mkdir_def obeys_unlink_def obeys_rename_def
        obeys_tempfile_def obeys_write_def obeys_times_def]
  show "obeys two_os 0 mem_view"
    unfolding obeys_def obeys_open_def obeys_reads_def obeys_mkdir_def obeys_unlink_def obeys_rename_def
      obeys_tempfile_def obeys_write_def obeys_times_def two_same by (rule side)
  have os: "os_openat two_os = os_openat mem_os" "os_read_dir two_os = os_read_dir mem_os"
    "os_openat2 two_os 0 = os_openat2 mem_os 0"
    by (simp_all add: two_same side_os_def mem_os_def mem_side_def fun_eq_iff)
  have md: "fs_handle w f = Some p \<Longrightarrow> os_metadata two_os f w = os_metadata mem_os f w"
    "fst (os_metadata two_os f w) = Inl NotFound \<Longrightarrow> fst (os_metadata mem_os f w) = Inl NotFound" for f w p
    by (auto simp: two_same side_os_def mem_os_def split: if_splits)
  have "describes (mem_view w) p m" if "fs_handle (mem_view w) f = Some p" "os_metadata two_os f w = (Inr m, w')" for f p w m w'
    using that by (intro obeys_scanD(1) [OF mem_obeys_scan [of 0]]) (simp_all add: md(1))
  then have 1: "\<forall>f p w m w'. fs_handle (mem_view w) f = Some p \<and> os_metadata two_os f w = (Inr m, w') \<longrightarrow> describes (mem_view w) p m"
    by blast
  have 2: "\<forall>f w. fst (os_metadata two_os f w) \<noteq> Inl NotFound"
    using md(2) obeys_scanD(2) [OF mem_obeys_scan] by blast
  from mem_obeys_scan [of 0] show "obeys_scan two_os 0 mem_view"
    unfolding obeys_scan_def os by (elim conjE) (intro conjI 1 2; assumption)
  have 3: "\<forall>q w. extends (mem_view w) (mem_view (snd (os_open_root two_os q w)))" by (simp add: two_os_def)
  from side_apart show "apart two_os mem_view mem_side"
    unfolding apart_def side_results_def two_same by (elim conjE) (intro conjI 3; assumption)
  show "env_apart two_os two_env mem_view"
    by (simp add: env_apart_def two_os_def two_env_def)
qed

lemma two_runtime_apart: "runtime_apart two_runtime mem_view"
  by (auto simp: runtime_apart_def two_runtime_def split: list.split)

lemma two_opens: "opens_aside two_os mem_side (ascii ''/b/'')"
proof -
  have "ascii ''/b/'' \<noteq> ascii ''/a''" by code_simp
  then show ?thesis by (simp add: opens_aside_def two_os_def mem_side_def)
qed

lemma two_scan:
  "\<exists>st w'. scan_root two_os (\<lambda>_. 0) demo_root False two_world = (Inr \<lparr>sc_entries = [], sc_stamps = st\<rparr>, w')
     \<and> m_answers w' = m_answers two_world"
proof -
  have "walk os sha r cks 130 = walk os sha r cks (Suc 129)" for os :: "mem os" and sha r cks by simp
  note fuel = this [THEN fun_cong, THEN fun_cong, unfolded walk.simps(2)]
  have len: "validate_manifest False [] = Inr ()"
    using demo_manifest_ok(2) by (simp add: validate_manifest_iff)
  show ?thesis
    using demo_paths demo_names len
    by (simp add: fuel children_def run_defs two_world_def demo_world_def demo_root_def stamp_of_def two_os_def side_os_def
      mem_side_def mem_os_def mem_open_def alloc_def mem_metadata_def mem_read_dir_def node_metadata_def MAX_ENTRIES_def)
qed

abbreviation two_link :: "mem link" where
  "two_link \<equiv> reticulum_transport two_runtime () REQUEST_PATH2"

lemma two_request:
  assumes "encode2 m = Inr bs" "m_answers w = message_bytes2 a # as"
    "decode2 (\<lambda>_. 0) (Inr ()) (message_bytes2 a) = Inr a" "\<And>c t. a \<noteq> Common (Error c t)"
  obtains w' where "request2 two_os (\<lambda>_. 0) two_link m d w = (Inr a, w')" "m_answers w' = as"
proof -
  have last: "(case a of Common (Error c t) \<Rightarrow> failI (Remote c t) | _ \<Rightarrow> returnI a) v = (Inr a, v)" for v :: mem
    using assms(4) by (auto split: message2.split message.split)
  have t: "os_tempfile two_os v = (Inr 1002, v\<lparr>m_input := (m_input v)(1002 := [])\<rparr>)" for v
    by (simp add: two_same side_os_def)
  let ?r = "request2 two_os (\<lambda>_. 0) two_link m d w"
  have "fst ?r = Inr a \<and> m_answers (snd ?r) = as"
    using assms(1-3) last t
    by (auto simp: request2_def decode_reply_def callI_def reticulum_transport_def linked_def two_runtime_def bindI_def
        pureI_def sysI_def may_def)
  then show ?thesis by (intro that [of "snd ?r"]) (auto simp: prod_eq_iff)
qed

lemma two_synchronize:
  assumes "m_answers w = m_answers two_world"
  shows "\<exists>w'. synchronize2 two_os (\<lambda>_. 0) (\<lambda>_. ascii ''k'') two_link demo_root \<lparr>sc_entries = [], sc_stamps = st\<rparr>
     (pull_job two_config [] demo_options) \<lparr>re_cache = two_cache, re_peer = 8, re_chunk_size = 4096\<rparr>
     (\<lambda>_. returnI ()) w = (Inr (), w')"
proof -
  let ?d = "unat (timeout_seconds two_config) * second"
  have plan: "plan [] [] demo_options = Inr empty_plan"
    by code_simp
  have dec: "decode2 (\<lambda>_. 0) (Inr ()) (message_bytes2 (Common (Manifest []))) = Inr (Common (Manifest []))"
    using demo_manifest_ok(2) by (simp add: decode2_iff message_bytes2_def manifest_bytes_def typed_manifest_def MAX_CONTROL_def)
  have "m_answers w = message_bytes2 (Common (Manifest [])) # [message_bytes2 (Common Ok)]"
    using assms by (simp add: two_world_def)
  then obtain w1 where 1: "request2 two_os (\<lambda>_. 0) two_link (Common (Start False demo_options [] [])) ?d w = (Inr (Common (Manifest [])), w1)"
    "m_answers w1 = message_bytes2 (Common Ok) # []"
    by (rule two_request [OF zero_encodes(1) _ dec]) simp_all
  obtain w2 where 2: "request2 two_os (\<lambda>_. 0) two_link (Common Finish) ?d w1 = (Inr (Common Ok), w2)" "m_answers w2 = []"
    by (rule two_request [OF zero_encodes(4) 1(2) zero_answers(3)]) simp
  have opt: "dry_run demo_options = False" "count 0 4096 = Inr 0"
    by (simp_all add: demo_options_def count_def MIN_CHUNK_SIZE_def MAX_CHUNK_SIZE_def div_ceil_def)
  show ?thesis
    unfolding synchronize2_def synchronize_inner2_def finallyI_def Let_def
    using plan 1(1) 2(1) demo_paths
    by (simp add: bindI_def pureI_def opt expect_ok2_def run_defs empty_plan_def demo_root_def)
qed

lemma two_session:
  "\<exists>w'. client_session two_os two_env two_runtime (\<lambda>_. 0) (\<lambda>_. ascii ''k'') (\<lambda>_. 8) two_config False (ascii ''/a'') 8 []
     demo_options (\<lambda>_. returnI ()) two_world = (Inr (), w')"
proof -
  obtain st w1 where scan: "scan_root two_os (\<lambda>_. 0) demo_root False two_world = (Inr \<lparr>sc_entries = [], sc_stamps = st\<rparr>, w1)"
    and w1: "m_answers w1 = m_answers two_world" using two_scan by blast
  obtain w2 where sync: "synchronize2 two_os (\<lambda>_. 0) (\<lambda>_. ascii ''k'') two_link demo_root \<lparr>sc_entries = [], sc_stamps = st\<rparr>
     (pull_job two_config [] demo_options) \<lparr>re_cache = two_cache, re_peer = 8, re_chunk_size = 4096\<rparr>
     (\<lambda>_. returnI ()) w1 = (Inr (), w2)" using two_synchronize [OF w1] by blast
  have rn: "awaitI (rn_await_path two_runtime i d) w = (Inr (), w)"
    "open_link two_runtime (\<lambda>_. 8) two_config 8 d w = (Inr ((), 8), w)"
    "callI (linked two_runtime (rn_identify two_runtime l)) w = (Inr (), w)" for i d w l
    by (simp_all add: awaitI_def open_link_def two_runtime_def two_config_def callI_def linked_def bindI_def asks_def)
  have cfg: "protocol two_config = 2" "checksum demo_options = False" "\<exists>rs. resume two_config = Some rs \<and> chunk_size rs = 4096"
    by (simp_all add: two_config_def demo_options_def)
  then obtain rs where rs: "resume two_config = Some rs" "chunk_size rs = 4096" by blast
  show ?thesis
    using scan sync two_destination(1) two_cache_of rn
    by (simp add: client_session_def cfg(1,2) rs bindI_def Let_def presentI_def)
qed


lemma cache_disjoint_witness:
  "path_parts (path_join (ca_root_id two_cache) (ascii ''f'')) \<noteq> path_parts (path_join (ca_directory two_cache) (ascii ''f''))"
proof -
  have links: "en_read_link two_env f v = (Inr p, v') \<Longrightarrow> p \<noteq> []" for f v p v'
    by (auto simp: two_env_def ascii_def split: if_splits)
  have rel: "is_relative (ascii ''f'')" by code_simp
  show ?thesis by (rule cache_disjoint [OF links two_cache_of rel rel])
qed

section \<open>The peer of a link\<close>

lemma bindI_never: "ensures m (\<lambda>_. False) \<Longrightarrow> bindI m f = bindI m g"
  by (rule ext) (auto simp: bindI_def ensures_def split: prod.split sum.split)

lemma bindI_cong: "(\<And>x. f x = g x) \<Longrightarrow> bindI m f = bindI m g"
  by (rule arg_cong [where f = "bindI m"]) (rule ext)

text \<open>Without a key for the destination, no link is opened.\<close>

lemma open_link_refused:
  assumes "protocol cfg = 2"
    and k: "\<And>v k v'. rn_recall rn i v = (Some k, v') \<Longrightarrow> rn_destination rn APP_NAME (thash k) \<noteq> i"
  shows "ensures (open_link rn thash cfg i d) (\<lambda>_. False)"
    "open_link rn thash cfg i d = bindI (asks (rn_recall rn i)) (\<lambda>found. failI
       (if found = None then Connection (ascii ''remote identity not discovered'')
        else Transport (ascii ''remote destination identity mismatch'')))"
proof -
  show *: "open_link rn thash cfg i d = bindI (asks (rn_recall rn i)) (\<lambda>found. failI
       (if found = None then Connection (ascii ''remote identity not discovered'')
        else Transport (ascii ''remote destination identity mismatch'')))"
  proof
    fix v
    obtain found v' where v: "rn_recall rn i v = (found, v')" by fastforce
    show "open_link rn thash cfg i d v = bindI (asks (rn_recall rn i)) (\<lambda>found. failI
       (if found = None then Connection (ascii ''remote identity not discovered'')
        else Transport (ascii ''remote destination identity mismatch''))) v"
      using assms(1) v k [of v] by (cases found) (simp_all add: open_link_def bindI_def asks_def)
  qed
  show "ensures (open_link rn thash cfg i d) (\<lambda>_. False)"
    by (simp add: * ensures_def bindI_Inr)
qed

lemma refused_session:
  fixes rn rn' :: "('w, 'l, 'e) runtime"
  assumes "protocol cfg = 2"
    and k: "\<And>v k v'. rn_recall rn i v = (Some k, v') \<Longrightarrow> rn_destination rn APP_NAME (thash k) \<noteq> i"
    and same: "rn_await_path rn' = rn_await_path rn" "rn_recall rn' = rn_recall rn" "rn_destination rn' = rn_destination rn"
  shows "client_session os en rn sha hex thash cfg push local i path opt on_plan
    = client_session os en rn' sha hex thash cfg push local i path opt on_plan"
proof -
  have k': "rn_recall rn' i v = (Some k, v') \<Longrightarrow> rn_destination rn' APP_NAME (thash k) \<noteq> i" for v k v'
    using k by (simp add: same)
  have eq: "open_link rn thash cfg i d = open_link rn' thash cfg i d" for d
    
  proof -
    have "open_link rn' thash cfg i d = bindI (asks (rn_recall rn i)) (\<lambda>found. failI
       (if found = None then Connection (ascii ''remote identity not discovered'')
        else Transport (ascii ''remote destination identity mismatch'')))"
      using open_link_refused(2) [OF assms(1) k'] by (simp only: same)
    then show ?thesis using open_link_refused(2) [OF assms(1) k] by simp
  qed
  have "bindI (open_link rn thash cfg i d) f = bindI (open_link rn' thash cfg i d) g" for d f g
    unfolding eq by (rule bindI_never) (rule open_link_refused(1) [OF assms(1) k'])
  then show ?thesis
    unfolding client_session_def Let_def same by (intro bindI_cong)
qed

text \<open>C6: Version 2 speaks only with the peer it was told to. When every key that is known for the address on
  the command line belongs to another address, a session does not use the link layer at all: whatever
  opening a link, identifying, requesting, sending, receiving and closing would do, its result, its
  effects on the world and its failures are the same.\<close>

theorem peer_authenticated:
  assumes "protocol cfg = 2"
    and "\<And>v k v'. rn_recall rn remote_id v = (Some k, v') \<Longrightarrow> rn_destination rn APP_NAME (thash k) \<noteq> remote_id"
  shows "client_session os en rn sha hex thash cfg push local remote_id path opt on_plan
    = client_session os en (rn\<lparr>rn_open := op, rn_open_with_key := opk, rn_identify := idn, rn_request := req,
        rn_send := snd', rn_receive := rcv, rn_close := cls\<rparr>) sha hex thash cfg push local remote_id path opt on_plan"
  by (rule refused_session [OF assms]) simp_all

text \<open>The runtime above, asked for the address 8 with keys of the address 9.\<close>

lemma peer_authenticated_witness:
  "client_session two_os two_env two_runtime (\<lambda>_. 0) (\<lambda>_. ascii ''k'') (\<lambda>_. 9) two_config False (ascii ''/a'') 8 [] demo_options (\<lambda>_. returnI ())
   = client_session two_os two_env (two_runtime\<lparr>rn_open := (\<lambda>_ _ w. (Inr (), two_world)),
       rn_open_with_key := (\<lambda>_ _ _ w. (Inr (), two_world)), rn_identify := (\<lambda>_ w. (Inl (), two_world)),
       rn_request := (\<lambda>_ _ _ _ _ w. (Inr [], two_world)), rn_send := (\<lambda>_ _ _ _ w. (Inl (), two_world)),
       rn_receive := (\<lambda>_ _ _ w. (Inl (), two_world)), rn_close := (\<lambda>_ w. (Inl (), two_world))\<rparr>)
       (\<lambda>_. 0) (\<lambda>_. ascii ''k'') (\<lambda>_. 9) two_config False (ascii ''/a'') 8 [] demo_options (\<lambda>_. returnI ())"
  by (rule peer_authenticated) (simp_all add: two_config_def two_runtime_def)

section \<open>Retries\<close>

text \<open>\<open>retried p sleep session n w v\<close>: from \<open>w\<close>, \<open>n\<close> whole sessions failed with errors that may be retried, each
  followed by its delay, and \<open>v\<close> is the world then.\<close>

inductive retried :: "policy \<Rightarrow> (u64 \<Rightarrow> 'w \<Rightarrow> 'w) \<Rightarrow> ('w, unit) io \<Rightarrow> nat \<Rightarrow> 'w \<Rightarrow> 'w \<Rightarrow> bool"
  for p sleep session where
  none: "retried p sleep session 0 w w"
| more: "retried p sleep session n w v \<Longrightarrow> n < unat (attempts p) \<Longrightarrow> session v = (Inl (Fails e), v') \<Longrightarrow> retryable e
    \<Longrightarrow> retried p sleep session (Suc n) w (sleep (delay p (word_of_nat n)) v')"

inductive_simps retried_0 [simp]: "retried p sleep session 0 w v"

lemma sessions_result:
  assumes "retried p sleep session k w0 w" "k \<le> unat (attempts p)"
    "sessions_io p sleep session [k..<Suc (unat (attempts p))] w = (x, w')"
  shows "\<exists>n v. n \<le> unat (attempts p) \<and> retried p sleep session n w0 v \<and> session v = (x, w')
    \<and> (\<forall>e. x = Inl (Fails e) \<and> retryable e \<longrightarrow> n = unat (attempts p))"
  using assms
proof (induction "unat (attempts p) - k" arbitrary: k w rule: less_induct)
  case less
  let ?N = "unat (attempts p)"
  have "[k..<Suc ?N] = k # [Suc k..<Suc ?N]" using less.prems(2) by (simp add: upt_conv_Cons del: upt_Suc)
  note loop = less.prems(3) [unfolded this sessions_io.simps]
  obtain y w1 where y: "session w = (y, w1)" by fastforce
  show ?case
  proof (cases "\<exists>e. y = Inl (Fails e) \<and> retryable e \<and> k < ?N")
    case True
    then obtain e where e: "y = Inl (Fails e)" "retryable e" "k < ?N" by blast
    have "sessions_io p sleep session [Suc k..<Suc ?N] (sleep (delay p (word_of_nat k)) w1) = (x, w')"
      using loop y e by (simp add: bindI_def resultI_def del: upt_Suc)
    moreover have "retried p sleep session (Suc k) w0 (sleep (delay p (word_of_nat k)) w1)"
      using less.prems(1) e(3) y e(1,2) by (auto intro: retried.more)
    ultimately show ?thesis using e(3) by (intro less.hyps [of "Suc k"]) simp_all
  next
    case False
    then have last: "\<forall>e. y = Inl (Fails e) \<and> retryable e \<longrightarrow> k = ?N" using less.prems(2) by auto
    from False loop y have "(x, w') = (y, w1)"
      by (cases y; cases "projl y") (auto simp: bindI_def resultI_def simp del: upt_Suc)
    with y last less.prems(1,2) show ?thesis by blast
  qed
qed

lemma client_result:
  assumes cut: "\<And>n m v v'. limited n m v = (Inr (Some ()), v') \<Longrightarrow> m v = (Inr (), v')"
    and run: "client os en ids resolve storage reticulum_init shutdown limited sleep sha hex thash cfg push local remote_id path opt
        on_plan w = (Inr (), w')"
  shows "\<exists>i t u rn w1 n v v'. load_identity en ids cfg (dry_run opt) w = (Inr i, t)
    \<and> runtime_check en resolve storage cfg (dry_run opt) t = (Inr (), u) \<and> reticulum_init i cfg u = (Inr rn, w1)
    \<and> n \<le> unat (attempts (reconnect cfg))
    \<and> retried (reconnect cfg) sleep (client_session os en rn sha hex thash cfg push local remote_id path opt on_plan) n w1 v
    \<and> client_session os en rn sha hex thash cfg push local remote_id path opt on_plan v = (Inr (), v') \<and> w' = shutdown v'"
proof -
  let ?p = "reconnect cfg"
  from run obtain i t u c rn w1 v' where init: "load_identity en ids cfg (dry_run opt) w = (Inr i, t)"
      "runtime_check en resolve storage cfg (dry_run opt) t = (Inr c, u)" "reticulum_init i cfg u = (Inr rn, w1)" and w': "w' = shutdown v'"
    and sessions: "run_io limited sleep ?p (client_session os en rn sha hex thash cfg push local remote_id path opt on_plan) w1 = (Inr (), v')"
    unfolding client_def bindI_Inr finallyI_Inr transportI_Inr by blast
  let ?m = "client_session os en rn sha hex thash cfg push local remote_id path opt on_plan"
  have "\<exists>n v. n \<le> unat (attempts ?p) \<and> retried ?p sleep ?m n w1 v \<and> ?m v = (Inr (), v')"
  proof (cases "attempts ?p = 0")
    case True
    with sessions have "?m w1 = (Inr (), v')" by (auto simp: run_io_def bindI_Inr)
    then show ?thesis by (intro exI [of _ 0] exI [of _ w1]) simp
  next
    case False
    with sessions have "limited (unat (max_elapsed_seconds ?p) * second)
        (sessions_io ?p sleep ?m [0..<Suc (unat (attempts ?p))]) w1 = (Inr (Some ()), v')"
      by (auto simp: run_io_def bindI_Inr simp del: upt_Suc split: option.splits)
    from sessions_result [OF _ _ cut [OF this], of w1] show ?thesis by auto
  qed
  moreover have "c = ()" by simp
  ultimately show ?thesis using init w' by blast
qed

text \<open>C5: A client succeeds by one whole session. When \<open>client\<close> reports success, the runtime was started, at
  most the configured number of sessions failed, each with an error that may be retried and each
  followed by its delay, and then one session ran from its start to its success; the runtime was shut down
  after it. Nothing is carried over from a failed session but the world. The hypothesis is that a
  computation that completes within its time limit has the effects and the value it has without one.\<close>

theorem client_succeeds_whole:
  assumes cut: "\<And>n m v v'. limited n m v = (Inr (Some ()), v') \<Longrightarrow> m v = (Inr (), v')"
    and run: "client os en ids resolve storage reticulum_init shutdown limited sleep sha hex thash cfg push local remote_id path opt
        on_plan w = (Inr (), w')"
  shows "\<exists>i t u rn w1 n v v'. load_identity en ids cfg (dry_run opt) w = (Inr i, t)
    \<and> runtime_check en resolve storage cfg (dry_run opt) t = (Inr (), u) \<and> reticulum_init i cfg u = (Inr rn, w1)
    \<and> n \<le> unat (attempts (reconnect cfg))
    \<and> retried (reconnect cfg) sleep (client_session os en rn sha hex thash cfg push local remote_id path opt on_plan) n w1 v
    \<and> client_session os en rn sha hex thash cfg push local remote_id path opt on_plan v = (Inr (), v') \<and> w' = shutdown v'"
  by (rule client_result [OF _ run]) (rule cut)

text \<open>The session above, run by a client that may retry twice; no time limit is exceeded.\<close>

definition two_identities :: "(mem, unit) identities" where
  "two_identities = \<lparr>id_from_file = (\<lambda>_ w. (Inr (), w)), id_new = (\<lambda>w. ((), demo_world)), id_to_file = (\<lambda>_ _ w. (Inr (), demo_world))\<rparr>"

abbreviation two_client :: "(mem, unit) io" where
  "two_client \<equiv> client_session two_os two_env two_runtime (\<lambda>_. 0) (\<lambda>_. ascii ''k'') (\<lambda>_. 8) two_config False (ascii ''/a'') 8 []
     demo_options (\<lambda>_. returnI ())"

lemma client_succeeds_whole_witness:
  "\<exists>n v v'. n \<le> 2 \<and> retried (reconnect two_config) (\<lambda>_ w. w) two_client n two_world v \<and> two_client v = (Inr (), v')"
proof -
  let ?limited = "\<lambda>(_ :: nat) (m :: (mem, unit) io). bindI m (\<lambda>_. returnI (Some ()))"
  have law: "?limited n m v = (Inr (Some ()), v') \<Longrightarrow> m v = (Inr (), v')" for n m v v' by (simp add: bindI_Inr)
  obtain v' where session: "two_client two_world = (Inr (), v')" using two_session by blast
  have att: "attempts (reconnect two_config) = 2" "validate_policy (reconnect two_config) = Inr ()"
    by (simp_all add: two_config_def validate_policy_def default_policy_def)
  have "[0..<Suc (unat (2 :: u32))] = [0, 1, 2]" by code_simp
  then have "run_io ?limited (\<lambda>_ w. w) (reconnect two_config) two_client two_world = (Inr (), v')"
    using session by (simp add: run_io_def att bindI_def resultI_def pureI_def)
  then have "client two_os two_env two_identities (\<lambda>_. []) (\<lambda>_. []) (\<lambda>_ _ w. (Inr two_runtime, w)) (\<lambda>w. w) ?limited (\<lambda>_ w. w)
      (\<lambda>_. 0) (\<lambda>_. ascii ''k'') (\<lambda>_. 8) two_config False (ascii ''/a'') 8 [] demo_options (\<lambda>_. returnI ()) two_world = (Inr (), v')"
    by (simp add: client_def load_identity_def runtime_check_def two_env_def two_identities_def transportI_def asks_def
        bindI_def finallyI_def demo_options_def)
  note run = this
  have "\<exists>i t u rn w1 n v v1. load_identity two_env two_identities two_config (dry_run demo_options) two_world = (Inr i, t)
      \<and> runtime_check two_env (\<lambda>_. []) (\<lambda>_. []) two_config (dry_run demo_options) t = (Inr (), u) \<and> (Inr two_runtime :: str + (mem, unit, unit) runtime, u) = (Inr rn, w1)
      \<and> n \<le> unat (attempts (reconnect two_config))
      \<and> retried (reconnect two_config) (\<lambda>_ w. w) (client_session two_os two_env rn (\<lambda>_. 0) (\<lambda>_. ascii ''k'') (\<lambda>_. 8) two_config
          False (ascii ''/a'') 8 [] demo_options (\<lambda>_. returnI ())) n w1 v
      \<and> client_session two_os two_env rn (\<lambda>_. 0) (\<lambda>_. ascii ''k'') (\<lambda>_. 8) two_config
          False (ascii ''/a'') 8 [] demo_options (\<lambda>_. returnI ()) v = (Inr (), v1) \<and> v' = v1"
    by (rule client_succeeds_whole [rotated, OF run]) (rule law)
  then obtain i t u n v where *: "load_identity two_env two_identities two_config (dry_run demo_options) two_world = (Inr i, t)"
      "runtime_check two_env (\<lambda>_. []) (\<lambda>_. []) two_config (dry_run demo_options) t = (Inr (), u)"
      "n \<le> unat (attempts (reconnect two_config))" "retried (reconnect two_config) (\<lambda>_ w. w) two_client n u v" "two_client v = (Inr (), v')"
    by auto
  from *(1,2) have "u = two_world"
    by (auto simp: load_identity_def runtime_check_def two_env_def two_identities_def transportI_def asks_def bindI_def demo_options_def)
  with *(3-5) show ?thesis by (auto simp: att)
qed

section \<open>The start of a server\<close>

text \<open>A server that starts has the invariant of \<open>Service_Props\<close>.\<close>

lemma serve_start_ok:
  assumes "serve_start os en ids resolve storage reticulum_init cfg r w = (Inr (i, rn, v), w')"
  shows "service_ok hex_decode cfg proven v"
proof -
  from assms obtain ca where "v = new_service r ca cfg" by (auto simp: serve_start_def bindI_Inr)
  then show ?thesis by (simp add: new_service_ok)
qed

section \<open>A dry run starts clean\<close>

lemma keeps_env [keeps_rules]:
  "(\<And>w. view (snd (c w)) = view w) \<Longrightarrow> keeps view (sysI c)"
  "(\<And>w. view (snd (c' w)) = view w) \<Longrightarrow> keeps view (asks c')"
  "(\<And>w. view (snd (c'' w)) = view w) \<Longrightarrow> keeps view (transportI c'')"
  unfolding keeps_def sysI_def asks_def transportI_def
  by (auto split: prod.split sum.split) (metis snd_conv)+

lemma dry_run_keeps:
  assumes "cli_dry_run c" "\<And>p w. view (snd (en_read_string en p w)) = view w"
    "\<And>p w. view (snd (en_exists en p w)) = view w" "\<And>p w. view (snd (id_from_file ids p w)) = view w"
  shows "keeps view (run_cli os en ids hx io_text parse arg c)"
proof -
  have l: "keeps view (load_directory os en hx io_text parse dir False)" for dir
    unfolding load_directory_def using assms(2) by (auto intro!: keeps_rules)
  have i: "keeps view (load_identity en ids cfg True)" for cfg
    unfolding load_identity_def config_error_def using assms(3,4) by (auto intro!: keeps_rules)
  have d: "keeps view (case arg of Some d \<Rightarrow> returnI d | None \<Rightarrow> liftI (default_directory en))"
    by (auto intro!: keeps_rules split: option.split)
  show ?thesis
    using assms(1) unfolding run_cli_def
    by (cases c) (auto simp: cli_dry_run_def intro!: keeps_rules d l i)
qed

text \<open>C34: A dry run starts without leaving anything behind. When the command is a push or a pull with
  \<open>--dry-run\<close>, everything up to the first session (finding the configuration directory, reading the
  configuration, reading the identity, parsing the address) leaves the world alone: no configuration
  and no identity is created, whatever is missing. The hypotheses are that asking whether a file exists,
  and reading the configuration or the identity, change nothing.\<close>

theorem dry_run_starts_clean:
  assumes "cli_dry_run c" "\<And>p w. view (snd (en_read_string en p w)) = view w"
    "\<And>p w. view (snd (en_exists en p w)) = view w" "\<And>p w. view (snd (id_from_file ids p w)) = view w"
  shows "view (snd (run_cli os en ids hx io_text parse arg c w)) = view w"
  using dry_run_keeps [OF assms, of os hx io_text parse arg] unfolding keeps_def by blast

lemma dry_run_starts_clean_witness:
  "snd (run_cli two_os two_env two_identities (\<lambda>_. None) (\<lambda>_. []) (\<lambda>_. Inr two_config) None
     (Pull (demo_options\<lparr>dry_run := True\<rparr>) (ascii ''r:/a'') (ascii ''/a'')) two_world) = two_world"
  using dry_run_starts_clean [where view = "\<lambda>w. w" and en = two_env and ids = two_identities
      and c = "Pull (demo_options\<lparr>dry_run := True\<rparr>) (ascii ''r:/a'') (ascii ''/a'')"]
  by (simp add: cli_dry_run_def two_env_def two_identities_def)

end
