(* ===== verification/Spec2Isabelle.thy ===== *)
theory Spec2Isabelle
  imports Progress Adapter_Props
begin

text \<open>
  rsSync synchronizes two directories over an authenticated connection. One side scans its directory
  and offers the manifest, the other answers with its own; both compute the same plan from the two
  manifests; the files of the plan are transferred one at a time (version 2: in chunks, which a cache
  keeps for a later session), each staged, checked and renamed into place; and the removals and directory
  times come last. This development models the program from the command line down to the system calls on
  one side and the calls of the link layer on the other, both of which are records of functions.

  The theories, from the ground up:

  Prelude, Failure. Bytes, results (\<open>'e + 'a\<close> with \<open>bindR\<close>), splitting and joining, decimal text;
  the error type of \<open>lib.rs\<close>, UTF-8, and panics as a result of their own.

  Paths (\<open>fs.rs\<close>: \<open>validate\<close>, \<open>Root::full\<close>, \<open>Root::subtree\<close>; \<open>main.rs\<close>: \<open>remote\<close>). Confinement of
  names below a root.

  Ordered_Map, Wire. The \<open>BTreeMap\<close> as a sorted association list; the byte reader and writer of
  \<open>protocol.rs\<close>, with the locales \<open>field_codec\<close> and \<open>fixed_codec\<close> for the fields both codecs share.

  Manifests, Codec1, Codec2 (\<open>sync.rs\<close>, \<open>protocol.rs\<close>, \<open>protocol/v2.rs\<close>). Validation of manifests against
  a declarative specification; encoding and decoding are inverse to each other, exactly.

  Chunk_Geometry (\<open>chunks.rs\<close>: \<open>Description\<close>). Chunk counts and lengths, the table of hashes, the scan of
  a file into chunks, the names of cache directories.

  Planning (\<open>sync.rs\<close>: \<open>plan\<close>). The plan as a function of two manifests, its specification, and what
  carrying it out (\<open>carry_out\<close>) does to a tree.

  Reconnection, Access (\<open>reconnect.rs\<close>, \<open>config.rs\<close>). Retry policy and its time bound; permissions and
  the checks of a configuration.

  Io, Os, Root_Ops, Sync_Ops (\<open>fs.rs\<close>, \<open>sync.rs\<close>). Computations on the outside world that may fail,
  panic or run on, with a calculus for each of these; the system calls as a record of functions, since they
  are not code of this repository; the operations of \<open>Root\<close> and \<open>Staged\<close> over them; the scan and the steps
  that carry a plan out.

  Fs_Model, Scan_Model, Content. What the system calls do to a tree of objects with its open handles
  (\<open>obeys\<close>, \<open>obeys_scan\<close>: the documented effects, as hypotheses), and what follows for the operations:
  \<open>prepare\<close>, \<open>install\<close> and \<open>finish\<close> refine the abstract steps of Planning, and a scan reports the tree.
  Content does the same for the bytes of staged and assembled files (\<open>data_laws\<close>).

  Chunk_Store, Apart (\<open>chunks.rs\<close>: \<open>Store\<close>). The cache on disk: transfers, chunks, shards, locks, the
  activity record, quota and eviction; and that a store in a directory apart from the tree (\<open>apart\<close>,
  \<open>opens_aside\<close>) leaves the tree alone, operation by operation.

  Engine1, Push_Session, Progress (\<open>engine.rs\<close>: \<open>Server\<close>). The server's session of version 1 as a state
  machine driven by requests, file completions, disconnects and leases, with its invariant over all
  reachable states; whole histories: a finished push has converged, and a push can always be finished.

  Engine2, Session2, Session2_Props (\<open>engine/v2.rs\<close>: \<open>Cache\<close>, \<open>Server\<close>). The server of version 2 in the same
  way: the negotiation of a description and its pages of hashes, chunks in both directions, the commit of
  an assembled file; invariant, freedom from panics, replies that are always encodable.

  Client1, Client2, Client2_Props (\<open>engine.rs\<close>, \<open>engine/v2.rs\<close>: \<open>synchronize\<close>). The two clients over a
  transport that is a record of functions (\<open>SyncTransport\<close>); a pull that succeeds has carried its plan
  out, and no peer makes the client of version 2 panic.

  Service, Service_Props (\<open>transport.rs\<close>: \<open>Service\<close>, \<open>serve_on\<close>, \<open>admit\<close>). The server's side of the adapter:
  which of the two servers a request goes to, what a failure does, the maintenance and the admission of
  packets; its invariant ties the servers, the versions of links and the proven identities together.

  Startup (\<open>fs.rs\<close>: \<open>Root::destination\<close>, \<open>Root::resolved_path\<close>; \<open>config.rs\<close>: \<open>default_directory\<close>,
  \<open>load_directory\<close>; \<open>transport.rs\<close>: \<open>cache\<close>, \<open>identity\<close>, \<open>runtime\<close>) and Adapter (\<open>transport.rs\<close>: \<open>link_error\<close>,
  \<open>ReticulumTransport\<close>, \<open>client\<close>, the start of \<open>serve\<close>; \<open>main.rs\<close>: \<open>run\<close>). What happens around a session. The
  record \<open>env\<close> holds the calls of \<open>std\<close> and \<open>tempfile\<close> this needs beyond those of \<open>Os\<close>, the record \<open>runtime\<close>
  the calls of \<open>rns_runtime\<close>.

  Adapter_Props. The properties that span components: a pull from the directory on the command line to
  the last file, the retries around it, the identity of the peer, the place of the cache, dry runs.

  Memory_Fs, Memory2. A file system in memory, one with a cache beside it, and scripted transports that
  satisfy the laws, on which the theorems that have them as hypotheses are evaluated.

  Bounds. \<open>walk\<close> has fuel 130, two more than the nesting the code allows, and never exhausts it
  (\<open>scan_total\<close>). \<open>hash_file\<close> reads at most \<open>os_reads\<close> times and \<open>Diverges\<close> otherwise, which a file that
  does not end would make it do. \<open>run\<close> of Reconnection is bounded by its deadline. All other loops are
  structural or have a measure.

  Not modelled. SHA-256, the truncated hash and the hex encoding are parameters; so are the YAML parser of
  \<open>serde_saphyr\<close>, the identities, links and link manager of the RNS crates, and the time limit of tokio, of
  which only is assumed what a completed computation did. A session that the overall deadline cuts off ends
  between any two calls; what the tree is then is not stated. The tasks, channels and timers of the event
  loop around the handlers of Service, the parsing of arguments by clap, logging and printing, the counters
  logged at debug level and the benchmark in \<open>examples\<close> are left out. Unsafe aliasing of the tree by other
  processes while a session runs is outside the laws of the system calls.
\<close>

end
